(* ===== verification/Tickr_Prelude.thy ===== *)
theory Tickr_Prelude
  imports Main
    "HOL-Library.Word"
    "HOL-Library.Char_ord"
    "HOL-Library.List_Lexorder"
    "HOL-Library.Product_Lexorder"
    "HOL-Library.Option_ord"
    "HOL-Library.Multiset"
begin

text \<open>
  The vocabulary every component theory shares:
  \<^item> the machine types of the source (bytes, instants, identifiers) and Rust's checked and
    saturating integer operations;
  \<^item> operations on a state that either succeed or fail, as values of a sum type;
  \<^item> SQL tables as lists of rows, with the statements the repositories issue
    (\<open>INSERT\<close>, \<open>INSERT OR IGNORE\<close>, \<open>UPDATE ... WHERE\<close>, \<open>ORDER BY ... LIMIT 1\<close>)
    and SQL's comparison of nullable columns;
  \<^item> two locales, \<open>op_system\<close> and \<open>op_monotone\<close>: the contract of a component whose
    operations keep an invariant and only ever move its state upwards in an order.

  Text columns and Rust strings are byte sequences (\<open>string\<close>, one \<open>char\<close> per UTF-8
  byte): \<open>str::len\<close> is \<open>length\<close>, and SQLite's BINARY collation is the
  lexicographic order on bytes.
\<close>

section \<open>Types of the source\<close>

type_synonym byte = "8 word"
type_synonym bytes = "byte list"
type_synonym uuid = "128 word"

text \<open>A \<open>DateTime<Utc>\<close> is the number of nanoseconds since the epoch; the stored column is
  \<open>timestamp_micros\<close>, which rounds towards the past.\<close>

type_synonym datetime = int
type_synonym micros = int

text \<open>An operation on a state of type \<open>'s\<close>: it returns an error or a value, and the state after
  it (a rolled back transaction leaves the state as it was).\<close>

type_synonym ('e, 'a, 's) outcome = "('e + 'a) \<times> 's"

named_theorems table_simps "evaluation of SQL statements on tables"
named_theorems codec_simps "round trips of encoders and decoders"

definition i64_min :: int where
  "i64_min = - (2 ^ 63)"

definition i64_max :: int where
  "i64_max = 2 ^ 63 - 1"

definition checked_add_i64 :: "int \<Rightarrow> int \<Rightarrow> int option" where
  "checked_add_i64 a b = (if i64_min \<le> a + b \<and> a + b \<le> i64_max then Some (a + b) else None)"

definition u64_max :: nat where
  "u64_max = 2 ^ 64 - 1"

text \<open>\<open>usize\<close> has 64 bits.\<close>

definition checked_add_usize :: "nat \<Rightarrow> nat \<Rightarrow> nat option" where
  "checked_add_usize a b = (if a + b \<le> u64_max then Some (a + b) else None)"

definition saturating_add_usize :: "nat \<Rightarrow> nat \<Rightarrow> nat" where
  "saturating_add_usize a b = min (a + b) u64_max"

definition checked_mul_u64 :: "nat \<Rightarrow> nat \<Rightarrow> nat option" where
  "checked_mul_u64 a b = (if a * b \<le> u64_max then Some (a * b) else None)"

lemma checked_add_i64_Some:
  "checked_add_i64 a b = Some c \<longleftrightarrow> c = a + b \<and> i64_min \<le> a + b \<and> a + b \<le> i64_max"
  by (auto simp: checked_add_i64_def)

lemma checked_add_i64_one [simp]: "checked_add_i64 0 1 = Some 1"
  by (simp add: checked_add_i64_def i64_min_def i64_max_def)

text \<open>Decimal text of an integer, as \<open>to_string\<close> and \<open>{}\<close> print it.\<close>

fun nat_text :: "nat \<Rightarrow> string" where
  "nat_text n = (if n < 10 then [char_of (48 + n)] else nat_text (n div 10) @ [char_of (48 + n mod 10)])"

declare nat_text.simps [simp del]

definition int_text :: "int \<Rightarrow> string" where
  "int_text i = (if i < 0 then ''-'' @ nat_text (nat (- i)) else nat_text (nat i))"

section \<open>The writer bundle\<close>

text \<open>\<open>BackendPool\<close> of \<^verbatim>\<open>src/src/migrations/src/backend.rs\<close>: the local stores exist in the SQLite
  database only, and their operations refuse the PostgreSQL pool. The state of the PostgreSQL
  database is not modelled.\<close>

datatype 'db backend_pool = PostgresPool | SqlitePool 'db

datatype repository_error_kind =
    Configuration
  | Unavailable
  | ContentionTimeout
  | ConstraintConflict
  | IncompatibleSchema
  | CorruptStored
  | InternalError

definition on_sqlite :: "'e \<Rightarrow> ('db \<Rightarrow> ('e, 'a, 'db) outcome) \<Rightarrow> 'db backend_pool \<Rightarrow> ('e, 'a, 'db backend_pool) outcome" where
  "on_sqlite requires f pool =
     (case pool of
        PostgresPool \<Rightarrow> (Inl requires, pool)
      | SqlitePool db \<Rightarrow> (let (r, db') = f db in (r, SqlitePool db')))"

definition read_sqlite :: "'e \<Rightarrow> ('db \<Rightarrow> 'e + 'a) \<Rightarrow> 'db backend_pool \<Rightarrow> 'e + 'a" where
  "read_sqlite requires f pool =
     (case pool of PostgresPool \<Rightarrow> Inl requires | SqlitePool db \<Rightarrow> f db)"

lemma on_sqlite_simps [simp]:
  "on_sqlite e f PostgresPool = (Inl e, PostgresPool)"
  "on_sqlite e f (SqlitePool db) = (fst (f db), SqlitePool (snd (f db)))"
  by (simp_all add: on_sqlite_def split: prod.split)

lemma read_sqlite_simps [simp]:
  "read_sqlite e g PostgresPool = Inl e"
  "read_sqlite e g (SqlitePool db) = g db"
  by (simp_all add: read_sqlite_def)

section \<open>Nullable columns\<close>

text \<open>SQL's \<open>=\<close> is not true when either side is NULL.\<close>

definition sql_eq :: "'a option \<Rightarrow> 'a option \<Rightarrow> bool" where
  "sql_eq x y = (case x of None \<Rightarrow> False | Some a \<Rightarrow> (case y of None \<Rightarrow> False | Some b \<Rightarrow> a = b))"

lemma sql_eq_simps [simp]:
  "sql_eq None y = False"
  "sql_eq x None = False"
  "sql_eq (Some a) (Some b) = (a = b)"
  by (auto simp: sql_eq_def split: option.splits)

lemma sql_eq_Some [simp]:
  "sql_eq x (Some b) \<longleftrightarrow> x = Some b"
  "sql_eq (Some a) y \<longleftrightarrow> y = Some a"
  by (auto simp: sql_eq_def split: option.splits)

lemma sql_eq_iff: "sql_eq x y \<longleftrightarrow> (\<exists>a. x = Some a \<and> y = Some a)"
  by (auto simp: sql_eq_def split: option.splits)

text \<open>\<open>COALESCE(x, y)\<close>.\<close>

definition coalesce :: "'a option \<Rightarrow> 'a \<Rightarrow> 'a option" where
  "coalesce x y = (case x of None \<Rightarrow> Some y | Some a \<Rightarrow> Some a)"

lemma coalesce_simps [simp]:
  "coalesce None y = Some y"
  "coalesce (Some a) y = Some a"
  "coalesce x y \<noteq> None"
  by (auto simp: coalesce_def split: option.splits)

section \<open>Tables and statements\<close>

text \<open>A table is the list of its rows. Its declared constraints (PRIMARY KEY, UNIQUE, CHECK) are a
  predicate on the whole table; a statement whose result would violate them is refused.\<close>

type_synonym 'r constraint = "'r list \<Rightarrow> bool"

definition update_where :: "('r \<Rightarrow> bool) \<Rightarrow> ('r \<Rightarrow> 'r) \<Rightarrow> 'r list \<Rightarrow> 'r list" where
  "update_where P f t = map (\<lambda>r. if P r then f r else r) t"

definition rows_affected :: "('r \<Rightarrow> bool) \<Rightarrow> 'r list \<Rightarrow> nat" where
  "rows_affected P t = length (filter P t)"

text \<open>\<open>UPDATE t SET f WHERE P\<close>: None when a constraint refuses it.\<close>

definition sql_update :: "'r constraint \<Rightarrow> ('r \<Rightarrow> bool) \<Rightarrow> ('r \<Rightarrow> 'r) \<Rightarrow> 'r list \<Rightarrow> 'r list option" where
  "sql_update chk P f t = (let t' = update_where P f t in if chk t' then Some t' else None)"

text \<open>\<open>INSERT INTO t VALUES r\<close>: None when a constraint refuses it.\<close>

definition sql_insert :: "'r constraint \<Rightarrow> 'r \<Rightarrow> 'r list \<Rightarrow> 'r list option" where
  "sql_insert chk r t = (if chk (t @ [r]) then Some (t @ [r]) else None)"

text \<open>\<open>INSERT OR IGNORE INTO t VALUES r\<close>: a refused row is skipped.\<close>

definition insert_or_ignore :: "'r constraint \<Rightarrow> 'r \<Rightarrow> 'r list \<Rightarrow> 'r list" where
  "insert_or_ignore chk r t = (if chk (t @ [r]) then t @ [r] else t)"

text \<open>\<open>INSERT OR IGNORE INTO t SELECT ...\<close>: the selected rows are inserted one by one.\<close>

definition insert_select :: "'r constraint \<Rightarrow> 'r list \<Rightarrow> 'r list \<Rightarrow> 'r list" where
  "insert_select chk rs t = fold (insert_or_ignore chk) rs t"

text \<open>\<open>SELECT ... ORDER BY k LIMIT 1\<close> over the selected rows.\<close>

fun first_by :: "('r \<Rightarrow> 'k::linorder) \<Rightarrow> 'r list \<Rightarrow> 'r option" where
  "first_by k [] = None"
| "first_by k (r # rs) =
     (case first_by k rs of
        None \<Rightarrow> Some r
      | Some r' \<Rightarrow> if k r \<le> k r' then Some r else Some r')"

definition select_first :: "('r \<Rightarrow> bool) \<Rightarrow> ('r \<Rightarrow> 'k::linorder) \<Rightarrow> 'r list \<Rightarrow> 'r option" where
  "select_first P k t = first_by k (filter P t)"

lemma first_by_None [simp]: "first_by k rs = None \<longleftrightarrow> rs = []"
  by (cases rs) (auto split: option.splits)

lemma first_by_Some_in: "first_by k rs = Some r \<Longrightarrow> r \<in> set rs"
  by (induction rs arbitrary: r) (auto split: option.splits if_splits)

lemma first_by_Some_le: "first_by k rs = Some r \<Longrightarrow> x \<in> set rs \<Longrightarrow> k r \<le> k x"
proof (induction rs arbitrary: r x)
  case Nil
  then show ?case by simp
next
  case (Cons y ys)
  show ?case
  proof (cases "first_by k ys")
    case None
    with Cons.prems show ?thesis by simp
  next
    case (Some z)
    with Cons.IH have z: "\<And>w. w \<in> set ys \<Longrightarrow> k z \<le> k w" by blast
    with Some Cons.prems show ?thesis by (auto split: if_splits intro: order_trans dest!: z)
  qed
qed

lemma select_first_None: "select_first P k t = None \<longleftrightarrow> (\<forall>r \<in> set t. \<not> P r)"
  by (auto simp: select_first_def filter_empty_conv)

lemma select_first_Some: "select_first P k t = Some r \<Longrightarrow> r \<in> set t \<and> P r"
  unfolding select_first_def by (drule first_by_Some_in) simp

lemma select_first_least:
  "select_first P k t = Some r \<Longrightarrow> x \<in> set t \<Longrightarrow> P x \<Longrightarrow> k r \<le> k x"
  unfolding select_first_def by (erule first_by_Some_le) simp

lemma set_update_where:
  "set (update_where P f t) = (\<lambda>r. if P r then f r else r) ` set t"
  by (simp add: update_where_def)

lemma ball_update_where [table_simps]:
  "(\<forall>x \<in> set (update_where P f t). Q x) \<longleftrightarrow> (\<forall>r \<in> set t. Q (if P r then f r else r))"
  by (simp add: update_where_def del: if_image_distrib)

lemma bex_update_where [table_simps]:
  "(\<exists>x \<in> set (update_where P f t). Q x) \<longleftrightarrow> (\<exists>r \<in> set t. Q (if P r then f r else r))"
  by (simp add: update_where_def del: if_image_distrib)

lemma update_where_bexI:
  "\<exists>r \<in> set t. Q r \<Longrightarrow> (\<And>r. P r \<Longrightarrow> Q r \<Longrightarrow> Q (f r)) \<Longrightarrow> \<exists>r \<in> set (update_where P f t). Q r"
  unfolding table_simps by auto

lemma update_where_ballI:
  "\<forall>r \<in> set t. Q r \<Longrightarrow> (\<And>r. P r \<Longrightarrow> Q r \<Longrightarrow> Q (f r)) \<Longrightarrow> \<forall>r \<in> set (update_where P f t). Q r"
  unfolding table_simps by auto

lemma update_where_in: "r \<in> set t \<Longrightarrow> (if P r then f r else r) \<in> set (update_where P f t)"
  by (auto simp: update_where_def)

lemma in_update_whereE:
  assumes "x \<in> set (update_where P f t)"
  obtains r where "r \<in> set t" "x = (if P r then f r else r)"
  using assms by (auto simp: update_where_def)

lemma map_update_where [table_simps]:
  "(\<And>r. r \<in> set t \<Longrightarrow> P r \<Longrightarrow> g (f r) = g r) \<Longrightarrow> map g (update_where P f t) = map g t"
  by (simp add: update_where_def)

lemma map_filter_update_where:
  "(\<And>r. r \<in> set t \<Longrightarrow> P r \<Longrightarrow> g (f r) = g r \<and> Q (f r) = Q r) \<Longrightarrow>
   map g (filter Q (update_where P f t)) = map g (filter Q t)"
  by (induction t) (auto simp: update_where_def)

lemma filter_update_where_count:
  "(\<And>r. P r \<Longrightarrow> Q r \<and> \<not> Q (f r)) \<Longrightarrow>
   length (filter Q (update_where P f t)) + rows_affected P t = length (filter Q t)"
  by (induction t) (auto simp: update_where_def rows_affected_def)

lemma update_where_idle: "rows_affected P t = 0 \<Longrightarrow> update_where P f t = t"
  by (auto simp: rows_affected_def update_where_def filter_empty_conv intro: map_idI)

lemma update_where_none: "(\<And>r. r \<in> set t \<Longrightarrow> \<not> P r) \<Longrightarrow> update_where P f t = t"
  by (auto simp: update_where_def intro: map_idI)

lemma find_update_where:
  "(\<And>r. r \<in> set t \<Longrightarrow> P r \<Longrightarrow> Q (f r) = Q r) \<Longrightarrow>
   find Q (update_where P f t) = map_option (\<lambda>r. if P r then f r else r) (find Q t)"
  by (induction t) (auto simp: update_where_def)

lemma sql_update_Some:
  "sql_update chk P f t = Some t' \<longleftrightarrow> t' = update_where P f t \<and> chk t'"
  by (auto simp: sql_update_def Let_def)

lemma sql_insert_Some:
  "sql_insert chk r t = Some t' \<longleftrightarrow> t' = t @ [r] \<and> chk t'"
  by (auto simp: sql_insert_def)

lemma insert_or_ignore_chk: "chk t \<Longrightarrow> chk (insert_or_ignore chk r t)"
  by (simp add: insert_or_ignore_def)

lemma length_insert_or_ignore [simp]:
  "length (insert_or_ignore chk r t) = Suc (length t) \<longleftrightarrow> chk (t @ [r])"
  "length (insert_or_ignore chk r t) = length t \<longleftrightarrow> \<not> chk (t @ [r])"
  by (simp_all add: insert_or_ignore_def)

lemma insert_or_ignore_simps:
  "chk (t @ [r]) \<Longrightarrow> insert_or_ignore chk r t = t @ [r]"
  "\<not> chk (t @ [r]) \<Longrightarrow> insert_or_ignore chk r t = t"
  by (simp_all add: insert_or_ignore_def)

lemma insert_or_ignore_mono: "set t \<subseteq> set (insert_or_ignore chk r t)"
  by (auto simp: insert_or_ignore_def)

lemma insert_select_chk: "chk t \<Longrightarrow> chk (insert_select chk rs t)"
  unfolding insert_select_def
  by (induction rs arbitrary: t) (auto simp: insert_or_ignore_chk)

lemma insert_or_ignore_set: "set (insert_or_ignore chk r t) \<subseteq> insert r (set t)"
  by (auto simp: insert_or_ignore_def)

lemma insert_select_mono: "set t \<subseteq> set (insert_select chk rs t)"
  unfolding insert_select_def
proof (induction rs arbitrary: t)
  case (Cons r rs)
  show ?case using insert_or_ignore_mono [of t chk r] Cons.IH [of "insert_or_ignore chk r t"] by simp
qed simp

lemma insert_select_set: "set (insert_select chk rs t) \<subseteq> set t \<union> set rs"
  unfolding insert_select_def
proof (induction rs arbitrary: t)
  case (Cons r rs)
  show ?case using insert_or_ignore_set [of chk r t] Cons.IH [of "insert_or_ignore chk r t"] by auto
qed simp

lemma insert_select_single [simp]:
  "insert_select chk [] t = t"
  "insert_select chk [r] t = insert_or_ignore chk r t"
  by (simp_all add: insert_select_def)

section \<open>Rows determined by a key\<close>

lemma filter_by_key:
  assumes "distinct (map k t)" and "\<And>r. P r \<Longrightarrow> k r = v"
  shows "filter P t = (case find P t of None \<Rightarrow> [] | Some r \<Rightarrow> [r])"
  using assms(1)
proof (induction t)
  case (Cons r t)
  have "filter P t = []" if "P r"
    using Cons.prems assms(2) [OF that] assms(2) by (auto simp: filter_empty_conv image_iff)
  with Cons show ?case by simp
qed simp

lemma distinct_map_inj:
  "distinct (map k t) \<Longrightarrow> r \<in> set t \<Longrightarrow> s \<in> set t \<Longrightarrow> k r = k s \<Longrightarrow> r = s"
  by (auto simp: distinct_map dest: inj_onD)

lemma rows_affected_key:
  assumes "distinct (map k t)" and "\<And>r. P r \<Longrightarrow> k r = v"
  shows "rows_affected P t = (if \<exists>r \<in> set t. P r then 1 else 0)"
  using assms(1)
proof (induction t)
  case Nil
  then show ?case by (simp add: rows_affected_def)
next
  case (Cons r t)
  have "P r \<Longrightarrow> \<forall>s \<in> set t. \<not> P s"
    using Cons.prems assms(2) by (auto simp: image_iff)
  with Cons show ?case by (auto simp: rows_affected_def filter_empty_conv)
qed

lemma find_Some_iff_key:
  assumes "distinct (map k t)" and "\<And>r. P r \<Longrightarrow> k r = v"
  shows "find P t = Some r \<longleftrightarrow> r \<in> set t \<and> P r"
proof
  assume "find P t = Some r"
  then show "r \<in> set t \<and> P r" by (auto simp: find_Some_iff)
next
  assume r: "r \<in> set t \<and> P r"
  then obtain s where s: "find P t = Some s"
    by (cases "find P t") (auto simp: find_None_iff)
  then have "s \<in> set t" "P s" by (auto simp: find_Some_iff)
  with r assms have "s = r" by (metis distinct_map_inj)
  with s show "find P t = Some r" by simp
qed

lemma concat_map_key:
  assumes "distinct (map k t)" and "\<And>r. r \<in> set t \<Longrightarrow> h r \<noteq> [] \<Longrightarrow> k r = k x" and "x \<in> set t"
  shows "concat (map h t) = h x"
  using assms
proof (induction t)
  case (Cons y t)
  show ?case
  proof (cases "x = y")
    case True
    with Cons.prems have "h r = []" if "r \<in> set t" for r
      using that by (metis distinct.simps(2) image_eqI list.set_intros(2) list.set_map list.simps(9))
    then show ?thesis using True by simp
  next
    case False
    with Cons.prems have "x \<in> set t" "h y = []" by (auto simp: image_iff)
    with Cons show ?thesis by simp
  qed
qed simp

lemma find_snoc: "find P (t @ [r]) = (case find P t of None \<Rightarrow> if P r then Some r else None | Some x \<Rightarrow> Some x)"
  by (induction t) auto

lemma find_SomeD: "find P t = Some r \<Longrightarrow> r \<in> set t \<and> P r"
  by (auto simp: find_Some_iff)

lemma find_NoneD: "find P t = None \<Longrightarrow> r \<in> set t \<Longrightarrow> \<not> P r"
  by (auto simp: find_None_iff)

section \<open>Growing tables\<close>

text \<open>Every row of the first table has a successor in the second one.\<close>

definition rows_le :: "('r \<Rightarrow> 'r \<Rightarrow> bool) \<Rightarrow> 'r list \<Rightarrow> 'r list \<Rightarrow> bool" where
  "rows_le R t t' \<longleftrightarrow> (\<forall>r \<in> set t. \<exists>r' \<in> set t'. R r r')"

lemma rows_le_refl [simp, intro]: "(\<And>r. R r r) \<Longrightarrow> rows_le R t t"
  by (auto simp: rows_le_def)

lemma rows_le_trans:
  "rows_le R t u \<Longrightarrow> rows_le R u v \<Longrightarrow> (\<And>a b c. R a b \<Longrightarrow> R b c \<Longrightarrow> R a c) \<Longrightarrow> rows_le R t v"
  unfolding rows_le_def by meson

lemma rows_le_superset: "(\<And>r. R r r) \<Longrightarrow> set t \<subseteq> set t' \<Longrightarrow> rows_le R t t'"
  by (auto simp: rows_le_def)

lemma rows_le_update_where:
  "(\<And>r. R r r) \<Longrightarrow> (\<And>r. r \<in> set t \<Longrightarrow> P r \<Longrightarrow> R r (f r)) \<Longrightarrow> rows_le R t (update_where P f t)"
  by (auto simp: rows_le_def table_simps)

section \<open>Components whose operations keep an invariant\<close>

text \<open>The contract of a component: \<open>exec\<close> runs one operation, whatever it returns, and keeps the
  invariant. The lemmas lift it to every sequence of operations.\<close>

locale op_system =
  fixes exec :: "'op \<Rightarrow> 's \<Rightarrow> 's" and inv :: "'s \<Rightarrow> bool"
  assumes exec_inv: "inv s \<Longrightarrow> inv (exec a s)"
begin

lemma run_inv: "inv s \<Longrightarrow> inv (fold exec ops s)"
  by (induction ops arbitrary: s) (auto intro: exec_inv)

end

text \<open>A component whose state, besides, only grows in an order: facts that are upward closed stay true
  along every run.\<close>

locale op_monotone = op_system +
  fixes le :: "'s \<Rightarrow> 's \<Rightarrow> bool"
  assumes le_refl: "le s s"
    and le_trans: "le s t \<Longrightarrow> le t u \<Longrightarrow> le s u"
    and exec_le: "inv s \<Longrightarrow> le s (exec a s)"
begin

lemma run_le: "inv s \<Longrightarrow> le s (fold exec ops s)"
proof (induction ops arbitrary: s)
  case Nil
  show ?case by (simp add: le_refl)
next
  case (Cons a ops)
  have "le s (exec a s)" using Cons.prems by (rule exec_le)
  moreover have "le (exec a s) (fold exec ops (exec a s))"
    using Cons.prems by (intro Cons.IH exec_inv)
  ultimately show ?case by (simp add: le_trans)
qed

lemma run_stable:
  assumes "inv s" and "P s" and "\<And>t. inv t \<Longrightarrow> le s t \<Longrightarrow> P s \<Longrightarrow> P t"
  shows "P (fold exec ops s)"
  using assms by (blast intro: run_le run_inv)

end

end
