(* ===== verification/Json_Encoding.thy ===== *)
theory Json_Encoding
  imports Tickr_Prelude
begin

text \<open>
  The stored representations of \<^verbatim>\<open>src/src/migrations/src/encoding.rs\<close>: canonical JSON, instants in
  microseconds, booleans and enumerations. \<open>serde_json\<close>, \<open>chrono\<close> and \<open>uuid\<close> are third-party: the
  functions the source calls are fields of the record \<open>externals\<close>, and what it relies on is the
  predicate \<open>serde_bytes_roundtrip\<close>. Numbers are an opaque type \<open>'n\<close>
  (\<open>serde_json::Number\<close>).
\<close>

section \<open>JSON values\<close>

datatype 'n json =
    JNull
  | JBool bool
  | JNumber 'n
  | JString string
  | JArray "'n json list"
  | JObject "(string \<times> 'n json) list"

record 'n externals =
  number_of_u8 :: "byte \<Rightarrow> 'n"
  to_json_text :: "'n json \<Rightarrow> string"
  bytes_of_json_text :: "string \<Rightarrow> string + bytes"
  from_timestamp_micros :: "micros \<Rightarrow> datetime option"
  json_of_bytes :: "bytes \<Rightarrow> string + 'n json"
  number_as_u64 :: "'n \<Rightarrow> nat option"
  uuid_text :: "uuid \<Rightarrow> string"
  uuid_bytes :: "uuid \<Rightarrow> bytes"
  parse_uuid :: "string \<Rightarrow> uuid option"

section \<open>encoding.rs\<close>

datatype decode_error =
    NonCanonicalUuid string
  | TimestampOutOfRange int
  | InvalidJson string
  | InvalidBoolean int
  | InvalidEnum string "string list"

text \<open>The \<open>Display\<close> of a decode error, as far as messages embed it.\<close>

definition timestamp_error_text :: "decode_error \<Rightarrow> string" where
  "timestamp_error_text e = (case e of
      TimestampOutOfRange m \<Rightarrow> ''stored timestamp is outside chrono'' @ [CHR 0x27] @ ''s supported range: '' @ int_text m
    | _ \<Rightarrow> [])"

definition encode_uuid :: "'n externals \<Rightarrow> uuid \<Rightarrow> string" where
  "encode_uuid X u = uuid_text X u"

definition decode_uuid :: "'n externals \<Rightarrow> string \<Rightarrow> decode_error + uuid" where
  "decode_uuid X s =
     (case parse_uuid X s of
        None \<Rightarrow> Inl (NonCanonicalUuid s)
      | Some u \<Rightarrow> if encode_uuid X u \<noteq> s then Inl (NonCanonicalUuid s) else Inr u)"

definition encode_timestamp :: "datetime \<Rightarrow> micros" where
  "encode_timestamp t = t div 1000"

definition decode_timestamp :: "'n externals \<Rightarrow> micros \<Rightarrow> decode_error + datetime" where
  "decode_timestamp X m =
     (case from_timestamp_micros X m of None \<Rightarrow> Inl (TimestampOutOfRange m) | Some t \<Rightarrow> Inr t)"

definition encode_boolean :: "bool \<Rightarrow> int" where
  "encode_boolean b = (if b then 1 else 0)"

definition decode_boolean :: "int \<Rightarrow> decode_error + bool" where
  "decode_boolean v = (if v = 0 then Inr False else if v = 1 then Inr True else Inl (InvalidBoolean v))"

definition decode_enum :: "string \<Rightarrow> string list \<Rightarrow> decode_error + string" where
  "decode_enum v allowed = (if v \<in> set allowed then Inr v else Inl (InvalidEnum v allowed))"

definition encode_enum :: "string \<Rightarrow> string list \<Rightarrow> decode_error + string" where
  "encode_enum v allowed = decode_enum v allowed"

text \<open>The keys of every object in ascending order. A \<open>Map\<close> holds each key once, so sorting the
  entries by key is sorting the keys and looking each one up.\<close>

fun canonical_json :: "'n json \<Rightarrow> 'n json" where
  "canonical_json (JArray vs) = JArray (map canonical_json vs)"
| "canonical_json (JObject kvs) =
     JObject (sort_key fst (map (\<lambda>(k, v). (k, canonical_json v)) kvs))"
| "canonical_json v = v"

definition encode_json :: "'n externals \<Rightarrow> 'n json \<Rightarrow> string" where
  "encode_json X v = to_json_text X (canonical_json v)"

text \<open>A byte string is stored as the JSON array of its bytes (\<open>encode_bytes\<close> of
  \<^verbatim>\<open>task_pickup_repository.rs\<close>).\<close>

definition encode_bytes :: "'n externals \<Rightarrow> bytes \<Rightarrow> string" where
  "encode_bytes X bs = encode_json X (JArray (map (\<lambda>b. JNumber (number_of_u8 X b)) bs))"

text \<open>What the code relies on: \<open>serde_json\<close> reads back the byte arrays it writes.\<close>

definition serde_bytes_roundtrip :: "'n externals \<Rightarrow> bool" where
  "serde_bytes_roundtrip X \<longleftrightarrow>
     (\<forall>bs. bytes_of_json_text X (to_json_text X (JArray (map (\<lambda>b. JNumber (number_of_u8 X b)) bs)))
           = Inr bs)"

lemma bytes_of_encode_bytes [codec_simps]:
  "serde_bytes_roundtrip X \<Longrightarrow> bytes_of_json_text X (encode_bytes X bs) = Inr bs"
  by (simp add: serde_bytes_roundtrip_def encode_bytes_def encode_json_def comp_def)

lemma encode_bytes_inj:
  "serde_bytes_roundtrip X \<Longrightarrow> encode_bytes X bs = encode_bytes X cs \<longleftrightarrow> bs = cs"
  by (metis bytes_of_encode_bytes sum.inject(2))

section \<open>An instance of the external functions\<close>

text \<open>Used to exhibit inputs on which the theorems apply: numbers are naturals, a JSON byte array is
  written as its bytes, and an instant is read back from its microseconds.\<close>

definition text_of_json :: "nat json \<Rightarrow> string" where
  "text_of_json v = (case v of
      JArray vs \<Rightarrow> map (\<lambda>w. case w of JNumber n \<Rightarrow> char_of n | _ \<Rightarrow> CHR ''?'') vs
    | _ \<Rightarrow> ''?'')"

definition plain_externals :: "nat externals" where
  "plain_externals = \<lparr>
     number_of_u8 = unat,
     to_json_text = text_of_json,
     bytes_of_json_text = (\<lambda>s. Inr (map (\<lambda>c. of_nat (of_char c)) s)),
     from_timestamp_micros = (\<lambda>m. Some (m * 1000)),
     json_of_bytes = (\<lambda>bs. case bs of
         [] \<Rightarrow> Inl ''EOF while parsing a value at line 1 column 0''
       | b # _ \<Rightarrow> Inr (JObject [(''v'', JNumber (unat b))])),
     number_as_u64 = Some,
     uuid_text = (\<lambda>u. replicate (unat u) (CHR ''u'')),
     uuid_bytes = (\<lambda>u. map (\<lambda>i. ucast (drop_bit (8 * i) u)) (rev [0..<16])),
     parse_uuid = (\<lambda>s. Some (of_nat (length s))) \<rparr>"

lemma word_of_nat_unat_mod: "word_of_nat (unat (b :: byte) mod 256) = b"
proof -
  have "unat b < 256" using unsigned_less [of b] by simp
  then show ?thesis by simp
qed

lemma plain_externals_roundtrip: "serde_bytes_roundtrip plain_externals"
  by (simp add: serde_bytes_roundtrip_def plain_externals_def text_of_json_def comp_def
      word_of_nat_unat_mod)

lemma decode_encode_boolean [codec_simps]: "decode_boolean (encode_boolean b) = Inr b"
  by (simp add: decode_boolean_def encode_boolean_def)

end
