(* ===== verification/Pickup_Model.thy ===== *)
theory Pickup_Model
  imports Json_Encoding
begin

text \<open>
  The durable task-pickup store of Tickr Lite, \<^verbatim>\<open>src/src/migrations/src/task_pickup_repository.rs\<close>,
  over the tables of \<^verbatim>\<open>src/src/migrations/sqlite/0006\<close>, \<^verbatim>\<open>0007\<close> and \<^verbatim>\<open>0008\<close>: one record per table row,
  one constraint predicate per table (PRIMARY KEY, UNIQUE, CHECK), one definition per repository
  operation. A transaction is one step: an operation that fails before its commit returns the
  state it was given. Losses of the connection to the database are not modelled; a constraint
  violation is, as the error \<open>ConstraintConflict\<close>.
\<close>

section \<open>Data\<close>

definition MAX_DISPATCH_KEY_BYTES :: nat where
  "MAX_DISPATCH_KEY_BYTES = 128"

definition MAX_OWNER_BYTES :: nat where
  "MAX_OWNER_BYTES = 128"

definition pickup_now :: "datetime \<Rightarrow> datetime" where
  "pickup_now now = now - now mod 1000"

record pending_task_dispatch =
  pd_dispatch_key :: string
  pd_payload :: bytes

record task_pickup_claim =
  c_dispatch_key :: string
  c_generation :: int
  c_owner :: string
  c_deadline :: datetime

record claim_task_pickup_input =
  ci_dispatch_key :: string
  ci_owner :: string
  ci_deadline :: datetime
  ci_assigned_event :: bytes
  ci_now :: datetime

datatype claim_task_pickup_outcome = Committed task_pickup_claim | NotPending

datatype terminal_outcome =
    ProcessExitedSuccess
  | ProcessExitedFailure
  | ProcessSetupFailed
  | LivenessExpired
  | CancellationKilled
  | CancellationAlreadyExited
  | CancellationNoProcess

text \<open>The values the CHECK constraints admit in the columns \<open>state\<close> and \<open>kind\<close>.\<close>

datatype dispatch_state = Pending | Claimed | Rejected

datatype event_kind = Assigned | Started | Completed | Failed | Unhealthy

fun outcome_as_str :: "terminal_outcome \<Rightarrow> string" where
  "outcome_as_str ProcessExitedSuccess = ''process-exited-success''"
| "outcome_as_str ProcessExitedFailure = ''process-exited-failure''"
| "outcome_as_str ProcessSetupFailed = ''process-setup-failed''"
| "outcome_as_str LivenessExpired = ''liveness-expired''"
| "outcome_as_str CancellationKilled = ''cancellation-killed''"
| "outcome_as_str CancellationAlreadyExited = ''cancellation-already-exited''"
| "outcome_as_str CancellationNoProcess = ''cancellation-no-process''"

fun outcome_event_kind :: "terminal_outcome \<Rightarrow> event_kind option" where
  "outcome_event_kind ProcessExitedSuccess = Some Completed"
| "outcome_event_kind ProcessExitedFailure = Some Failed"
| "outcome_event_kind ProcessSetupFailed = Some Failed"
| "outcome_event_kind LivenessExpired = Some Unhealthy"
| "outcome_event_kind _ = None"

datatype terminal_election = Won | Settled terminal_outcome | NotClaimed

record due_task_pickup =
  due_claim :: task_pickup_claim
  due_payload :: bytes

record pending_task_event =
  pe_dispatch_key :: string
  pe_generation :: int
  pe_kind :: event_kind
  pe_event :: bytes

datatype cancellation_reconciliation = Killed | AlreadyExited | NoProcess

fun reconciliation_as_str :: "cancellation_reconciliation \<Rightarrow> string" where
  "reconciliation_as_str Killed = ''killed''"
| "reconciliation_as_str AlreadyExited = ''already-exited''"
| "reconciliation_as_str NoProcess = ''no-process''"

fun reconciliation_terminal_outcome :: "cancellation_reconciliation \<Rightarrow> terminal_outcome" where
  "reconciliation_terminal_outcome Killed = CancellationKilled"
| "reconciliation_terminal_outcome AlreadyExited = CancellationAlreadyExited"
| "reconciliation_terminal_outcome NoProcess = CancellationNoProcess"

record cancellation_fence =
  cf_ack :: string
  cf_task :: string
  cf_workflow :: string
  cf_dispatch_key :: "string option"
  cf_generation :: "int option"
  cf_owner :: "string option"
  cf_owner_notified :: bool
  cf_deadline :: "datetime option"
  cf_terminal :: "terminal_outcome option"

record pending_cancellation_ack =
  pa_ack :: string
  pa_acknowledgement :: bytes

record pickup_snapshot =
  s_state :: dispatch_state
  s_generation :: int
  s_owner :: "string option"
  s_deadline :: "datetime option"
  s_armed_at :: "datetime option"
  s_rejection :: "string option"
  s_staged_kinds :: "event_kind list"
  s_quarantined :: bool
  s_terminal :: "terminal_outcome option"
  s_forwarded_kinds :: "event_kind list"
  s_fence :: "cancellation_fence option"
  s_reconciliation :: "cancellation_reconciliation option"
  s_ack_forwarded :: bool

record local_task_log_stream =
  ls_task :: uuid
  ls_generation :: nat

section \<open>Errors\<close>

datatype pickup_error_source =
    RequiresSqlite
  | InvalidDispatchKey
  | InvalidOwner
  | InvalidDeadline
  | GenerationOverflow string
  | DispatchIdentityCollision string
  | CorruptStoredValue string
  | InvalidCancellationIdentity
  | TimestampError int
  | SqlxConstraint

type_synonym pickup_error = "repository_error_kind \<times> pickup_error_source"

definition configuration_error :: "pickup_error_source \<Rightarrow> pickup_error" where
  "configuration_error e = (Configuration, e)"

definition corrupt_value :: "pickup_error_source \<Rightarrow> pickup_error" where
  "corrupt_value e = (CorruptStored, e)"

text \<open>\<open>repository_sqlx_error\<close> on a unique, check or foreign-key violation.\<close>

definition sqlx_constraint_error :: pickup_error where
  "sqlx_constraint_error = (ConstraintConflict, SqlxConstraint)"

section \<open>Tables\<close>

record dispatch_row =
  d_key :: string
  d_payload :: string
  d_state :: dispatch_state
  d_generation :: int
  d_owner :: "string option"
  d_deadline :: "micros option"
  d_armed_at :: "micros option"
  d_rejection :: "string option"
  d_created_at :: micros
  d_updated_at :: micros
  d_task :: "string option"
  d_workflow :: "string option"

record event_row =
  e_key :: string
  e_generation :: int
  e_kind :: event_kind
  e_event :: string
  e_staged_at :: micros
  e_forwarded_at :: "micros option"

record quarantine_row =
  q_key :: string
  q_payload :: string
  q_reason :: string
  q_at :: micros

record outcome_row =
  o_key :: string
  o_generation :: int
  o_outcome :: string
  o_settled_at :: micros

record fence_row =
  f_ack :: string
  f_task :: string
  f_workflow :: string
  f_key :: "string option"
  f_generation :: "int option"
  f_owner :: "string option"
  f_committed_at :: micros
  f_notified_at :: "micros option"
  f_reconciliation :: "string option"
  f_settled_at :: "micros option"

record ack_row =
  a_ack :: string
  a_acknowledgement :: string
  a_staged_at :: micros
  a_forwarded_at :: "micros option"

record pickup_db =
  dispatches :: "dispatch_row list"
  outbox :: "event_row list"
  quarantine :: "quarantine_row list"
  outcomes :: "outcome_row list"
  fences :: "fence_row list"
  acks :: "ack_row list"

definition empty_pickup_db :: pickup_db where
  "empty_pickup_db = \<lparr>dispatches = [], outbox = [], quarantine = [], outcomes = [], fences = [], acks = []\<rparr>"

text \<open>\<open>local_task_dispatches\<close>: the CHECK of one row, the primary key, and the partial unique index on
  the task identity.\<close>

definition dispatch_check :: "dispatch_row \<Rightarrow> bool" where
  "dispatch_check d \<longleftrightarrow> 0 \<le> d_generation d \<and>
     (case d_state d of
        Pending \<Rightarrow> d_owner d = None \<and> d_deadline d = None \<and> d_armed_at d = None \<and> d_rejection d = None
      | Claimed \<Rightarrow> d_owner d \<noteq> None \<and> d_deadline d \<noteq> None \<and> d_rejection d = None
      | Rejected \<Rightarrow> d_owner d = None \<and> d_deadline d = None \<and> d_armed_at d = None \<and> d_rejection d \<noteq> None)"

definition has_identity :: "dispatch_row \<Rightarrow> bool" where
  "has_identity d \<longleftrightarrow> d_task d \<noteq> None \<and> d_workflow d \<noteq> None"

text \<open>The constraints of the tables. The \<open>json_valid\<close> checks of the byte columns are left out: every text
  that is written there is one that \<open>serde_json\<close> produced, which they accept.\<close>

definition dispatches_ok :: "dispatch_row constraint" where
  "dispatches_ok t \<longleftrightarrow> distinct (map d_key t)
     \<and> distinct (map (\<lambda>d. (d_task d, d_workflow d)) (filter has_identity t))
     \<and> list_all dispatch_check t"

fun is_terminal_kind :: "event_kind \<Rightarrow> bool" where
  "is_terminal_kind Assigned = False"
| "is_terminal_kind Started = False"
| "is_terminal_kind _ = True"

text \<open>\<open>local_task_event_outbox\<close>: the primary key and the unique index of one terminal event per
  generation.\<close>

definition outbox_ok :: "event_row constraint" where
  "outbox_ok t \<longleftrightarrow> distinct (map (\<lambda>e. (e_key e, e_generation e, e_kind e)) t)
     \<and> distinct (map (\<lambda>e. (e_key e, e_generation e)) (filter (\<lambda>e. is_terminal_kind (e_kind e)) t))
     \<and> list_all (\<lambda>e. 0 < e_generation e) t"

definition quarantine_ok :: "quarantine_row constraint" where
  "quarantine_ok t \<longleftrightarrow> distinct (map q_key t)"

definition outcome_names :: "string list" where
  "outcome_names = map outcome_as_str
     [ProcessExitedSuccess, ProcessExitedFailure, ProcessSetupFailed, LivenessExpired,
      CancellationKilled, CancellationAlreadyExited, CancellationNoProcess]"

definition outcomes_ok :: "outcome_row constraint" where
  "outcomes_ok t \<longleftrightarrow> distinct (map (\<lambda>r. (o_key r, o_generation r)) t)
     \<and> list_all (\<lambda>r. 0 < o_generation r \<and> o_outcome r \<in> set outcome_names) t"

definition reconciliation_names :: "string list" where
  "reconciliation_names = map reconciliation_as_str [Killed, AlreadyExited, NoProcess]"

definition fence_check :: "fence_row \<Rightarrow> bool" where
  "fence_check f \<longleftrightarrow>
     (case f_generation f of None \<Rightarrow> True | Some g \<Rightarrow> 0 < g)
     \<and> (case f_reconciliation f of None \<Rightarrow> True | Some r \<Rightarrow> r \<in> set reconciliation_names)
     \<and> ((f_key f = None \<and> f_generation f = None \<and> f_owner f = None)
        \<or> (f_key f \<noteq> None \<and> f_generation f \<noteq> None))
     \<and> ((f_reconciliation f = None \<and> f_settled_at f = None)
        \<or> (f_reconciliation f \<noteq> None \<and> f_settled_at f \<noteq> None))"

definition fences_ok :: "fence_row constraint" where
  "fences_ok t \<longleftrightarrow> distinct (map f_ack t) \<and> distinct (map (\<lambda>f. (f_task f, f_workflow f)) t)
     \<and> list_all fence_check t"

definition acks_ok :: "ack_row constraint" where
  "acks_ok t \<longleftrightarrow> distinct (map a_ack t)"

end
