(* ===== verification/Pickup_Ops.thy ===== *)
theory Pickup_Ops
  imports Pickup_Model
begin

text \<open>
  The operations of \<^verbatim>\<open>task_pickup_repository.rs\<close>, in two layers as in the source: the SQL bodies
  (\<open>..._sqlite\<close>) over \<open>pickup_db\<close>, and the public methods of \<open>WriterRepositoryBundle\<close>, which
  validate their arguments and require the SQLite pool.
\<close>

section \<open>Validation and stored text\<close>

type_synonym 'a pickup_result = "pickup_error + 'a"

definition validate_dispatch_key :: "string \<Rightarrow> unit pickup_result" where
  "validate_dispatch_key k =
     (if k = [] \<or> MAX_DISPATCH_KEY_BYTES < length k
      then Inl (configuration_error InvalidDispatchKey) else Inr ())"

definition validate_owner :: "string \<Rightarrow> unit pickup_result" where
  "validate_owner ow =
     (if ow = [] \<or> MAX_OWNER_BYTES < length ow then Inl (configuration_error InvalidOwner) else Inr ())"

definition validate_cancellation_identity :: "string \<Rightarrow> unit pickup_result" where
  "validate_cancellation_identity i =
     (if i = [] \<or> MAX_OWNER_BYTES < length i
      then Inl (configuration_error InvalidCancellationIdentity) else Inr ())"

definition validate_optional_task_identity ::
    "string option \<Rightarrow> string option \<Rightarrow> unit pickup_result" where
  "validate_optional_task_identity task wfi =
     (case (task, wfi) of
        (None, None) \<Rightarrow> Inr ()
      | (Some t, Some w) \<Rightarrow>
          (case validate_cancellation_identity t of
             Inl e \<Rightarrow> Inl e
           | Inr _ \<Rightarrow> validate_cancellation_identity w)
      | _ \<Rightarrow> Inl (configuration_error InvalidCancellationIdentity))"

definition validate_claim_input :: "claim_task_pickup_input \<Rightarrow> unit pickup_result" where
  "validate_claim_input i =
     (case validate_dispatch_key (ci_dispatch_key i) of
        Inl e \<Rightarrow> Inl e
      | Inr _ \<Rightarrow> (case validate_owner (ci_owner i) of
          Inl e \<Rightarrow> Inl e
        | Inr _ \<Rightarrow> if ci_deadline i \<le> ci_now i then Inl (configuration_error InvalidDeadline) else Inr ()))"

definition validate_claim_identity :: "task_pickup_claim \<Rightarrow> unit pickup_result" where
  "validate_claim_identity c =
     (case validate_dispatch_key (c_dispatch_key c) of
        Inl e \<Rightarrow> Inl e
      | Inr _ \<Rightarrow> (case validate_owner (c_owner c) of
          Inl e \<Rightarrow> Inl e
        | Inr _ \<Rightarrow> if c_generation c \<le> 0 then Inl (configuration_error InvalidDeadline) else Inr ()))"

definition validate_claim :: "task_pickup_claim \<Rightarrow> datetime \<Rightarrow> datetime \<Rightarrow> unit pickup_result" where
  "validate_claim c deadline now =
     (case validate_dispatch_key (c_dispatch_key c) of
        Inl e \<Rightarrow> Inl e
      | Inr _ \<Rightarrow> (case validate_owner (c_owner c) of
          Inl e \<Rightarrow> Inl e
        | Inr _ \<Rightarrow> if c_generation c \<le> 0 \<or> deadline \<le> now
                  then Inl (configuration_error InvalidDeadline) else Inr ()))"

definition parse_terminal_outcome :: "string \<Rightarrow> terminal_outcome pickup_result" where
  "parse_terminal_outcome v =
     (if v = ''process-exited-success'' then Inr ProcessExitedSuccess
      else if v = ''process-exited-failure'' then Inr ProcessExitedFailure
      else if v = ''process-setup-failed'' then Inr ProcessSetupFailed
      else if v = ''liveness-expired'' then Inr LivenessExpired
      else if v = ''cancellation-killed'' then Inr CancellationKilled
      else if v = ''cancellation-already-exited'' then Inr CancellationAlreadyExited
      else if v = ''cancellation-no-process'' then Inr CancellationNoProcess
      else Inl (corrupt_value (CorruptStoredValue v)))"

definition parse_cancellation_reconciliation :: "string \<Rightarrow> cancellation_reconciliation pickup_result" where
  "parse_cancellation_reconciliation v =
     (if v = ''killed'' then Inr Killed
      else if v = ''already-exited'' then Inr AlreadyExited
      else if v = ''no-process'' then Inr NoProcess
      else Inl (corrupt_value (CorruptStoredValue v)))"

definition decode_bytes :: "'n externals \<Rightarrow> string \<Rightarrow> bytes pickup_result" where
  "decode_bytes X s =
     (case bytes_of_json_text X s of
        Inl m \<Rightarrow> Inl (corrupt_value (CorruptStoredValue m))
      | Inr bs \<Rightarrow> Inr bs)"

text \<open>\<open>decode_timestamp(m).map_err(corrupt_value)\<close>.\<close>

definition decode_instant :: "'n externals \<Rightarrow> micros \<Rightarrow> datetime pickup_result" where
  "decode_instant X m =
     (case decode_timestamp X m of Inl _ \<Rightarrow> Inl (corrupt_value (TimestampError m)) | Inr t \<Rightarrow> Inr t)"

text \<open>\<open>opt.map(f).transpose()\<close>.\<close>

definition transpose_map :: "('a \<Rightarrow> 'e + 'b) \<Rightarrow> 'a option \<Rightarrow> 'e + 'b option" where
  "transpose_map f x =
     (case x of None \<Rightarrow> Inr None | Some a \<Rightarrow> (case f a of Inl e \<Rightarrow> Inl e | Inr b \<Rightarrow> Inr (Some b)))"

section \<open>Shared SQL conditions\<close>

text \<open>\<open>EXISTS (SELECT 1 FROM local_task_terminal_outcomes ...)\<close> and the \<open>Assigned\<close> record.\<close>

definition settled_exists :: "pickup_db \<Rightarrow> string \<Rightarrow> int \<Rightarrow> bool" where
  "settled_exists db k g = list_ex (\<lambda>r. o_key r = k \<and> o_generation r = g) (outcomes db)"

definition assigned_exists :: "pickup_db \<Rightarrow> string \<Rightarrow> int \<Rightarrow> bool" where
  "assigned_exists db k g =
     list_ex (\<lambda>e. e_key e = k \<and> e_generation e = g \<and> e_kind e = Assigned) (outbox db)"

text \<open>The fence condition of the \<open>NOT EXISTS\<close> subqueries, for generation \<open>g\<close> of the dispatch.\<close>

definition fence_blocks :: "dispatch_row \<Rightarrow> int \<Rightarrow> fence_row \<Rightarrow> bool" where
  "fence_blocks d g f \<longleftrightarrow>
     (sql_eq (f_key f) (Some (d_key d)) \<and> sql_eq (f_generation f) (Some g))
     \<or> (f_key f = None \<and> sql_eq (Some (f_task f)) (d_task d) \<and> sql_eq (Some (f_workflow f)) (d_workflow d))"

definition fenced :: "pickup_db \<Rightarrow> dispatch_row \<Rightarrow> int \<Rightarrow> bool" where
  "fenced db d g = list_ex (fence_blocks d g) (fences db)"

text \<open>\<open>WHERE dispatch_key = ?1 AND state = 'claimed' AND pickup_generation = ?2 AND owner = ?3\<close>.\<close>

definition claim_matches :: "task_pickup_claim \<Rightarrow> dispatch_row \<Rightarrow> bool" where
  "claim_matches c d \<longleftrightarrow> d_key d = c_dispatch_key c \<and> d_state d = Claimed
     \<and> d_generation d = c_generation c \<and> sql_eq (d_owner d) (Some (c_owner c))"

fun kind_rank :: "event_kind \<Rightarrow> nat" where
  "kind_rank Assigned = 0"
| "kind_rank Started = 1"
| "kind_rank _ = 2"

section \<open>SQL bodies\<close>

definition stage_task_dispatch_sqlite ::
    "'n externals \<Rightarrow> string \<Rightarrow> bytes \<Rightarrow> string option \<Rightarrow> string option \<Rightarrow> datetime \<Rightarrow> pickup_db
     \<Rightarrow> (pickup_error, bool, pickup_db) outcome" where
  "stage_task_dispatch_sqlite X key payload task wfi now db =
     (let enc = encode_bytes X payload;
          m = encode_timestamp now;
          row = \<lparr>d_key = key, d_payload = enc, d_state = Pending, d_generation = 0, d_owner = None,
                 d_deadline = None, d_armed_at = None, d_rejection = None, d_created_at = m,
                 d_updated_at = m, d_task = task, d_workflow = wfi\<rparr>;
          ds = insert_or_ignore dispatches_ok row (dispatches db)
      in if length ds = length (dispatches db) + 1
         then (case (task, wfi) of
                 (Some t, Some w) \<Rightarrow>
                   (case sql_update fences_ok
                           (\<lambda>f. f_key f = None \<and> f_task f = t \<and> f_workflow f = w)
                           (\<lambda>f. f\<lparr>f_key := Some key, f_generation := Some 1\<rparr>) (fences db) of
                      None \<Rightarrow> (Inl sqlx_constraint_error, db)
                    | Some fs \<Rightarrow> (Inr True, db\<lparr>dispatches := ds, fences := fs\<rparr>))
               | _ \<Rightarrow> (Inr True, db\<lparr>dispatches := ds\<rparr>))
         else if map_option d_payload (find (\<lambda>d. d_key d = key) (dispatches db)) \<noteq> Some enc
         then (Inl (ConstraintConflict, DispatchIdentityCollision key), db)
         else (Inr False, db))"

definition select_pending_task_dispatch_sqlite ::
    "'n externals \<Rightarrow> pickup_db \<Rightarrow> pending_task_dispatch option pickup_result" where
  "select_pending_task_dispatch_sqlite X db =
     transpose_map
       (\<lambda>d. case decode_bytes X (d_payload d) of
              Inl e \<Rightarrow> Inl e
            | Inr p \<Rightarrow> Inr \<lparr>pd_dispatch_key = d_key d, pd_payload = p\<rparr>)
       (select_first (\<lambda>d. d_state d = Pending \<and> \<not> fenced db d (d_generation d + 1))
          (\<lambda>d. (d_created_at d, d_key d)) (dispatches db))"

definition reject_task_dispatch_sqlite ::
    "string \<Rightarrow> string \<Rightarrow> datetime \<Rightarrow> pickup_db \<Rightarrow> (pickup_error, bool, pickup_db) outcome" where
  "reject_task_dispatch_sqlite key reason now db =
     (case find (\<lambda>d. d_key d = key \<and> d_state d = Pending) (dispatches db) of
        None \<Rightarrow> (Inr False, db)
      | Some d \<Rightarrow>
          (let m = encode_timestamp now in
           case sql_insert quarantine_ok
                  \<lparr>q_key = key, q_payload = d_payload d, q_reason = reason, q_at = m\<rparr> (quarantine db) of
             None \<Rightarrow> (Inl sqlx_constraint_error, db)
           | Some qs \<Rightarrow>
               (case sql_update dispatches_ok (\<lambda>d. d_key d = key \<and> d_state d = Pending)
                       (\<lambda>d. d\<lparr>d_state := Rejected, d_rejection := Some reason, d_updated_at := m\<rparr>)
                       (dispatches db) of
                  None \<Rightarrow> (Inl sqlx_constraint_error, db)
                | Some ds \<Rightarrow> (Inr True, db\<lparr>quarantine := qs, dispatches := ds\<rparr>))))"

text \<open>\<open>INSERT INTO local_task_event_outbox\<close>, with the foreign key to the dispatch.\<close>

definition insert_event :: "event_row \<Rightarrow> pickup_db \<Rightarrow> pickup_db option" where
  "insert_event e db =
     (if list_ex (\<lambda>d. d_key d = e_key e) (dispatches db)
      then map_option (\<lambda>es. db\<lparr>outbox := es\<rparr>) (sql_insert outbox_ok e (outbox db))
      else None)"

definition claim_task_pickup_sqlite ::
    "'n externals \<Rightarrow> claim_task_pickup_input \<Rightarrow> pickup_db
     \<Rightarrow> (pickup_error, claim_task_pickup_outcome, pickup_db) outcome" where
  "claim_task_pickup_sqlite X i db =
     (case find (\<lambda>d. d_key d = ci_dispatch_key i \<and> d_state d = Pending) (dispatches db) of
        None \<Rightarrow> (Inr NotPending, db)
      | Some d0 \<Rightarrow>
          (case checked_add_i64 (d_generation d0) 1 of
             None \<Rightarrow> (Inl (InternalError, GenerationOverflow (ci_dispatch_key i)), db)
           | Some g \<Rightarrow>
               (let P = (\<lambda>d. d_key d = ci_dispatch_key i \<and> d_state d = Pending
                             \<and> d_generation d = d_generation d0 \<and> \<not> fenced db d g);
                    m = encode_timestamp (ci_now i)
                in case sql_update dispatches_ok P
                          (\<lambda>d. d\<lparr>d_state := Claimed, d_generation := g, d_owner := Some (ci_owner i),
                                 d_deadline := Some (encode_timestamp (ci_deadline i)),
                                 d_updated_at := m\<rparr>) (dispatches db) of
                     None \<Rightarrow> (Inl sqlx_constraint_error, db)
                   | Some ds \<Rightarrow>
                       if rows_affected P (dispatches db) \<noteq> 1
                       then (Inr NotPending, db\<lparr>dispatches := ds\<rparr>)
                       else (case insert_event
                                    \<lparr>e_key = ci_dispatch_key i, e_generation = g, e_kind = Assigned,
                                     e_event = encode_bytes X (ci_assigned_event i), e_staged_at = m,
                                     e_forwarded_at = None\<rparr> (db\<lparr>dispatches := ds\<rparr>) of
                               None \<Rightarrow> (Inl sqlx_constraint_error, db)
                             | Some db' \<Rightarrow>
                                 (Inr (Committed \<lparr>c_dispatch_key = ci_dispatch_key i, c_generation = g,
                                                 c_owner = ci_owner i, c_deadline = ci_deadline i\<rparr>), db')))))"

definition prove_ambiguous_task_pickup_sqlite ::
    "'n externals \<Rightarrow> string \<Rightarrow> string \<Rightarrow> bytes \<Rightarrow> pickup_db \<Rightarrow> task_pickup_claim option pickup_result" where
  "prove_ambiguous_task_pickup_sqlite X key ow assigned db =
     transpose_map
       (\<lambda>d. case decode_instant X (the (d_deadline d)) of
              Inl e \<Rightarrow> Inl e
            | Inr t \<Rightarrow> Inr \<lparr>c_dispatch_key = key, c_generation = d_generation d, c_owner = ow, c_deadline = t\<rparr>)
       (find (\<lambda>d. d_key d = key \<and> d_state d = Claimed \<and> sql_eq (d_owner d) (Some ow)
                  \<and> list_ex (\<lambda>e. e_key e = d_key d \<and> e_generation e = d_generation d
                                \<and> e_kind e = Assigned \<and> e_event e = encode_bytes X assigned) (outbox db))
          (dispatches db))"

definition arm_task_pickup_liveness_sqlite ::
    "task_pickup_claim \<Rightarrow> datetime \<Rightarrow> datetime \<Rightarrow> pickup_db \<Rightarrow> (pickup_error, bool, pickup_db) outcome" where
  "arm_task_pickup_liveness_sqlite c deadline now db =
     (let P = (\<lambda>d. claim_matches c d \<and> \<not> settled_exists db (d_key d) (d_generation d)
                   \<and> assigned_exists db (d_key d) (d_generation d));
          m = encode_timestamp now
      in case sql_update dispatches_ok P
                (\<lambda>d. d\<lparr>d_deadline := Some (encode_timestamp deadline), d_armed_at := Some m, d_updated_at := m\<rparr>)
                (dispatches db) of
           None \<Rightarrow> (Inl sqlx_constraint_error, db)
         | Some ds \<Rightarrow> (Inr (rows_affected P (dispatches db) = 1), db\<lparr>dispatches := ds\<rparr>))"

definition prove_task_pickup_ready_sqlite :: "'n externals \<Rightarrow> task_pickup_claim \<Rightarrow> bytes \<Rightarrow> pickup_db \<Rightarrow> bool" where
  "prove_task_pickup_ready_sqlite X c assigned db =
     (length [(d, e). d \<leftarrow> dispatches db, e \<leftarrow> outbox db,
                e_key e = d_key d \<and> e_generation e = d_generation d \<and> e_kind e = Assigned
                \<and> claim_matches c d \<and> d_armed_at d \<noteq> None \<and> e_event e = encode_bytes X assigned
                \<and> \<not> settled_exists db (d_key d) (d_generation d)
                \<and> \<not> fenced db d (d_generation d)] = 1)"

definition stage_task_started_sqlite ::
    "'n externals \<Rightarrow> task_pickup_claim \<Rightarrow> bytes \<Rightarrow> datetime \<Rightarrow> pickup_db
     \<Rightarrow> (pickup_error, bool, pickup_db) outcome" where
  "stage_task_started_sqlite X c started now db =
     (let rows = map (\<lambda>d. \<lparr>e_key = d_key d, e_generation = d_generation d, e_kind = Started,
                           e_event = encode_bytes X started, e_staged_at = encode_timestamp now,
                           e_forwarded_at = None\<rparr>)
                   (filter (\<lambda>d. claim_matches c d \<and> d_armed_at d \<noteq> None
                                \<and> \<not> settled_exists db (d_key d) (d_generation d)) (dispatches db));
          es = insert_select outbox_ok rows (outbox db)
      in (Inr (length es = length (outbox db) + 1), db\<lparr>outbox := es\<rparr>))"

definition renew_task_pickup_liveness_sqlite ::
    "task_pickup_claim \<Rightarrow> datetime \<Rightarrow> datetime \<Rightarrow> pickup_db \<Rightarrow> (pickup_error, bool, pickup_db) outcome" where
  "renew_task_pickup_liveness_sqlite c deadline now db =
     (let P = (\<lambda>d. claim_matches c d \<and> d_armed_at d \<noteq> None
                   \<and> \<not> settled_exists db (d_key d) (d_generation d))
      in case sql_update dispatches_ok P
                (\<lambda>d. d\<lparr>d_deadline := Some (encode_timestamp deadline), d_updated_at := encode_timestamp now\<rparr>)
                (dispatches db) of
           None \<Rightarrow> (Inl sqlx_constraint_error, db)
         | Some ds \<Rightarrow> (Inr (rows_affected P (dispatches db) = 1), db\<lparr>dispatches := ds\<rparr>))"

definition register_liveness_failure_sqlite ::
    "task_pickup_claim \<Rightarrow> datetime \<Rightarrow> pickup_db \<Rightarrow> (pickup_error, bool, pickup_db) outcome" where
  "register_liveness_failure_sqlite c now db =
     (let P = (\<lambda>d. claim_matches c d \<and> d_armed_at d \<noteq> None
                   \<and> \<not> settled_exists db (d_key d) (d_generation d));
          m = encode_timestamp now
      in case sql_update dispatches_ok P (\<lambda>d. d\<lparr>d_deadline := Some m, d_updated_at := m\<rparr>) (dispatches db) of
           None \<Rightarrow> (Inl sqlx_constraint_error, db)
         | Some ds \<Rightarrow> (Inr (rows_affected P (dispatches db) = 1), db\<lparr>dispatches := ds\<rparr>))"

definition select_due_task_pickup_sqlite ::
    "'n externals \<Rightarrow> datetime \<Rightarrow> pickup_db \<Rightarrow> due_task_pickup option pickup_result" where
  "select_due_task_pickup_sqlite X now db =
     transpose_map
       (\<lambda>d. case decode_instant X (the (d_deadline d)) of
              Inl e \<Rightarrow> Inl e
            | Inr t \<Rightarrow> (case decode_bytes X (d_payload d) of
                Inl e \<Rightarrow> Inl e
              | Inr p \<Rightarrow> Inr \<lparr>due_claim = \<lparr>c_dispatch_key = d_key d, c_generation = d_generation d,
                                         c_owner = the (d_owner d), c_deadline = t\<rparr>,
                             due_payload = p\<rparr>))
       (select_first
          (\<lambda>d. d_state d = Claimed
               \<and> (case d_deadline d of None \<Rightarrow> False | Some x \<Rightarrow> x \<le> encode_timestamp now)
               \<and> \<not> settled_exists db (d_key d) (d_generation d))
          (\<lambda>d. (d_deadline d, d_key d)) (dispatches db))"

definition elect_task_pickup_terminal_sqlite ::
    "'n externals \<Rightarrow> task_pickup_claim \<Rightarrow> terminal_outcome \<Rightarrow> bytes \<Rightarrow> datetime \<Rightarrow> pickup_db
     \<Rightarrow> (pickup_error, terminal_election, pickup_db) outcome" where
  "elect_task_pickup_terminal_sqlite X c outc terminal_event now db =
     (case outcome_event_kind outc of
        None \<Rightarrow> (Inl (configuration_error (CorruptStoredValue
                     ''cancellation outcome requires the cancellation settlement path'')), db)
      | Some kind \<Rightarrow>
          (let m = encode_timestamp now;
               rows = map (\<lambda>d. \<lparr>o_key = d_key d, o_generation = d_generation d,
                                o_outcome = outcome_as_str outc, o_settled_at = m\<rparr>)
                        (filter (claim_matches c) (dispatches db));
               os = insert_select outcomes_ok rows (outcomes db)
           in if length os = length (outcomes db) + 1
              then (case insert_event
                           \<lparr>e_key = c_dispatch_key c, e_generation = c_generation c, e_kind = kind,
                            e_event = encode_bytes X terminal_event, e_staged_at = m,
                            e_forwarded_at = None\<rparr> (db\<lparr>outcomes := os\<rparr>) of
                      None \<Rightarrow> (Inl sqlx_constraint_error, db)
                    | Some db' \<Rightarrow> (Inr Won, db'))
              else (case find (\<lambda>r. o_key r = c_dispatch_key c \<and> o_generation r = c_generation c) os of
                      None \<Rightarrow> (Inr NotClaimed, db\<lparr>outcomes := os\<rparr>)
                    | Some r \<Rightarrow> (map_sum id Settled (parse_terminal_outcome (o_outcome r)),
                                db\<lparr>outcomes := os\<rparr>))))"

definition select_pending_task_event_sqlite ::
    "'n externals \<Rightarrow> pickup_db \<Rightarrow> pending_task_event option pickup_result" where
  "select_pending_task_event_sqlite X db =
     transpose_map
       (\<lambda>e. case decode_bytes X (e_event e) of
              Inl er \<Rightarrow> Inl er
            | Inr bs \<Rightarrow> Inr \<lparr>pe_dispatch_key = e_key e, pe_generation = e_generation e,
                             pe_kind = e_kind e, pe_event = bs\<rparr>)
       (select_first (\<lambda>e. e_forwarded_at e = None)
          (\<lambda>e. (e_staged_at e, e_key e, e_generation e, kind_rank (e_kind e))) (outbox db))"

definition mark_task_event_forwarded_sqlite ::
    "'n externals \<Rightarrow> pending_task_event \<Rightarrow> datetime \<Rightarrow> pickup_db \<Rightarrow> (pickup_error, bool, pickup_db) outcome" where
  "mark_task_event_forwarded_sqlite X pe now db =
     (let P = (\<lambda>e. e_key e = pe_dispatch_key pe \<and> e_generation e = pe_generation pe
                   \<and> e_kind e = pe_kind pe \<and> e_event e = encode_bytes X (pe_event pe)
                   \<and> e_forwarded_at e = None)
      in case sql_update outbox_ok P (\<lambda>e. e\<lparr>e_forwarded_at := Some (encode_timestamp now)\<rparr>) (outbox db) of
           None \<Rightarrow> (Inl sqlx_constraint_error, db)
         | Some es \<Rightarrow> (Inr (rows_affected P (outbox db) = 1), db\<lparr>outbox := es\<rparr>))"

text \<open>The statement of \<open>load_task_cancellation_fence_sqlite\<close> with the predicate its caller passes.\<close>

definition load_task_cancellation_fence_sqlite ::
    "'n externals \<Rightarrow> (fence_row \<Rightarrow> bool) \<Rightarrow> pickup_db \<Rightarrow> cancellation_fence option pickup_result" where
  "load_task_cancellation_fence_sqlite X P db =
     transpose_map
       (\<lambda>f. let deadline = Option.bind (f_key f)
                   (\<lambda>k. Option.bind (find (\<lambda>d. d_key d = k) (dispatches db)) d_deadline);
                terminal = map_option o_outcome
                   (find (\<lambda>r. sql_eq (Some (o_key r)) (f_key f)
                              \<and> sql_eq (Some (o_generation r)) (f_generation f)) (outcomes db))
            in case transpose_map (decode_instant X) deadline of
                 Inl e \<Rightarrow> Inl e
               | Inr dl \<Rightarrow>
                   (case transpose_map parse_terminal_outcome terminal of
                      Inl e \<Rightarrow> Inl e
                    | Inr tm \<Rightarrow> Inr \<lparr>cf_ack = f_ack f, cf_task = f_task f, cf_workflow = f_workflow f,
                                      cf_dispatch_key = f_key f, cf_generation = f_generation f,
                                      cf_owner = f_owner f, cf_owner_notified = (f_notified_at f \<noteq> None),
                                      cf_deadline = dl, cf_terminal = tm\<rparr>))
       (select_first P (\<lambda>f. (f_committed_at f, f_ack f)) (fences db))"

definition commit_task_cancellation_fence_sqlite ::
    "'n externals \<Rightarrow> string \<Rightarrow> string \<Rightarrow> string \<Rightarrow> datetime \<Rightarrow> pickup_db
     \<Rightarrow> (pickup_error, cancellation_fence, pickup_db) outcome" where
  "commit_task_cancellation_fence_sqlite X ack task wfi now db =
     (let pickup = find (\<lambda>d. sql_eq (d_task d) (Some task) \<and> sql_eq (d_workflow d) (Some wfi)) (dispatches db);
          target = (case pickup of
                      None \<Rightarrow> Some (None, None, None)
                    | Some d \<Rightarrow>
                        if d_state d = Pending
                        then map_option (\<lambda>g. (Some (d_key d), Some g, None)) (checked_add_i64 (d_generation d) 1)
                        else Some (Some (d_key d), Some (d_generation d), d_owner d))
      in case target of
           None \<Rightarrow> (Inl (InternalError, GenerationOverflow task), db)
         | Some (k, g, ow) \<Rightarrow>
             (let fs = insert_or_ignore fences_ok
                         \<lparr>f_ack = ack, f_task = task, f_workflow = wfi, f_key = k, f_generation = g,
                          f_owner = ow, f_committed_at = encode_timestamp now, f_notified_at = None,
                          f_reconciliation = None, f_settled_at = None\<rparr> (fences db);
                  db' = db\<lparr>fences := fs\<rparr>
              in case load_task_cancellation_fence_sqlite X (\<lambda>f. f_ack f = ack) db' of
                   Inl e \<Rightarrow> (Inl e, db')
                 | Inr None \<Rightarrow> (Inl (corrupt_value (CorruptStoredValue
                                   ''committed cancellation fence could not be reloaded'')), db')
                 | Inr (Some f) \<Rightarrow> (Inr f, db')))"

definition mark_task_cancellation_owner_notified_sqlite ::
    "cancellation_fence \<Rightarrow> datetime \<Rightarrow> pickup_db \<Rightarrow> (pickup_error, bool, pickup_db) outcome" where
  "mark_task_cancellation_owner_notified_sqlite cf now db =
     (let P = (\<lambda>f. f_ack f = cf_ack cf \<and> f_owner f \<noteq> None \<and> f_settled_at f = None)
      in case sql_update fences_ok P
                (\<lambda>f. f\<lparr>f_notified_at := coalesce (f_notified_at f) (encode_timestamp now)\<rparr>) (fences db) of
           None \<Rightarrow> (Inl sqlx_constraint_error, db)
         | Some fs \<Rightarrow> (Inr (rows_affected P (fences db) = 1), db\<lparr>fences := fs\<rparr>))"

text \<open>The rows \<open>settle_task_cancellation\<close> selects for the terminal outcome: the fence joined with its
  dispatch, when that is still claimed by the fenced owner or still waiting to be claimed.\<close>

definition settlement_rows :: "string \<Rightarrow> cancellation_reconciliation \<Rightarrow> micros \<Rightarrow> pickup_db \<Rightarrow> outcome_row list" where
  "settlement_rows ack rec m db =
     [\<lparr>o_key = d_key d, o_generation = the (f_generation f),
       o_outcome = outcome_as_str (reconciliation_terminal_outcome rec), o_settled_at = m\<rparr>.
       f \<leftarrow> fences db, d \<leftarrow> dispatches db,
       f_ack f = ack \<and> sql_eq (f_key f) (Some (d_key d))
       \<and> ((d_state d = Claimed \<and> sql_eq (f_generation f) (Some (d_generation d)) \<and> sql_eq (d_owner d) (f_owner f))
          \<or> (d_state d = Pending \<and> sql_eq (f_generation f) (Some (d_generation d + 1)) \<and> f_owner f = None))]"

definition settle_task_cancellation_sqlite ::
    "'n externals \<Rightarrow> cancellation_fence \<Rightarrow> cancellation_reconciliation \<Rightarrow> bytes \<Rightarrow> datetime \<Rightarrow> pickup_db
     \<Rightarrow> (pickup_error, terminal_election option, pickup_db) outcome" where
  "settle_task_cancellation_sqlite X cf rec acknowledgement now db =
     (let m = encode_timestamp now;
          os = (case (cf_dispatch_key cf, cf_generation cf) of
                  (Some k, Some g) \<Rightarrow> insert_select outcomes_ok (settlement_rows (cf_ack cf) rec m db) (outcomes db)
                | _ \<Rightarrow> outcomes db);
          inserted_terminal = (case (cf_dispatch_key cf, cf_generation cf) of
                  (Some k, Some g) \<Rightarrow> length os = length (outcomes db) + 1 \<and> k \<noteq> [] \<and> 0 < g
                | _ \<Rightarrow> False);
          settled = (case (cf_dispatch_key cf, cf_generation cf) of
                  (Some k, Some g) \<Rightarrow> transpose_map parse_terminal_outcome
                      (map_option o_outcome (find (\<lambda>r. o_key r = k \<and> o_generation r = g) os))
                | _ \<Rightarrow> Inr None)
      in case settled of
           Inl e \<Rightarrow> (Inl e, db)
         | Inr settled_outcome \<Rightarrow>
             (case sql_update fences_ok (\<lambda>f. f_ack f = cf_ack cf)
                     (\<lambda>f. f\<lparr>f_reconciliation := coalesce (f_reconciliation f) (reconciliation_as_str rec),
                            f_settled_at := coalesce (f_settled_at f) m\<rparr>) (fences db) of
                None \<Rightarrow> (Inl sqlx_constraint_error, db)
              | Some fs \<Rightarrow>
                  (let as = insert_or_ignore acks_ok
                              \<lparr>a_ack = cf_ack cf, a_acknowledgement = encode_bytes X acknowledgement,
                               a_staged_at = m, a_forwarded_at = None\<rparr> (acks db)
                   in if length as \<noteq> length (acks db) \<and> \<not> list_ex (\<lambda>f. f_ack f = cf_ack cf) fs
                      then (Inl sqlx_constraint_error, db)
                      else (Inr (map_option (\<lambda>t. if inserted_terminal then Won else Settled t) settled_outcome),
                            db\<lparr>outcomes := os, fences := fs, acks := as\<rparr>))))"

definition select_unresolved_task_cancellation_sqlite ::
    "'n externals \<Rightarrow> pickup_db \<Rightarrow> cancellation_fence option pickup_result" where
  "select_unresolved_task_cancellation_sqlite X db =
     load_task_cancellation_fence_sqlite X (\<lambda>f. f_settled_at f = None) db"

definition select_pending_task_cancellation_ack_sqlite ::
    "'n externals \<Rightarrow> pickup_db \<Rightarrow> pending_cancellation_ack option pickup_result" where
  "select_pending_task_cancellation_ack_sqlite X db =
     transpose_map
       (\<lambda>a. case decode_bytes X (a_acknowledgement a) of
              Inl e \<Rightarrow> Inl e
            | Inr bs \<Rightarrow> Inr \<lparr>pa_ack = a_ack a, pa_acknowledgement = bs\<rparr>)
       (select_first (\<lambda>a. a_forwarded_at a = None) (\<lambda>a. (a_staged_at a, a_ack a)) (acks db))"

definition mark_task_cancellation_ack_forwarded_sqlite ::
    "'n externals \<Rightarrow> pending_cancellation_ack \<Rightarrow> datetime \<Rightarrow> pickup_db
     \<Rightarrow> (pickup_error, bool, pickup_db) outcome" where
  "mark_task_cancellation_ack_forwarded_sqlite X pa now db =
     (let P = (\<lambda>a. a_ack a = pa_ack pa \<and> a_acknowledgement a = encode_bytes X (pa_acknowledgement pa)
                   \<and> a_forwarded_at a = None)
      in case sql_update acks_ok P (\<lambda>a. a\<lparr>a_forwarded_at := Some (encode_timestamp now)\<rparr>) (acks db) of
           None \<Rightarrow> (Inl sqlx_constraint_error, db)
         | Some as \<Rightarrow> (Inr (rows_affected P (acks db) = 1), db\<lparr>acks := as\<rparr>))"

text \<open>Reading a NULL \<open>reconciliation\<close> as a \<open>String\<close> is an error of kind \<open>CorruptStored\<close>, whether
  the driver refuses it or hands over the empty text.\<close>

definition fence_reconciliation_sqlite ::
    "string \<Rightarrow> pickup_db \<Rightarrow> cancellation_reconciliation option pickup_result" where
  "fence_reconciliation_sqlite key db =
     (case find (\<lambda>f. sql_eq (f_key f) (Some key)) (fences db) of
        None \<Rightarrow> Inr None
      | Some f \<Rightarrow> (case f_reconciliation f of
          None \<Rightarrow> Inl (corrupt_value (CorruptStoredValue []))
        | Some r \<Rightarrow> map_sum id Some (parse_cancellation_reconciliation r)))"

definition task_pickup_snapshot_sqlite ::
    "'n externals \<Rightarrow> string \<Rightarrow> pickup_db \<Rightarrow> pickup_snapshot option pickup_result" where
  "task_pickup_snapshot_sqlite X key db =
     (case find (\<lambda>d. d_key d = key) (dispatches db) of
        None \<Rightarrow> Inr None
      | Some d \<Rightarrow>
          (let kinds = (\<lambda>P. map e_kind (sort_key (\<lambda>e. (e_generation e, kind_rank (e_kind e)))
                                (filter (\<lambda>e. e_key e = key \<and> P e) (outbox db))));
               terminal = map_option o_outcome
                 (find (\<lambda>r. o_key r = key \<and> o_generation r = d_generation d) (outcomes db));
               ack_count = length [(a, f). a \<leftarrow> acks db, f \<leftarrow> fences db,
                             f_ack f = a_ack a \<and> sql_eq (f_key f) (Some key) \<and> a_forwarded_at a \<noteq> None]
           in case load_task_cancellation_fence_sqlite X (\<lambda>f. sql_eq (f_key f) (Some key)) db of
                Inl e \<Rightarrow> Inl e
              | Inr cf \<Rightarrow>
              (case transpose_map (decode_instant X) (d_deadline d) of
                Inl e \<Rightarrow> Inl e
              | Inr deadline \<Rightarrow>
              (case transpose_map (decode_instant X) (d_armed_at d) of
                Inl e \<Rightarrow> Inl e
              | Inr armed_at \<Rightarrow>
              (case transpose_map parse_terminal_outcome terminal of
                Inl e \<Rightarrow> Inl e
              | Inr tm \<Rightarrow>
              (case fence_reconciliation_sqlite key db of
                Inl e \<Rightarrow> Inl e
              | Inr rec \<Rightarrow>
                  Inr (Some \<lparr>s_state = d_state d, s_generation = d_generation d, s_owner = d_owner d,
                        s_deadline = deadline, s_armed_at = armed_at, s_rejection = d_rejection d,
                        s_staged_kinds = kinds (\<lambda>_. True),
                        s_quarantined = (length (filter (\<lambda>q. q_key q = key) (quarantine db)) = 1),
                        s_terminal = tm, s_forwarded_kinds = kinds (\<lambda>e. e_forwarded_at e \<noteq> None),
                        s_fence = cf, s_reconciliation = rec, s_ack_forwarded = (ack_count = 1)\<rparr>)))))))"

text \<open>The rows become streams in the order of the task identity; the first unreadable row fails the
  call.\<close>

fun log_stream_rows :: "'n externals \<Rightarrow> dispatch_row list \<Rightarrow> local_task_log_stream list pickup_result" where
  "log_stream_rows X [] = Inr []"
| "log_stream_rows X (d # ds) =
     (case parse_uuid X (the (d_task d)) of
        None \<Rightarrow> Inl (corrupt_value (CorruptStoredValue
                  (''local task dispatch has invalid task instance id `'' @ the (d_task d) @ ''`'')))
      | Some u \<Rightarrow>
          (if d_generation d < 0
           then Inl (corrupt_value (CorruptStoredValue
                  (''local task dispatch has invalid pickup generation `'' @ int_text (d_generation d) @ ''`'')))
           else (case log_stream_rows X ds of
                   Inl e \<Rightarrow> Inl e
                 | Inr ls \<Rightarrow> Inr (\<lparr>ls_task = u, ls_generation = nat (d_generation d)\<rparr> # ls))))"

definition local_task_log_streams_sqlite ::
    "'n externals \<Rightarrow> uuid option \<Rightarrow> pickup_db \<Rightarrow> local_task_log_stream list pickup_result" where
  "local_task_log_streams_sqlite X wfi db =
     log_stream_rows X
       (sort_key d_task
          (filter (\<lambda>d. (case wfi of None \<Rightarrow> True | Some u \<Rightarrow> sql_eq (d_workflow d) (Some (uuid_text X u)))
                       \<and> d_task d \<noteq> None \<and> 0 < d_generation d) (dispatches db)))"

definition local_task_log_streams_for_workflow_instance_sqlite ::
    "'n externals \<Rightarrow> uuid \<Rightarrow> pickup_db \<Rightarrow> local_task_log_stream list pickup_result" where
  "local_task_log_streams_for_workflow_instance_sqlite X wfi db =
     log_stream_rows X
       (sort_key d_task
          (filter (\<lambda>d. sql_eq (d_workflow d) (Some (uuid_text X wfi))
                       \<and> d_task d \<noteq> None \<and> 0 < d_generation d) (dispatches db)))"

section \<open>The methods of WriterRepositoryBundle\<close>

type_synonym pickup_pool = "pickup_db backend_pool"

abbreviation requires_sqlite :: pickup_error where
  "requires_sqlite \<equiv> configuration_error RequiresSqlite"

definition stage_task_dispatch ::
    "'n externals \<Rightarrow> string \<Rightarrow> bytes \<Rightarrow> string option \<Rightarrow> string option \<Rightarrow> datetime \<Rightarrow> pickup_pool
     \<Rightarrow> (pickup_error, bool, pickup_pool) outcome" where
  "stage_task_dispatch X key payload task wfi now pool =
     (case validate_dispatch_key key of
        Inl e \<Rightarrow> (Inl e, pool)
      | Inr _ \<Rightarrow> (case validate_optional_task_identity task wfi of
          Inl e \<Rightarrow> (Inl e, pool)
        | Inr _ \<Rightarrow> on_sqlite requires_sqlite (stage_task_dispatch_sqlite X key payload task wfi now) pool))"

definition select_pending_task_dispatch ::
    "'n externals \<Rightarrow> pickup_pool \<Rightarrow> pending_task_dispatch option pickup_result" where
  "select_pending_task_dispatch X pool = read_sqlite requires_sqlite (select_pending_task_dispatch_sqlite X) pool"

definition reject_task_dispatch ::
    "string \<Rightarrow> string \<Rightarrow> datetime \<Rightarrow> pickup_pool \<Rightarrow> (pickup_error, bool, pickup_pool) outcome" where
  "reject_task_dispatch key reason now pool =
     (case validate_dispatch_key key of
        Inl e \<Rightarrow> (Inl e, pool)
      | Inr _ \<Rightarrow> on_sqlite requires_sqlite (reject_task_dispatch_sqlite key reason now) pool)"

definition claim_task_pickup ::
    "'n externals \<Rightarrow> claim_task_pickup_input \<Rightarrow> pickup_pool
     \<Rightarrow> (pickup_error, claim_task_pickup_outcome, pickup_pool) outcome" where
  "claim_task_pickup X i pool =
     (case validate_claim_input i of
        Inl e \<Rightarrow> (Inl e, pool)
      | Inr _ \<Rightarrow> on_sqlite requires_sqlite (claim_task_pickup_sqlite X i) pool)"

definition prove_ambiguous_task_pickup ::
    "'n externals \<Rightarrow> string \<Rightarrow> string \<Rightarrow> bytes \<Rightarrow> pickup_pool \<Rightarrow> task_pickup_claim option pickup_result" where
  "prove_ambiguous_task_pickup X key ow assigned pool =
     (case validate_dispatch_key key of
        Inl e \<Rightarrow> Inl e
      | Inr _ \<Rightarrow> (case validate_owner ow of
          Inl e \<Rightarrow> Inl e
        | Inr _ \<Rightarrow> read_sqlite requires_sqlite (prove_ambiguous_task_pickup_sqlite X key ow assigned) pool))"

definition arm_task_pickup_liveness ::
    "task_pickup_claim \<Rightarrow> datetime \<Rightarrow> datetime \<Rightarrow> pickup_pool \<Rightarrow> (pickup_error, bool, pickup_pool) outcome" where
  "arm_task_pickup_liveness c deadline now pool =
     (case validate_claim c deadline now of
        Inl e \<Rightarrow> (Inl e, pool)
      | Inr _ \<Rightarrow> on_sqlite requires_sqlite (arm_task_pickup_liveness_sqlite c deadline now) pool)"

definition prove_task_pickup_ready ::
    "'n externals \<Rightarrow> task_pickup_claim \<Rightarrow> bytes \<Rightarrow> pickup_pool \<Rightarrow> bool pickup_result" where
  "prove_task_pickup_ready X c assigned pool =
     read_sqlite requires_sqlite (\<lambda>db. Inr (prove_task_pickup_ready_sqlite X c assigned db)) pool"

definition stage_task_started ::
    "'n externals \<Rightarrow> task_pickup_claim \<Rightarrow> bytes \<Rightarrow> datetime \<Rightarrow> pickup_pool
     \<Rightarrow> (pickup_error, bool, pickup_pool) outcome" where
  "stage_task_started X c started now pool =
     on_sqlite requires_sqlite (stage_task_started_sqlite X c started now) pool"

definition renew_task_pickup_liveness ::
    "task_pickup_claim \<Rightarrow> datetime \<Rightarrow> datetime \<Rightarrow> pickup_pool \<Rightarrow> (pickup_error, bool, pickup_pool) outcome" where
  "renew_task_pickup_liveness c deadline now pool =
     (case validate_claim c deadline now of
        Inl e \<Rightarrow> (Inl e, pool)
      | Inr _ \<Rightarrow> on_sqlite requires_sqlite (renew_task_pickup_liveness_sqlite c deadline now) pool)"

definition register_task_pickup_liveness_failure ::
    "task_pickup_claim \<Rightarrow> datetime \<Rightarrow> pickup_pool \<Rightarrow> (pickup_error, bool, pickup_pool) outcome" where
  "register_task_pickup_liveness_failure c now pool =
     (case validate_claim_identity c of
        Inl e \<Rightarrow> (Inl e, pool)
      | Inr _ \<Rightarrow> on_sqlite requires_sqlite (register_liveness_failure_sqlite c now) pool)"

definition select_due_task_pickup ::
    "'n externals \<Rightarrow> datetime \<Rightarrow> pickup_pool \<Rightarrow> due_task_pickup option pickup_result" where
  "select_due_task_pickup X now pool = read_sqlite requires_sqlite (select_due_task_pickup_sqlite X now) pool"

definition elect_task_pickup_terminal ::
    "'n externals \<Rightarrow> task_pickup_claim \<Rightarrow> terminal_outcome \<Rightarrow> bytes \<Rightarrow> datetime \<Rightarrow> pickup_pool
     \<Rightarrow> (pickup_error, terminal_election, pickup_pool) outcome" where
  "elect_task_pickup_terminal X c outc terminal_event now pool =
     (case validate_claim_identity c of
        Inl e \<Rightarrow> (Inl e, pool)
      | Inr _ \<Rightarrow> on_sqlite requires_sqlite (elect_task_pickup_terminal_sqlite X c outc terminal_event now) pool)"

definition select_pending_task_event ::
    "'n externals \<Rightarrow> pickup_pool \<Rightarrow> pending_task_event option pickup_result" where
  "select_pending_task_event X pool = read_sqlite requires_sqlite (select_pending_task_event_sqlite X) pool"

definition mark_task_event_forwarded ::
    "'n externals \<Rightarrow> pending_task_event \<Rightarrow> datetime \<Rightarrow> pickup_pool \<Rightarrow> (pickup_error, bool, pickup_pool) outcome" where
  "mark_task_event_forwarded X pe now pool =
     on_sqlite requires_sqlite (mark_task_event_forwarded_sqlite X pe now) pool"

definition commit_task_cancellation_fence ::
    "'n externals \<Rightarrow> string \<Rightarrow> string \<Rightarrow> string \<Rightarrow> datetime \<Rightarrow> pickup_pool
     \<Rightarrow> (pickup_error, cancellation_fence, pickup_pool) outcome" where
  "commit_task_cancellation_fence X ack task wfi now pool =
     (case validate_cancellation_identity ack of
        Inl e \<Rightarrow> (Inl e, pool)
      | Inr _ \<Rightarrow> (case validate_cancellation_identity task of
          Inl e \<Rightarrow> (Inl e, pool)
        | Inr _ \<Rightarrow> (case validate_cancellation_identity wfi of
            Inl e \<Rightarrow> (Inl e, pool)
          | Inr _ \<Rightarrow> on_sqlite requires_sqlite (commit_task_cancellation_fence_sqlite X ack task wfi now) pool)))"

definition mark_task_cancellation_owner_notified ::
    "cancellation_fence \<Rightarrow> datetime \<Rightarrow> pickup_pool \<Rightarrow> (pickup_error, bool, pickup_pool) outcome" where
  "mark_task_cancellation_owner_notified cf now pool =
     on_sqlite requires_sqlite (mark_task_cancellation_owner_notified_sqlite cf now) pool"

definition settle_task_cancellation ::
    "'n externals \<Rightarrow> cancellation_fence \<Rightarrow> cancellation_reconciliation \<Rightarrow> bytes \<Rightarrow> datetime \<Rightarrow> pickup_pool
     \<Rightarrow> (pickup_error, terminal_election option, pickup_pool) outcome" where
  "settle_task_cancellation X cf rec acknowledgement now pool =
     on_sqlite requires_sqlite (settle_task_cancellation_sqlite X cf rec acknowledgement now) pool"

definition select_unresolved_task_cancellation ::
    "'n externals \<Rightarrow> pickup_pool \<Rightarrow> cancellation_fence option pickup_result" where
  "select_unresolved_task_cancellation X pool =
     read_sqlite requires_sqlite (select_unresolved_task_cancellation_sqlite X) pool"

definition select_pending_task_cancellation_ack ::
    "'n externals \<Rightarrow> pickup_pool \<Rightarrow> pending_cancellation_ack option pickup_result" where
  "select_pending_task_cancellation_ack X pool =
     read_sqlite requires_sqlite (select_pending_task_cancellation_ack_sqlite X) pool"

definition mark_task_cancellation_ack_forwarded ::
    "'n externals \<Rightarrow> pending_cancellation_ack \<Rightarrow> datetime \<Rightarrow> pickup_pool
     \<Rightarrow> (pickup_error, bool, pickup_pool) outcome" where
  "mark_task_cancellation_ack_forwarded X pa now pool =
     on_sqlite requires_sqlite (mark_task_cancellation_ack_forwarded_sqlite X pa now) pool"

definition task_pickup_snapshot ::
    "'n externals \<Rightarrow> string \<Rightarrow> pickup_pool \<Rightarrow> pickup_snapshot option pickup_result" where
  "task_pickup_snapshot X key pool = read_sqlite requires_sqlite (task_pickup_snapshot_sqlite X key) pool"

definition local_task_log_streams_for_workflow_instance ::
    "'n externals \<Rightarrow> uuid \<Rightarrow> pickup_pool \<Rightarrow> local_task_log_stream list pickup_result" where
  "local_task_log_streams_for_workflow_instance X wfi pool =
     read_sqlite requires_sqlite (local_task_log_streams_for_workflow_instance_sqlite X wfi) pool"

definition all_local_task_log_streams ::
    "'n externals \<Rightarrow> pickup_pool \<Rightarrow> local_task_log_stream list pickup_result" where
  "all_local_task_log_streams X pool = read_sqlite requires_sqlite (local_task_log_streams_sqlite X None) pool"

section \<open>Sequences of operations\<close>

text \<open>Every method that changes the store. The SQLite pool has one connection, so the methods of all
  callers are executed one after the other, in any order.\<close>

datatype pickup_op =
    StageDispatch string bytes "string option" "string option" datetime
  | RejectDispatch string string datetime
  | Claim claim_task_pickup_input
  | ArmLiveness task_pickup_claim datetime datetime
  | StageStarted task_pickup_claim bytes datetime
  | RenewLiveness task_pickup_claim datetime datetime
  | RegisterLivenessFailure task_pickup_claim datetime
  | ElectTerminal task_pickup_claim terminal_outcome bytes datetime
  | MarkEventForwarded pending_task_event datetime
  | CommitFence string string string datetime
  | MarkOwnerNotified cancellation_fence datetime
  | SettleCancellation cancellation_fence cancellation_reconciliation bytes datetime
  | MarkAckForwarded pending_cancellation_ack datetime

fun exec_pickup :: "'n externals \<Rightarrow> pickup_op \<Rightarrow> pickup_pool \<Rightarrow> pickup_pool" where
  "exec_pickup X (StageDispatch k p t w n) s = snd (stage_task_dispatch X k p t w n s)"
| "exec_pickup X (RejectDispatch k r n) s = snd (reject_task_dispatch k r n s)"
| "exec_pickup X (Claim i) s = snd (claim_task_pickup X i s)"
| "exec_pickup X (ArmLiveness c dl n) s = snd (arm_task_pickup_liveness c dl n s)"
| "exec_pickup X (StageStarted c e n) s = snd (stage_task_started X c e n s)"
| "exec_pickup X (RenewLiveness c dl n) s = snd (renew_task_pickup_liveness c dl n s)"
| "exec_pickup X (RegisterLivenessFailure c n) s = snd (register_task_pickup_liveness_failure c n s)"
| "exec_pickup X (ElectTerminal c r e n) s = snd (elect_task_pickup_terminal X c r e n s)"
| "exec_pickup X (MarkEventForwarded pe n) s = snd (mark_task_event_forwarded X pe n s)"
| "exec_pickup X (CommitFence a t w n) s = snd (commit_task_cancellation_fence X a t w n s)"
| "exec_pickup X (MarkOwnerNotified f n) s = snd (mark_task_cancellation_owner_notified f n s)"
| "exec_pickup X (SettleCancellation f r a n) s = snd (settle_task_cancellation X f r a n s)"
| "exec_pickup X (MarkAckForwarded pa n) s = snd (mark_task_cancellation_ack_forwarded X pa n s)"

definition run_pickup :: "'n externals \<Rightarrow> pickup_op list \<Rightarrow> pickup_pool \<Rightarrow> pickup_pool" where
  "run_pickup X ops s = fold (exec_pickup X) ops s"

end
