(* ===== verification/Pickup_Invariant.thy ===== *)
theory Pickup_Invariant
  imports Pickup_Ops
begin

text \<open>
  The invariant of the pickup store and the order in which it grows. \<open>pickup_db_inv\<close> adds to the
  declared table constraints what the tables say about each other; \<open>pickup_db_le\<close> says what no
  operation ever takes back. Both are proved for every operation, and interpret the locales
  \<open>op_system\<close> and \<open>op_monotone\<close> of the prelude.
\<close>

section \<open>Invariant\<close>

text \<open>No operation releases a claim: a dispatch is claimed at most once, in generation 1.\<close>

definition generations_inv :: "dispatch_row list \<Rightarrow> bool" where
  "generations_inv ds \<longleftrightarrow> (\<forall>d \<in> set ds. d_generation d = (if d_state d = Claimed then 1 else 0))"

text \<open>Events belong to a claimed generation, \<open>Started\<close> only after the liveness was armed; a claim always
  has its \<open>Assigned\<close> event.\<close>

definition events_inv :: "dispatch_row list \<Rightarrow> event_row list \<Rightarrow> bool" where
  "events_inv ds es \<longleftrightarrow>
     (\<forall>e \<in> set es. \<exists>d \<in> set ds. d_key d = e_key e \<and> d_state d = Claimed
        \<and> d_generation d = e_generation e \<and> (e_kind e = Started \<longrightarrow> d_armed_at d \<noteq> None))
     \<and> (\<forall>d \<in> set ds. d_state d = Claimed \<longrightarrow>
          (\<exists>e \<in> set es. e_key e = d_key d \<and> e_generation e = d_generation d \<and> e_kind e = Assigned))"

text \<open>A terminal event is staged exactly when the outcome it announces is recorded.\<close>

definition terminals_inv :: "event_row list \<Rightarrow> outcome_row list \<Rightarrow> bool" where
  "terminals_inv es os \<longleftrightarrow>
     (\<forall>e \<in> set es. is_terminal_kind (e_kind e) \<longrightarrow>
        (\<exists>r \<in> set os. o_key r = e_key e \<and> o_generation r = e_generation e
           \<and> (\<exists>t. o_outcome r = outcome_as_str t \<and> outcome_event_kind t = Some (e_kind e))))
     \<and> (\<forall>r \<in> set os. \<forall>t k. o_outcome r = outcome_as_str t \<longrightarrow> outcome_event_kind t = Some k \<longrightarrow>
          (\<exists>e \<in> set es. e_key e = o_key r \<and> e_generation e = o_generation r \<and> e_kind e = k))"

definition outcomes_inv :: "dispatch_row list \<Rightarrow> fence_row list \<Rightarrow> outcome_row list \<Rightarrow> bool" where
  "outcomes_inv ds fs os \<longleftrightarrow>
     (\<forall>r \<in> set os. o_generation r = 1 \<and> (\<exists>d \<in> set ds. d_key d = o_key r
        \<and> (d_state d = Claimed \<or> (\<exists>f \<in> set fs. f_key f = Some (o_key r) \<and> f_settled_at f \<noteq> None))))"

definition quarantine_inv :: "dispatch_row list \<Rightarrow> quarantine_row list \<Rightarrow> bool" where
  "quarantine_inv ds qs \<longleftrightarrow>
     (\<forall>q \<in> set qs. \<exists>d \<in> set ds. d_key d = q_key q \<and> d_state d = Rejected
        \<and> d_payload d = q_payload q \<and> d_rejection d = Some (q_reason q))
     \<and> (\<forall>d \<in> set ds. d_state d = Rejected \<longrightarrow> (\<exists>q \<in> set qs. q_key q = d_key d))"

text \<open>A fence is bound to the dispatch of its task as soon as there is one, in the only generation that
  dispatch can have, and to its owner.\<close>

definition fence_bound :: "dispatch_row list \<Rightarrow> fence_row \<Rightarrow> bool" where
  "fence_bound ds f \<longleftrightarrow>
     (case f_key f of
        None \<Rightarrow> (\<forall>d \<in> set ds. \<not> (d_task d = Some (f_task f) \<and> d_workflow d = Some (f_workflow f)))
      | Some k \<Rightarrow> f_generation f = Some 1
          \<and> (\<exists>d \<in> set ds. d_key d = k \<and> d_task d = Some (f_task f) \<and> d_workflow d = Some (f_workflow f)
                          \<and> f_owner f = d_owner d))"

definition acks_inv :: "fence_row list \<Rightarrow> ack_row list \<Rightarrow> bool" where
  "acks_inv fs as \<longleftrightarrow>
     (\<forall>a \<in> set as. \<exists>f \<in> set fs. f_ack f = a_ack a \<and> f_settled_at f \<noteq> None)
     \<and> (\<forall>f \<in> set fs. f_settled_at f \<noteq> None \<longrightarrow> (\<exists>a \<in> set as. a_ack a = f_ack f))"

definition pickup_db_inv :: "pickup_db \<Rightarrow> bool" where
  "pickup_db_inv db \<longleftrightarrow>
     dispatches_ok (dispatches db) \<and> outbox_ok (outbox db) \<and> quarantine_ok (quarantine db)
     \<and> outcomes_ok (outcomes db) \<and> fences_ok (fences db) \<and> acks_ok (acks db)
     \<and> generations_inv (dispatches db) \<and> events_inv (dispatches db) (outbox db)
     \<and> terminals_inv (outbox db) (outcomes db) \<and> outcomes_inv (dispatches db) (fences db) (outcomes db)
     \<and> quarantine_inv (dispatches db) (quarantine db)
     \<and> list_all (fence_bound (dispatches db)) (fences db) \<and> acks_inv (fences db) (acks db)"

definition pickup_inv :: "pickup_pool \<Rightarrow> bool" where
  "pickup_inv pool = (case pool of PostgresPool \<Rightarrow> True | SqlitePool db \<Rightarrow> pickup_db_inv db)"

section \<open>Order\<close>

definition dispatch_le :: "dispatch_row \<Rightarrow> dispatch_row \<Rightarrow> bool" where
  "dispatch_le d d' \<longleftrightarrow>
     d_key d' = d_key d \<and> d_payload d' = d_payload d \<and> d_created_at d' = d_created_at d
     \<and> d_task d' = d_task d \<and> d_workflow d' = d_workflow d
     \<and> (d_state d = Claimed \<longrightarrow> d_state d' = Claimed \<and> d_generation d' = d_generation d \<and> d_owner d' = d_owner d)
     \<and> (d_state d = Rejected \<longrightarrow> d_state d' = Rejected \<and> d_rejection d' = d_rejection d)
     \<and> (d_armed_at d \<noteq> None \<longrightarrow> d_armed_at d' \<noteq> None)"

definition event_le :: "event_row \<Rightarrow> event_row \<Rightarrow> bool" where
  "event_le e e' \<longleftrightarrow>
     e_key e' = e_key e \<and> e_generation e' = e_generation e \<and> e_kind e' = e_kind e
     \<and> e_event e' = e_event e \<and> e_staged_at e' = e_staged_at e
     \<and> (e_forwarded_at e \<noteq> None \<longrightarrow> e_forwarded_at e' = e_forwarded_at e)"

definition fence_le :: "fence_row \<Rightarrow> fence_row \<Rightarrow> bool" where
  "fence_le f f' \<longleftrightarrow>
     f_ack f' = f_ack f \<and> f_task f' = f_task f \<and> f_workflow f' = f_workflow f
     \<and> f_committed_at f' = f_committed_at f \<and> f_owner f' = f_owner f
     \<and> (f_key f \<noteq> None \<longrightarrow> f_key f' = f_key f \<and> f_generation f' = f_generation f)
     \<and> (f_notified_at f \<noteq> None \<longrightarrow> f_notified_at f' = f_notified_at f)
     \<and> (f_reconciliation f \<noteq> None \<longrightarrow> f_reconciliation f' = f_reconciliation f)
     \<and> (f_settled_at f \<noteq> None \<longrightarrow> f_settled_at f' = f_settled_at f)"

definition ack_le :: "ack_row \<Rightarrow> ack_row \<Rightarrow> bool" where
  "ack_le a a' \<longleftrightarrow>
     a_ack a' = a_ack a \<and> a_acknowledgement a' = a_acknowledgement a \<and> a_staged_at a' = a_staged_at a
     \<and> (a_forwarded_at a \<noteq> None \<longrightarrow> a_forwarded_at a' = a_forwarded_at a)"

definition pickup_db_le :: "pickup_db \<Rightarrow> pickup_db \<Rightarrow> bool" where
  "pickup_db_le db db' \<longleftrightarrow>
     rows_le dispatch_le (dispatches db) (dispatches db') \<and> rows_le event_le (outbox db) (outbox db')
     \<and> rows_le fence_le (fences db) (fences db') \<and> rows_le ack_le (acks db) (acks db')
     \<and> set (quarantine db) \<subseteq> set (quarantine db') \<and> set (outcomes db) \<subseteq> set (outcomes db')"

definition pickup_le :: "pickup_pool \<Rightarrow> pickup_pool \<Rightarrow> bool" where
  "pickup_le s t = (case s of
      PostgresPool \<Rightarrow> t = PostgresPool
    | SqlitePool db \<Rightarrow> (case t of PostgresPool \<Rightarrow> False | SqlitePool db' \<Rightarrow> pickup_db_le db db'))"

lemma row_le_refl [simp, intro!]: "dispatch_le d d" "event_le e e" "fence_le f f" "ack_le a a"
  by (simp_all add: dispatch_le_def event_le_def fence_le_def ack_le_def)

lemma dispatch_le_trans: "dispatch_le a b \<Longrightarrow> dispatch_le b c \<Longrightarrow> dispatch_le a c"
  by (simp add: dispatch_le_def)

lemma event_le_trans: "event_le a b \<Longrightarrow> event_le b c \<Longrightarrow> event_le a c"
  by (simp add: event_le_def)

lemma fence_le_trans: "fence_le a b \<Longrightarrow> fence_le b c \<Longrightarrow> fence_le a c"
  by (simp add: fence_le_def)

lemma ack_le_trans: "ack_le a b \<Longrightarrow> ack_le b c \<Longrightarrow> ack_le a c"
  by (simp add: ack_le_def)

lemma pickup_db_le_refl [simp, intro]: "pickup_db_le db db"
  by (simp add: pickup_db_le_def)

lemma pickup_db_le_trans: "pickup_db_le a b \<Longrightarrow> pickup_db_le b c \<Longrightarrow> pickup_db_le a c"
  unfolding pickup_db_le_def
  by (blast intro: rows_le_trans dispatch_le_trans event_le_trans fence_le_trans ack_le_trans)

lemma pickup_le_refl: "pickup_le s s"
  by (simp add: pickup_le_def split: backend_pool.split)

lemma pickup_le_trans: "pickup_le s t \<Longrightarrow> pickup_le t u \<Longrightarrow> pickup_le s u"
  unfolding pickup_le_def
  by (cases s; cases t; cases u) (simp, simp, simp, simp, simp, simp, simp, simp, blast intro: pickup_db_le_trans)

section \<open>Keys\<close>

lemma dispatches_okD:
  assumes "dispatches_ok ds"
  shows "distinct (map d_key ds)" "\<And>d. d \<in> set ds \<Longrightarrow> dispatch_check d"
  using assms by (auto simp: dispatches_ok_def list_all_iff)

lemma dispatch_key_unique:
  "dispatches_ok ds \<Longrightarrow> d \<in> set ds \<Longrightarrow> d' \<in> set ds \<Longrightarrow> d_key d = d_key d' \<Longrightarrow> d = d'"
  by (meson dispatches_okD(1) distinct_map_inj)

lemma dispatch_identity_unique:
  assumes "dispatches_ok ds" "d \<in> set ds" "d' \<in> set ds"
    and "d_task d = Some t" "d_workflow d = Some w" "d_task d' = Some t" "d_workflow d' = Some w"
  shows "d = d'"
  using assms distinct_map_inj [of "\<lambda>d. (d_task d, d_workflow d)" "filter has_identity ds" d d']
  by (simp add: dispatches_ok_def has_identity_def)

lemma fence_ack_unique:
  "fences_ok fs \<Longrightarrow> f \<in> set fs \<Longrightarrow> f' \<in> set fs \<Longrightarrow> f_ack f = f_ack f' \<Longrightarrow> f = f'"
  by (meson fences_ok_def distinct_map_inj)

lemma outcome_key_unique:
  "outcomes_ok os \<Longrightarrow> r \<in> set os \<Longrightarrow> r' \<in> set os \<Longrightarrow> o_key r = o_key r' \<Longrightarrow>
   o_generation r = o_generation r' \<Longrightarrow> r = r'"
  using distinct_map_inj [of "\<lambda>r. (o_key r, o_generation r)" os r r'] by (simp add: outcomes_ok_def)

lemma dispatches_ok_update:
  assumes "dispatches_ok ds"
    and "\<And>d. d \<in> set ds \<Longrightarrow> P d \<Longrightarrow> d_key (f d) = d_key d \<and> d_task (f d) = d_task d \<and> d_workflow (f d) = d_workflow d"
    and "\<And>d. d \<in> set ds \<Longrightarrow> P d \<Longrightarrow> dispatch_check d \<Longrightarrow> dispatch_check (f d)"
  shows "dispatches_ok (update_where P f ds)"
  using assms
  by (auto simp: dispatches_ok_def map_update_where map_filter_update_where has_identity_def list_all_iff table_simps)

lemma fences_ok_update:
  assumes "fences_ok fs"
    and "\<And>f. f \<in> set fs \<Longrightarrow> P f \<Longrightarrow> f_ack (g f) = f_ack f \<and> f_task (g f) = f_task f \<and> f_workflow (g f) = f_workflow f"
    and "\<And>f. f \<in> set fs \<Longrightarrow> P f \<Longrightarrow> fence_check f \<Longrightarrow> fence_check (g f)"
  shows "fences_ok (update_where P g fs)"
  using assms by (auto simp: fences_ok_def map_update_where list_all_iff table_simps)

lemma outbox_ok_update:
  assumes "outbox_ok es"
    and "\<And>e. e \<in> set es \<Longrightarrow> P e \<Longrightarrow> e_key (f e) = e_key e \<and> e_generation (f e) = e_generation e \<and> e_kind (f e) = e_kind e"
  shows "outbox_ok (update_where P f es)"
  using assms by (auto simp: outbox_ok_def map_update_where map_filter_update_where list_all_iff table_simps)

lemma acks_ok_update:
  "acks_ok as \<Longrightarrow> (\<And>a. a \<in> set as \<Longrightarrow> P a \<Longrightarrow> a_ack (f a) = a_ack a) \<Longrightarrow> acks_ok (update_where P f as)"
  by (simp add: acks_ok_def map_update_where)

end
