(* ===== verification/Pickup_Steps.thy ===== *)
theory Pickup_Steps
  imports Pickup_Invariant
begin

text \<open>
  Every operation of the pickup store keeps \<open>pickup_db_inv\<close> and grows the store. The operations
  change the tables in a few ways (a row is staged, a claimed row is touched, an event, an outcome
  or a fence is added, ...); each way has one lemma, and the operations are instances of them.
\<close>

text \<open>What an operation owes: the invariant and the order.\<close>

definition good_step :: "pickup_db \<Rightarrow> pickup_db \<Rightarrow> bool" where
  "good_step db db' \<longleftrightarrow> pickup_db_inv db' \<and> pickup_db_le db db'"

lemma good_step_refl [simp]: "pickup_db_inv db \<Longrightarrow> good_step db db"
  by (simp add: good_step_def)

lemmas inv_defs = pickup_db_inv_def generations_inv_def events_inv_def terminals_inv_def outcomes_inv_def
  quarantine_inv_def fence_bound_def acks_inv_def

section \<open>Claimed rows that are touched\<close>

definition touches :: "(dispatch_row \<Rightarrow> dispatch_row) \<Rightarrow> dispatch_row \<Rightarrow> bool" where
  "touches f d \<longleftrightarrow> d_key (f d) = d_key d \<and> d_payload (f d) = d_payload d \<and> d_state (f d) = d_state d
     \<and> d_generation (f d) = d_generation d \<and> d_owner (f d) = d_owner d \<and> d_rejection (f d) = d_rejection d
     \<and> d_created_at (f d) = d_created_at d \<and> d_task (f d) = d_task d \<and> d_workflow (f d) = d_workflow d
     \<and> (d_armed_at d \<noteq> None \<longrightarrow> d_armed_at (f d) \<noteq> None) \<and> (dispatch_check d \<longrightarrow> dispatch_check (f d))"

lemma touch_ok: "dispatches_ok ds \<Longrightarrow> (\<And>d. P d \<Longrightarrow> touches f d) \<Longrightarrow> dispatches_ok (update_where P f ds)"
  by (rule dispatches_ok_update) (auto simp: touches_def)

lemma touch_generations:
  "generations_inv ds \<Longrightarrow> (\<And>d. P d \<Longrightarrow> touches f d) \<Longrightarrow> generations_inv (update_where P f ds)"
  unfolding generations_inv_def by (erule update_where_ballI) (simp add: touches_def)

lemma touch_events:
  "events_inv ds es \<Longrightarrow> (\<And>d. P d \<Longrightarrow> touches f d) \<Longrightarrow> events_inv (update_where P f ds) es"
  unfolding events_inv_def
  by (elim conjE, rule conjI, (rule ballI, drule (1) bspec, erule update_where_bexI, simp add: touches_def),
      (erule update_where_ballI, simp add: touches_def))

lemma touch_outcomes:
  "outcomes_inv ds fs os \<Longrightarrow> (\<And>d. P d \<Longrightarrow> touches f d) \<Longrightarrow> outcomes_inv (update_where P f ds) fs os"
  unfolding outcomes_inv_def
  by (intro ballI conjI; (drule (1) bspec)?; (elim conjE update_where_bexI)?) (simp_all add: touches_def)

lemma touch_quarantine:
  "quarantine_inv ds qs \<Longrightarrow> (\<And>d. P d \<Longrightarrow> touches f d) \<Longrightarrow> quarantine_inv (update_where P f ds) qs"
  unfolding quarantine_inv_def
  by (elim conjE, rule conjI, (rule ballI, drule (1) bspec, erule update_where_bexI, simp add: touches_def),
      (erule update_where_ballI, simp add: touches_def))

lemma touch_bound:
  "fence_bound ds fe \<Longrightarrow> (\<And>d. P d \<Longrightarrow> touches f d) \<Longrightarrow> fence_bound (update_where P f ds) fe"
  unfolding fence_bound_def
  by (cases "f_key fe"; simp; (elim conjE)?; (erule update_where_ballI update_where_bexI)?)
     (simp_all add: touches_def)

lemma touch_le: "(\<And>d. P d \<Longrightarrow> touches f d) \<Longrightarrow> rows_le dispatch_le ds (update_where P f ds)"
  by (rule rows_le_update_where) (auto simp: touches_def dispatch_le_def)

lemma touch_good:
  assumes "pickup_db_inv db" and "\<And>d. P d \<Longrightarrow> touches f d"
  shows "good_step db (db\<lparr>dispatches := update_where P f (dispatches db)\<rparr>)"
  using assms
  by (auto simp: good_step_def pickup_db_inv_def pickup_db_le_def list_all_iff
      intro: touch_ok touch_generations touch_events touch_outcomes touch_quarantine touch_bound touch_le)

lemma touch_update:
  assumes "pickup_db_inv db" and "\<And>d. P d \<Longrightarrow> touches f d"
  shows "sql_update dispatches_ok P f (dispatches db) = Some (update_where P f (dispatches db))"
  using assms by (simp add: sql_update_Some touch_ok pickup_db_inv_def)

lemma touch_step:
  assumes "pickup_db_inv db" and "\<And>d. P d \<Longrightarrow> touches f d"
  shows "good_step db (snd (case sql_update dispatches_ok P f (dispatches db) of
           None \<Rightarrow> (e, db) | Some ds \<Rightarrow> (v, db\<lparr>dispatches := ds\<rparr>)))"
  using touch_good [of db P f] touch_update [of db P f] assms by simp

lemma arm_good:
  "pickup_db_inv db \<Longrightarrow> good_step db (snd (arm_task_pickup_liveness_sqlite c deadline now db))"
  unfolding arm_task_pickup_liveness_sqlite_def Let_def
  by (erule touch_step) (simp add: touches_def dispatch_check_def claim_matches_def)

lemma renew_good:
  "pickup_db_inv db \<Longrightarrow> good_step db (snd (renew_task_pickup_liveness_sqlite c deadline now db))"
  unfolding renew_task_pickup_liveness_sqlite_def Let_def
  by (erule touch_step) (simp add: touches_def dispatch_check_def claim_matches_def)

lemma register_good:
  "pickup_db_inv db \<Longrightarrow> good_step db (snd (register_liveness_failure_sqlite c now db))"
  unfolding register_liveness_failure_sqlite_def Let_def
  by (erule touch_step) (simp add: touches_def dispatch_check_def claim_matches_def)

section \<open>Staging, rejection and claims\<close>

lemma bind_fences_bound:
  assumes "list_all (fence_bound ds) fs" and "d_key row = key" "d_task row = Some t" "d_workflow row = Some w"
    and "d_owner row = None" "fences_ok fs"
  shows "list_all (fence_bound (ds @ [row]))
           (update_where (\<lambda>f. f_key f = None \<and> f_task f = t \<and> f_workflow f = w)
              (\<lambda>f. f\<lparr>f_key := Some key, f_generation := Some 1\<rparr>) fs)"
  unfolding list_all_iff table_simps
proof
  fix f assume f: "f \<in> set fs"
  with assms have "fence_bound ds f" "fence_check f" by (auto simp: list_all_iff fences_ok_def)
  with assms(2-5) show "fence_bound (ds @ [row]) (if f_key f = None \<and> f_task f = t \<and> f_workflow f = w
      then f\<lparr>f_key := Some key, f_generation := Some 1\<rparr> else f)"
    by (auto simp: fence_bound_def fence_check_def split: option.splits)
qed

text \<open>A new pending row, with the fences of its task bound to it.\<close>

lemma stage_row_good:
  assumes inv: "pickup_db_inv db" and ok: "dispatches_ok (dispatches db @ [row])"
    and row: "d_state row = Pending" "d_generation row = 0"
    and fs: "fences_ok fs" "list_all (fence_bound (dispatches db @ [row])) fs"
    and le: "rows_le fence_le (fences db) fs" and acks: "acks_inv fs (acks db)"
  shows "good_step db (db\<lparr>dispatches := dispatches db @ [row], fences := fs\<rparr>)"
proof -
  have "outcomes_inv (dispatches db @ [row]) fs (outcomes db)"
    using inv le unfolding pickup_db_inv_def outcomes_inv_def rows_le_def fence_le_def
    by (metis (no_types, lifting) UnCI option.distinct(1) set_append)
  moreover have "quarantine_inv (dispatches db @ [row]) (quarantine db)"
    "events_inv (dispatches db @ [row]) (outbox db)"
    using inv row unfolding pickup_db_inv_def quarantine_inv_def events_inv_def by auto
  ultimately show ?thesis
    using assms
    by (auto simp: good_step_def pickup_db_inv_def pickup_db_le_def generations_inv_def intro!: rows_le_superset)
qed

lemma acks_inv_update:
  "acks_inv fs as \<Longrightarrow>
   (\<And>f. P f \<Longrightarrow> f_ack (g f) = f_ack f \<and> (f_settled_at (g f) = None \<longleftrightarrow> f_settled_at f = None)) \<Longrightarrow>
   acks_inv (update_where P g fs) as"
  unfolding acks_inv_def
  by (elim conjE, intro conjI, (rule ballI, drule (1) bspec, erule update_where_bexI, simp),
      (erule update_where_ballI, simp))

lemma fence_bound_snoc:
  "fence_bound ds f \<Longrightarrow> \<not> (d_task row = Some (f_task f) \<and> d_workflow row = Some (f_workflow f)) \<Longrightarrow>
   fence_bound (ds @ [row]) f"
  by (auto simp: fence_bound_def split: option.splits)

lemma bind_fences_update:
  assumes "fences_ok fs"
  shows "sql_update fences_ok (\<lambda>f. f_key f = None \<and> f_task f = t \<and> f_workflow f = w)
           (\<lambda>f. f\<lparr>f_key := Some key, f_generation := Some 1\<rparr>) fs
         = Some (update_where (\<lambda>f. f_key f = None \<and> f_task f = t \<and> f_workflow f = w)
             (\<lambda>f. f\<lparr>f_key := Some key, f_generation := Some 1\<rparr>) fs)"
  unfolding sql_update_Some by (rule conjI [OF refl fences_ok_update [OF assms]]) (auto simp: fence_check_def)

lemma stage_good:
  assumes inv: "pickup_db_inv db"
  shows "good_step db (snd (stage_task_dispatch_sqlite X key payload task wfi now db))"
proof -
  define row where "row = \<lparr>d_key = key, d_payload = encode_bytes X payload, d_state = Pending, d_generation = 0,
    d_owner = None, d_deadline = None, d_armed_at = None, d_rejection = None, d_created_at = encode_timestamp now,
    d_updated_at = encode_timestamp now, d_task = task, d_workflow = wfi\<rparr>"
  have row: "d_state row = Pending" "d_generation row = 0" by (simp_all add: row_def)
  note parts = inv [unfolded pickup_db_inv_def]
  have bound: "list_all (fence_bound (dispatches db @ [row]))
      (update_where (\<lambda>f. f_key f = None \<and> f_task f = t \<and> f_workflow f = w)
         (\<lambda>f. f\<lparr>f_key := Some key, f_generation := Some 1\<rparr>) (fences db))"
    if "task = Some t" "wfi = Some w" for t w
    using parts that by (intro bind_fences_bound) (simp_all add: row_def)
  have free: "list_all (fence_bound (dispatches db @ [row])) (fences db)" if "task = None \<or> wfi = None"
    using parts that by (auto simp: list_all_iff row_def intro!: fence_bound_snoc)
  show ?thesis
  proof (cases "dispatches_ok (dispatches db @ [row])")
    case False
    then show ?thesis
      using inv by (auto simp: stage_task_dispatch_sqlite_def Let_def row_def)
  next
    case ok: True
    show ?thesis
    proof (cases "task = None \<or> wfi = None")
      case True
      with ok stage_row_good [OF inv ok row _ free [OF True]] parts show ?thesis
        by (auto simp: stage_task_dispatch_sqlite_def Let_def row_def insert_or_ignore_simps split: option.splits)
    next
      case False
      then obtain t w where tw: "task = Some t" "wfi = Some w" by auto
      have "good_step db (db\<lparr>dispatches := dispatches db @ [row], fences :=
              update_where (\<lambda>f. f_key f = None \<and> f_task f = t \<and> f_workflow f = w)
                (\<lambda>f. f\<lparr>f_key := Some key, f_generation := Some 1\<rparr>) (fences db)\<rparr>)"
        using parts
        by (intro stage_row_good [OF inv ok row]) (auto simp: bound [OF tw] fence_check_def fence_le_def
            intro!: fences_ok_update rows_le_update_where acks_inv_update)
      with ok tw parts show ?thesis
        by (simp add: stage_task_dispatch_sqlite_def Let_def row_def insert_or_ignore_simps bind_fences_update)
    qed
  qed
qed

text \<open>A pending row is rejected and quarantined.\<close>

definition rejects :: "string \<Rightarrow> (dispatch_row \<Rightarrow> dispatch_row) \<Rightarrow> dispatch_row \<Rightarrow> bool" where
  "rejects reason f d \<longleftrightarrow> d_state d = Pending \<and> d_key (f d) = d_key d \<and> d_payload (f d) = d_payload d
     \<and> d_state (f d) = Rejected \<and> d_generation (f d) = d_generation d \<and> d_owner (f d) = d_owner d
     \<and> d_deadline (f d) = d_deadline d \<and> d_armed_at (f d) = d_armed_at d \<and> d_rejection (f d) = Some reason
     \<and> d_created_at (f d) = d_created_at d \<and> d_task (f d) = d_task d \<and> d_workflow (f d) = d_workflow d"

lemma reject_ok: "dispatches_ok ds \<Longrightarrow> (\<And>d. P d \<Longrightarrow> rejects reason f d) \<Longrightarrow> dispatches_ok (update_where P f ds)"
  by (rule dispatches_ok_update) (auto simp: rejects_def dispatch_check_def)

lemma reject_generations:
  "generations_inv ds \<Longrightarrow> (\<And>d. P d \<Longrightarrow> rejects reason f d) \<Longrightarrow> generations_inv (update_where P f ds)"
  unfolding generations_inv_def by (erule update_where_ballI) (simp add: rejects_def)

lemma reject_events:
  "events_inv ds es \<Longrightarrow> (\<And>d. P d \<Longrightarrow> rejects reason f d) \<Longrightarrow> events_inv (update_where P f ds) es"
  unfolding events_inv_def
  by (elim conjE, rule conjI,
      (rule ballI, drule (1) bspec, erule update_where_bexI, metis rejects_def dispatch_state.distinct(1)),
      (erule update_where_ballI, simp add: rejects_def))

lemma reject_outcomes:
  "outcomes_inv ds fs os \<Longrightarrow> (\<And>d. P d \<Longrightarrow> rejects reason f d) \<Longrightarrow> outcomes_inv (update_where P f ds) fs os"
  unfolding outcomes_inv_def
  by (intro ballI conjI; (drule (1) bspec)?; (elim conjE update_where_bexI)?)
     (simp, metis rejects_def dispatch_state.distinct(1))

lemma reject_bound:
  "fence_bound ds fe \<Longrightarrow> (\<And>d. P d \<Longrightarrow> rejects reason f d) \<Longrightarrow> fence_bound (update_where P f ds) fe"
  unfolding fence_bound_def
  by (cases "f_key fe"; simp; (elim conjE)?; (erule update_where_ballI update_where_bexI)?)
     (simp_all add: rejects_def)

lemma reject_quarantine:
  assumes "quarantine_inv ds qs" and "\<And>d. P d \<longleftrightarrow> d_key d = q_key q \<and> d_state d = Pending"
    and "\<And>d. P d \<Longrightarrow> rejects (q_reason q) f d" and "d \<in> set ds" "P d" "d_payload d = q_payload q"
  shows "quarantine_inv (update_where P f ds) (qs @ [q])"
proof -
  have "\<exists>x \<in> set (update_where P f ds). d_key x = q_key y \<and> d_state x = Rejected
      \<and> d_payload x = q_payload y \<and> d_rejection x = Some (q_reason y)" if "y \<in> set qs" for y
    by (rule update_where_bexI, use assms(1) that in \<open>simp add: quarantine_inv_def\<close>)
       (metis assms(3) rejects_def dispatch_state.distinct(3))
  moreover have "f d \<in> set (update_where P f ds)"
    using update_where_in [OF assms(4), of P f] assms(5) by simp
  moreover have "d_key (f d) = q_key q \<and> d_state (f d) = Rejected
      \<and> d_payload (f d) = q_payload q \<and> d_rejection (f d) = Some (q_reason q)"
    using assms(2,3,5,6) by (metis rejects_def)
  moreover have "\<exists>y \<in> set (qs @ [q]). q_key y = d_key x"
    if "x \<in> set (update_where P f ds)" "d_state x = Rejected" for x
    using that(1)
  proof (rule in_update_whereE)
    fix r assume r: "r \<in> set ds" "x = (if P r then f r else r)"
    show ?thesis
    proof (cases "P r")
      case True
      with r assms(2,3) have "d_key x = q_key q" by (metis rejects_def)
      then show ?thesis by simp
    next
      case False
      with r that assms(1) show ?thesis unfolding quarantine_inv_def by auto
    qed
  qed
  ultimately show ?thesis unfolding quarantine_inv_def by auto
qed

lemma reject_le: "(\<And>d. P d \<Longrightarrow> rejects reason f d) \<Longrightarrow> rows_le dispatch_le ds (update_where P f ds)"
  by (rule rows_le_update_where) (auto simp: rejects_def dispatch_le_def)

lemma reject_good:
  assumes inv: "pickup_db_inv db"
  shows "good_step db (snd (reject_task_dispatch_sqlite key reason now db))"
proof (cases "find (\<lambda>d. d_key d = key \<and> d_state d = Pending) (dispatches db)")
  case None
  with inv show ?thesis by (simp add: reject_task_dispatch_sqlite_def)
next
  case (Some d)
  define q where "q = \<lparr>q_key = key, q_payload = d_payload d, q_reason = reason, q_at = encode_timestamp now\<rparr>"
  define P where "P = (\<lambda>d::dispatch_row. d_key d = key \<and> d_state d = Pending)"
  define f where "f = (\<lambda>d::dispatch_row. d\<lparr>d_state := Rejected, d_rejection := Some reason, d_updated_at := encode_timestamp now\<rparr>)"
  note parts = inv [unfolded pickup_db_inv_def]
  have rej: "\<And>d. P d \<Longrightarrow> rejects reason f d" by (simp add: P_def f_def rejects_def)
  have "quarantine_inv (update_where P f (dispatches db)) (quarantine db @ [q])"
    using parts rej find_SomeD [OF Some] by (intro reject_quarantine) (auto simp: q_def P_def)
  then have "good_step db (db\<lparr>quarantine := quarantine db @ [q], dispatches := update_where P f (dispatches db)\<rparr>)"
    if "quarantine_ok (quarantine db @ [q])"
    using parts rej that
    by (auto simp: good_step_def pickup_db_inv_def pickup_db_le_def list_all_iff
        intro: reject_ok reject_generations reject_events reject_outcomes reject_bound reject_le)
  with inv Some show ?thesis
    by (auto simp: reject_task_dispatch_sqlite_def Let_def sql_insert_Some sql_update_Some
        P_def q_def f_def split: option.splits)
qed

text \<open>A pending row that no fence blocks is claimed, with its \<open>Assigned\<close> event.\<close>

definition claims :: "(dispatch_row \<Rightarrow> dispatch_row) \<Rightarrow> dispatch_row \<Rightarrow> bool" where
  "claims f d \<longleftrightarrow> d_state d = Pending \<and> d_key (f d) = d_key d \<and> d_payload (f d) = d_payload d
     \<and> d_state (f d) = Claimed \<and> d_generation (f d) = 1 \<and> d_owner (f d) \<noteq> None \<and> d_deadline (f d) \<noteq> None
     \<and> d_armed_at (f d) = d_armed_at d \<and> d_rejection (f d) = d_rejection d
     \<and> d_created_at (f d) = d_created_at d \<and> d_task (f d) = d_task d \<and> d_workflow (f d) = d_workflow d"

lemma claim_ok: "dispatches_ok ds \<Longrightarrow> (\<And>d. P d \<Longrightarrow> claims f d) \<Longrightarrow> dispatches_ok (update_where P f ds)"
  by (rule dispatches_ok_update) (auto simp: claims_def dispatch_check_def)

lemma claim_generations:
  "generations_inv ds \<Longrightarrow> (\<And>d. P d \<Longrightarrow> claims f d) \<Longrightarrow> generations_inv (update_where P f ds)"
  unfolding generations_inv_def by (erule update_where_ballI) (simp add: claims_def)

lemma claim_events:
  assumes ev: "events_inv ds es" and cl: "\<And>d. P d \<Longrightarrow> claims f d" and P: "\<And>d. P d \<Longrightarrow> d_key d = e_key e"
    and e: "e_kind e = Assigned" "e_generation e = 1" and d: "d \<in> set ds" "P d"
  shows "events_inv (update_where P f ds) (es @ [e])"
proof -
  have "\<exists>d \<in> set (update_where P f ds). d_key d = e_key x \<and> d_state d = Claimed
      \<and> d_generation d = e_generation x \<and> (e_kind x = Started \<longrightarrow> d_armed_at d \<noteq> None)" if "x \<in> set es" for x
    by (rule update_where_bexI, use ev that in \<open>simp add: events_inv_def\<close>)
       (metis cl claims_def dispatch_state.distinct(1))
  moreover have "f d \<in> set (update_where P f ds)" "d_key (f d) = e_key e" "d_state (f d) = Claimed" "d_generation (f d) = 1"
    using update_where_in [OF d(1), of P f] cl [OF d(2)] P [OF d(2)] d(2) by (simp_all add: claims_def)
  moreover have "\<forall>x \<in> set (update_where P f ds). d_state x = Claimed \<longrightarrow>
      (\<exists>y \<in> set (es @ [e]). e_key y = d_key x \<and> e_generation y = d_generation x \<and> e_kind y = Assigned)"
    by (rule update_where_ballI) (use ev e cl P in \<open>auto simp: events_inv_def claims_def\<close>)
  ultimately show ?thesis using e unfolding events_inv_def by auto
qed

lemma claim_outcomes:
  "outcomes_inv ds fs os \<Longrightarrow> (\<And>d. P d \<Longrightarrow> claims f d) \<Longrightarrow> outcomes_inv (update_where P f ds) fs os"
  unfolding outcomes_inv_def
  by (intro ballI conjI; (drule (1) bspec)?; (elim conjE update_where_bexI)?) (simp, metis claims_def)

lemma claim_quarantine:
  "quarantine_inv ds qs \<Longrightarrow> (\<And>d. P d \<Longrightarrow> claims f d) \<Longrightarrow> quarantine_inv (update_where P f ds) qs"
  unfolding quarantine_inv_def
  by (elim conjE, rule conjI,
      (rule ballI, drule (1) bspec, erule update_where_bexI, metis claims_def dispatch_state.distinct(3)),
      (erule update_where_ballI, simp add: claims_def))

lemma claim_bound:
  assumes "fence_bound ds fe" and "\<And>d. P d \<Longrightarrow> claims f d" and "\<And>d. P d \<Longrightarrow> \<not> fence_blocks d 1 fe"
  shows "fence_bound (update_where P f ds) fe"
proof (cases "f_key fe")
  case None
  with assms(1,2) show ?thesis
    by (simp add: fence_bound_def, elim update_where_ballI) (simp add: claims_def)
next
  case (Some k)
  with assms show ?thesis
    by (simp add: fence_bound_def, elim conjE update_where_bexI) (auto simp: fence_blocks_def)
qed

lemma claim_le: "(\<And>d. P d \<Longrightarrow> claims f d) \<Longrightarrow> rows_le dispatch_le ds (update_where P f ds)"
  by (rule rows_le_update_where) (auto simp: claims_def dispatch_le_def)

lemma outbox_ok_snoc:
  assumes "outbox_ok es" "0 < e_generation e"
    and "\<not> is_terminal_kind (e_kind e) \<or> (\<forall>x \<in> set es. e_key x = e_key e \<and> e_generation x = e_generation e \<longrightarrow> \<not> is_terminal_kind (e_kind x))"
    and "\<forall>x \<in> set es. \<not> (e_key x = e_key e \<and> e_generation x = e_generation e \<and> e_kind x = e_kind e)"
  shows "outbox_ok (es @ [e])"
  using assms by (auto simp: outbox_ok_def)

lemma events_of_claimed:
  "pickup_db_inv db \<Longrightarrow> d \<in> set (dispatches db) \<Longrightarrow> e \<in> set (outbox db) \<Longrightarrow> e_key e = d_key d \<Longrightarrow> d_state d = Claimed"
  unfolding pickup_db_inv_def events_inv_def by (metis dispatch_key_unique)

definition claimable :: "pickup_db \<Rightarrow> string \<Rightarrow> dispatch_row \<Rightarrow> bool" where
  "claimable db key d \<longleftrightarrow> d_key d = key \<and> d_state d = Pending \<and> d_generation d = 0 \<and> \<not> fenced db d 1"

definition claimed_row :: "claim_task_pickup_input \<Rightarrow> dispatch_row \<Rightarrow> dispatch_row" where
  "claimed_row i d = d\<lparr>d_state := Claimed, d_generation := 1, d_owner := Some (ci_owner i),
     d_deadline := Some (encode_timestamp (ci_deadline i)), d_updated_at := encode_timestamp (ci_now i)\<rparr>"

definition assigned_row :: "'n externals \<Rightarrow> claim_task_pickup_input \<Rightarrow> event_row" where
  "assigned_row X i = \<lparr>e_key = ci_dispatch_key i, e_generation = 1, e_kind = Assigned,
     e_event = encode_bytes X (ci_assigned_event i), e_staged_at = encode_timestamp (ci_now i), e_forwarded_at = None\<rparr>"

definition claim_of :: "claim_task_pickup_input \<Rightarrow> task_pickup_claim" where
  "claim_of i = \<lparr>c_dispatch_key = ci_dispatch_key i, c_generation = 1, c_owner = ci_owner i, c_deadline = ci_deadline i\<rparr>"

text \<open>What a claim does in a store that satisfies the invariant: no error is possible.\<close>

lemma claim_eq:
  assumes inv: "pickup_db_inv db"
  shows "claim_task_pickup_sqlite X i db =
    (if \<exists>d \<in> set (dispatches db). claimable db (ci_dispatch_key i) d
     then (Inr (Committed (claim_of i)),
           db\<lparr>dispatches := update_where (claimable db (ci_dispatch_key i)) (claimed_row i) (dispatches db),
              outbox := outbox db @ [assigned_row X i]\<rparr>)
     else (Inr NotPending, db))"
proof (cases "find (\<lambda>d. d_key d = ci_dispatch_key i \<and> d_state d = Pending) (dispatches db)")
  case None
  moreover from None have "\<not> (\<exists>d \<in> set (dispatches db). claimable db (ci_dispatch_key i) d)"
    by (auto simp: find_None_iff claimable_def)
  ultimately show ?thesis by (simp add: claim_task_pickup_sqlite_def)
next
  case (Some d)
  note parts = inv [unfolded pickup_db_inv_def]
  let ?P = "claimable db (ci_dispatch_key i)"
  have d: "d \<in> set (dispatches db)" "d_key d = ci_dispatch_key i" "d_state d = Pending" "d_generation d = 0"
    using find_SomeD [OF Some] parts by (auto simp: generations_inv_def)
  have cond: "(\<lambda>d. d_key d = ci_dispatch_key i \<and> d_state d = Pending \<and> d_generation d = 0 \<and> \<not> fenced db d 1) = ?P"
    by (simp add: claimable_def fun_eq_iff)
  have row: "(\<lambda>d. d\<lparr>d_state := Claimed, d_generation := 1, d_owner := Some (ci_owner i),
      d_deadline := Some (encode_timestamp (ci_deadline i)), d_updated_at := encode_timestamp (ci_now i)\<rparr>) = claimed_row i"
    by (simp add: claimed_row_def fun_eq_iff)
  have upd: "sql_update dispatches_ok ?P (claimed_row i) (dispatches db) = Some (update_where ?P (claimed_row i) (dispatches db))"
    unfolding sql_update_Some using parts by (auto intro!: claim_ok simp: claims_def claimable_def claimed_row_def)
  have aff: "rows_affected ?P (dispatches db) = (if \<exists>d \<in> set (dispatches db). ?P d then 1 else 0)"
    by (rule rows_affected_key [of d_key]) (use parts in \<open>auto simp: dispatches_ok_def claimable_def\<close>)
  have "outbox_ok (outbox db @ [assigned_row X i])"
    using parts events_of_claimed [OF inv d(1)] d by (intro outbox_ok_snoc) (auto simp: assigned_row_def)
  moreover have "\<exists>x \<in> set (update_where ?P (claimed_row i) (dispatches db)). d_key x = ci_dispatch_key i"
    by (rule update_where_bexI) (use d in \<open>auto simp: claimed_row_def claimable_def\<close>)
  ultimately have "insert_event (assigned_row X i) (db\<lparr>dispatches := update_where ?P (claimed_row i) (dispatches db)\<rparr>)
      = Some (db\<lparr>dispatches := update_where ?P (claimed_row i) (dispatches db), outbox := outbox db @ [assigned_row X i]\<rparr>)"
    by (auto simp: insert_event_def list_ex_iff sql_insert_def assigned_row_def)
  moreover have "update_where ?P (claimed_row i) (dispatches db) = dispatches db"
    if "\<not> (\<exists>d \<in> set (dispatches db). ?P d)"
    using that by (auto intro: update_where_none)
  ultimately show ?thesis
    by (simp add: claim_task_pickup_sqlite_def Some Let_def d(4) cond row aff upd assigned_row_def claim_of_def)
qed

lemma claim_good:
  assumes inv: "pickup_db_inv db"
  shows "good_step db (snd (claim_task_pickup_sqlite X i db))"
proof (cases "\<exists>d \<in> set (dispatches db). claimable db (ci_dispatch_key i) d")
  case False
  with inv show ?thesis by (simp add: claim_eq)
next
  case True
  then obtain d where d: "d \<in> set (dispatches db)" "claimable db (ci_dispatch_key i) d" ..
  note parts = inv [unfolded pickup_db_inv_def]
  let ?P = "claimable db (ci_dispatch_key i)" and ?f = "claimed_row i"
  have cl: "\<And>d. ?P d \<Longrightarrow> claims ?f d" by (simp add: claims_def claimable_def claimed_row_def)
  have "outbox_ok (outbox db @ [assigned_row X i])"
    using parts events_of_claimed [OF inv d(1)] d by (intro outbox_ok_snoc) (auto simp: assigned_row_def claimable_def)
  moreover have "events_inv (update_where ?P ?f (dispatches db)) (outbox db @ [assigned_row X i])"
    using parts cl d by (intro claim_events [of _ _ ?P ?f _ d]) (simp_all add: claimable_def assigned_row_def)
  moreover have "list_all (fence_bound (update_where ?P ?f (dispatches db))) (fences db)"
    using parts unfolding list_all_iff
    by (auto intro!: claim_bound cl simp: claimable_def fenced_def list_ex_iff)
  moreover have "terminals_inv (outbox db @ [assigned_row X i]) (outcomes db)"
    using parts unfolding terminals_inv_def by (auto simp: assigned_row_def)
  ultimately show ?thesis
    using parts True cl
    by (auto simp: claim_eq [OF inv] good_step_def pickup_db_inv_def pickup_db_le_def
        intro!: claim_ok claim_generations claim_outcomes claim_quarantine claim_le rows_le_superset)
qed

section \<open>Events and outcomes\<close>

lemma outcome_as_str_inj: "outcome_as_str a = outcome_as_str b \<longleftrightarrow> a = b"
  by (cases a; cases b) simp_all

lemma parse_outcome_as_str [codec_simps, simp]: "parse_terminal_outcome (outcome_as_str t) = Inr t"
  by (cases t) (simp_all add: parse_terminal_outcome_def)

lemma parse_reconciliation_as_str [codec_simps, simp]:
  "parse_cancellation_reconciliation (reconciliation_as_str r) = Inr r"
  by (cases r) (simp_all add: parse_cancellation_reconciliation_def)

lemma stored_outcome:
  assumes "outcomes_ok os" "r \<in> set os"
  shows "\<exists>t. o_outcome r = outcome_as_str t"
proof -
  have "o_outcome r \<in> set outcome_names" using assms by (simp add: outcomes_ok_def list_all_iff)
  then show ?thesis unfolding outcome_names_def set_map by blast
qed

lemma insert_event_row_good:
  assumes inv: "pickup_db_inv db" and d: "d \<in> set (dispatches db)" "d_state d = Claimed" "d_armed_at d \<noteq> None"
    and e: "e_key e = d_key d" "e_generation e = d_generation d" "e_kind e = Started" "outbox_ok (outbox db @ [e])"
  shows "good_step db (db\<lparr>outbox := outbox db @ [e]\<rparr>)"
proof -
  note parts = inv [unfolded pickup_db_inv_def]
  have "events_inv (dispatches db) (outbox db @ [e])"
    using parts d e unfolding events_inv_def by auto
  moreover have "terminals_inv (outbox db @ [e]) (outcomes db)"
    using parts e unfolding terminals_inv_def by auto
  ultimately show ?thesis
    using parts e by (auto simp: good_step_def pickup_db_inv_def pickup_db_le_def intro!: rows_le_superset)
qed

lemma claim_key: "claim_matches c d \<Longrightarrow> d_key d = c_dispatch_key c"
  by (simp add: claim_matches_def)

lemma filter_dispatches:
  "pickup_db_inv db \<Longrightarrow> (\<And>d. P d \<Longrightarrow> d_key d = k) \<Longrightarrow>
   filter P (dispatches db) = (case find P (dispatches db) of None \<Rightarrow> [] | Some d \<Rightarrow> [d])"
  by (rule filter_by_key [of d_key]) (auto simp: pickup_db_inv_def dispatches_ok_def)

lemma started_good:
  assumes inv: "pickup_db_inv db"
  shows "good_step db (snd (stage_task_started_sqlite X c started now db))"
proof -
  let ?P = "\<lambda>d. claim_matches c d \<and> d_armed_at d \<noteq> None \<and> \<not> settled_exists db (d_key d) (d_generation d)"
  have fl: "filter ?P (dispatches db) = (case find ?P (dispatches db) of None \<Rightarrow> [] | Some d \<Rightarrow> [d])"
    using inv by (rule filter_dispatches [where k = "c_dispatch_key c"]) (simp add: claim_key)
  show ?thesis
  proof (cases "find ?P (dispatches db)")
    case None
    with fl inv show ?thesis by (simp add: stage_task_started_sqlite_def)
  next
    case (Some d)
    define e where "e = \<lparr>e_key = d_key d, e_generation = d_generation d, e_kind = Started,
      e_event = encode_bytes X started, e_staged_at = encode_timestamp now, e_forwarded_at = None\<rparr>"
    from find_SomeD [OF Some] have "d \<in> set (dispatches db)" "d_state d = Claimed" "d_armed_at d \<noteq> None"
      by (auto simp: claim_matches_def)
    then have "outbox_ok (outbox db @ [e]) \<Longrightarrow> good_step db (db\<lparr>outbox := outbox db @ [e]\<rparr>)"
      using inv by (intro insert_event_row_good [of db d]) (simp_all add: e_def)
    with fl Some inv show ?thesis
      by (simp add: stage_task_started_sqlite_def Let_def e_def insert_or_ignore_def)
  qed
qed

definition marks :: "(event_row \<Rightarrow> event_row) \<Rightarrow> event_row \<Rightarrow> bool" where
  "marks f e \<longleftrightarrow> e_key (f e) = e_key e \<and> e_generation (f e) = e_generation e \<and> e_kind (f e) = e_kind e"

lemma mark_events:
  "events_inv ds es \<Longrightarrow> (\<And>e. P e \<Longrightarrow> marks f e) \<Longrightarrow> events_inv ds (update_where P f es)"
  unfolding events_inv_def
  by (elim conjE, intro conjI, (erule update_where_ballI, simp add: marks_def),
      (intro ballI impI, drule (1) bspec, drule (1) mp, erule update_where_bexI, simp add: marks_def))

lemma mark_terminals:
  "terminals_inv es os \<Longrightarrow> (\<And>e. P e \<Longrightarrow> marks f e) \<Longrightarrow> terminals_inv (update_where P f es) os"
  unfolding terminals_inv_def
  by (elim conjE, intro conjI, (erule update_where_ballI, simp add: marks_def),
      (intro ballI allI impI, rule update_where_bexI, blast, simp add: marks_def))

lemma mark_event_good:
  assumes inv: "pickup_db_inv db"
  shows "good_step db (snd (mark_task_event_forwarded_sqlite X pe now db))"
proof -
  define P where "P = (\<lambda>e::event_row. e_key e = pe_dispatch_key pe \<and> e_generation e = pe_generation pe
    \<and> e_kind e = pe_kind pe \<and> e_event e = encode_bytes X (pe_event pe) \<and> e_forwarded_at e = None)"
  define f where "f = (\<lambda>e::event_row. e\<lparr>e_forwarded_at := Some (encode_timestamp now)\<rparr>)"
  note parts = inv [unfolded pickup_db_inv_def]
  have m: "\<And>e. P e \<Longrightarrow> marks f e" by (simp add: marks_def f_def)
  have "outbox_ok (update_where P f (outbox db))"
    using parts by (intro outbox_ok_update) (auto simp: f_def)
  moreover have "rows_le event_le (outbox db) (update_where P f (outbox db))"
    by (rule rows_le_update_where) (auto simp: event_le_def f_def P_def)
  ultimately have "good_step db (db\<lparr>outbox := update_where P f (outbox db)\<rparr>)"
    using parts m by (auto simp: good_step_def pickup_db_inv_def pickup_db_le_def intro: mark_events mark_terminals)
  moreover have "outbox_ok (update_where P f (outbox db))" by fact
  ultimately show ?thesis
    by (simp add: mark_task_event_forwarded_sqlite_def Let_def sql_update_def P_def f_def)
qed

definition won_outcome :: "task_pickup_claim \<Rightarrow> terminal_outcome \<Rightarrow> datetime \<Rightarrow> outcome_row" where
  "won_outcome c outc now = \<lparr>o_key = c_dispatch_key c, o_generation = c_generation c,
     o_outcome = outcome_as_str outc, o_settled_at = encode_timestamp now\<rparr>"

definition won_event :: "'n externals \<Rightarrow> task_pickup_claim \<Rightarrow> event_kind \<Rightarrow> bytes \<Rightarrow> datetime \<Rightarrow> event_row" where
  "won_event X c kind ev now = \<lparr>e_key = c_dispatch_key c, e_generation = c_generation c, e_kind = kind,
     e_event = encode_bytes X ev, e_staged_at = encode_timestamp now, e_forwarded_at = None\<rparr>"

definition outcome_at :: "pickup_db \<Rightarrow> string \<Rightarrow> int \<Rightarrow> outcome_row option" where
  "outcome_at db k g = find (\<lambda>r. o_key r = k \<and> o_generation r = g) (outcomes db)"

lemma outcome_at_None: "outcome_at db k g = None \<longleftrightarrow> \<not> settled_exists db k g"
  by (auto simp: outcome_at_def settled_exists_def find_None_iff list_ex_iff)

lemma outcomes_ok_snoc:
  "outcomes_ok os \<Longrightarrow> outcomes_ok (os @ [r]) \<longleftrightarrow>
   (\<forall>x \<in> set os. \<not> (o_key x = o_key r \<and> o_generation x = o_generation r)) \<and> 0 < o_generation r \<and> o_outcome r \<in> set outcome_names"
  by (auto simp: outcomes_ok_def image_iff)

lemma outcome_as_str_names [simp]: "outcome_as_str t \<in> set outcome_names"
  by (cases t) (simp_all add: outcome_names_def)

lemma terminal_kind: "outcome_event_kind t = Some k \<Longrightarrow> is_terminal_kind k"
  by (cases t) auto

lemma won_outbox_ok:
  assumes inv: "pickup_db_inv db" and "outcome_event_kind outc = Some kind" "outcome_at db (c_dispatch_key c) (c_generation c) = None"
    and "0 < c_generation c"
  shows "outbox_ok (outbox db @ [won_event X c kind ev now])"
proof -
  have "\<not> is_terminal_kind (e_kind x)"
    if "x \<in> set (outbox db)" "e_key x = c_dispatch_key c" "e_generation x = c_generation c" for x
    using inv that assms(3) unfolding pickup_db_inv_def terminals_inv_def outcome_at_def find_None_iff by metis
  with assms terminal_kind [OF assms(2)] show ?thesis
    by (intro outbox_ok_snoc) (auto simp: won_event_def pickup_db_inv_def)
qed

text \<open>What an election does: the recorded outcome decides it, else the holder of the claim wins.\<close>

lemma elect_eq:
  assumes inv: "pickup_db_inv db" and kind: "outcome_event_kind outc = Some kind"
  shows "elect_task_pickup_terminal_sqlite X c outc ev now db =
    (case outcome_at db (c_dispatch_key c) (c_generation c) of
       Some r \<Rightarrow> (map_sum id Settled (parse_terminal_outcome (o_outcome r)), db)
     | None \<Rightarrow> if \<exists>d \<in> set (dispatches db). claim_matches c d
              then (Inr Won, db\<lparr>outcomes := outcomes db @ [won_outcome c outc now],
                                outbox := outbox db @ [won_event X c kind ev now]\<rparr>)
              else (Inr NotClaimed, db))"
proof -
  note parts = inv [unfolded pickup_db_inv_def]
  have fl: "filter (claim_matches c) (dispatches db) =
      (case find (claim_matches c) (dispatches db) of None \<Rightarrow> [] | Some d \<Rightarrow> [d])"
    using inv claim_key by (rule filter_dispatches)
  show ?thesis
  proof (cases "find (claim_matches c) (dispatches db)")
    case None
    then have "\<not> (\<exists>d \<in> set (dispatches db). claim_matches c d)" by (auto simp: find_None_iff)
    with None fl kind show ?thesis
      by (simp add: elect_task_pickup_terminal_sqlite_def outcome_at_def Let_def split: option.split)
  next
    case (Some d)
    then have d: "d \<in> set (dispatches db)" "claim_matches c d" by (auto dest: find_SomeD)
    then have g: "c_generation c = 1" "d_generation d = 1" "d_key d = c_dispatch_key c"
      using parts by (auto simp: generations_inv_def claim_matches_def split: if_splits)
    have ok: "outcomes_ok (outcomes db @ [won_outcome c outc now]) \<longleftrightarrow> outcome_at db (c_dispatch_key c) (c_generation c) = None"
      using parts g by (auto simp: outcomes_ok_snoc won_outcome_def outcome_at_def find_None_iff)
    have ev: "insert_event (won_event X c kind ev now) (db\<lparr>outcomes := outcomes db @ [won_outcome c outc now]\<rparr>)
        = Some (db\<lparr>outcomes := outcomes db @ [won_outcome c outc now], outbox := outbox db @ [won_event X c kind ev now]\<rparr>)"
      if "outcome_at db (c_dispatch_key c) (c_generation c) = None"
      using won_outbox_ok [OF inv kind that] d g by (auto simp: insert_event_def sql_insert_def won_event_def list_ex_iff)
    from Some fl kind d g ok ev show ?thesis
      by (cases "outcome_at db (c_dispatch_key c) (c_generation c)")
         (auto simp: elect_task_pickup_terminal_sqlite_def Let_def won_outcome_def won_event_def
            insert_or_ignore_simps outcome_at_def)
  qed
qed

lemma elect_good:
  assumes inv: "pickup_db_inv db"
  shows "good_step db (snd (elect_task_pickup_terminal_sqlite X c outc ev now db))"
proof (cases "\<exists>kind. outcome_event_kind outc = Some kind
    \<and> outcome_at db (c_dispatch_key c) (c_generation c) = None \<and> (\<exists>d \<in> set (dispatches db). claim_matches c d)")
  case False
  show ?thesis
  proof (cases "outcome_event_kind outc")
    case None
    with inv show ?thesis by (simp add: elect_task_pickup_terminal_sqlite_def)
  next
    case (Some kind)
    with False inv show ?thesis by (auto simp: elect_eq [OF inv Some] split: option.split)
  qed
next
  case True
  then obtain kind d where kind: "outcome_event_kind outc = Some kind" and none: "outcome_at db (c_dispatch_key c) (c_generation c) = None"
    and d: "d \<in> set (dispatches db)" "claim_matches c d" by blast
  note parts = inv [unfolded pickup_db_inv_def]
  let ?r = "won_outcome c outc now" and ?e = "won_event X c kind ev now"
  have g: "d_state d = Claimed" "d_generation d = 1" "c_generation c = 1" "d_key d = c_dispatch_key c"
    using parts d by (auto simp: generations_inv_def claim_matches_def split: if_splits)
  have "outcomes_ok (outcomes db @ [?r])"
    using parts g none by (auto simp: outcomes_ok_snoc won_outcome_def outcome_at_def find_None_iff)
  moreover have "outbox_ok (outbox db @ [?e])" using won_outbox_ok [OF inv kind none] g by simp
  moreover have "events_inv (dispatches db) (outbox db @ [?e])"
    using parts d g terminal_kind [OF kind] unfolding events_inv_def by (auto simp: won_event_def)
  moreover have "terminals_inv (outbox db @ [?e]) (outcomes db @ [?r])"
    using parts kind unfolding terminals_inv_def
    by (auto simp: won_event_def won_outcome_def outcome_as_str_inj)
  moreover have "outcomes_inv (dispatches db) (fences db) (outcomes db @ [?r])"
    using parts d g unfolding outcomes_inv_def by (auto simp: won_outcome_def)
  ultimately show ?thesis
    using parts d by (auto simp: elect_eq [OF inv kind] none good_step_def pickup_db_inv_def pickup_db_le_def
        intro!: rows_le_superset)
qed

section \<open>Cancellation\<close>

lemma outcomes_inv_mono: "outcomes_inv ds fs os \<Longrightarrow> set fs \<subseteq> set fs' \<Longrightarrow> outcomes_inv ds fs' os"
  unfolding outcomes_inv_def by blast

lemma insert_fence_good:
  assumes inv: "pickup_db_inv db" and f: "f_settled_at f = None" "fence_bound (dispatches db) f"
  shows "good_step db (db\<lparr>fences := insert_or_ignore fences_ok f (fences db)\<rparr>)"
proof -
  note parts = inv [unfolded pickup_db_inv_def]
  have "outcomes_inv (dispatches db) (fences db @ [f]) (outcomes db)"
    using parts by (auto intro: outcomes_inv_mono)
  moreover have "acks_inv (fences db @ [f]) (acks db)"
    using parts f unfolding acks_inv_def by auto
  ultimately show ?thesis
    using parts f by (auto simp: good_step_def pickup_db_inv_def pickup_db_le_def insert_or_ignore_def intro!: rows_le_superset)
qed

lemma bad_fence_ignored: "\<not> fence_check f \<Longrightarrow> insert_or_ignore fences_ok f fs = fs"
  by (simp add: insert_or_ignore_def fences_ok_def)

lemma find_identity:
  assumes inv: "pickup_db_inv db"
  shows "find (\<lambda>d. d_task d = Some t \<and> d_workflow d = Some w) (dispatches db) = Some d \<longleftrightarrow>
    d \<in> set (dispatches db) \<and> d_task d = Some t \<and> d_workflow d = Some w"
proof
  let ?P = "\<lambda>d. d_task d = Some t \<and> d_workflow d = Some w"
  assume d: "d \<in> set (dispatches db) \<and> d_task d = Some t \<and> d_workflow d = Some w"
  then obtain x where x: "find ?P (dispatches db) = Some x"
    by (cases "find ?P (dispatches db)") (auto simp: find_None_iff)
  moreover have "x = d"
    using inv d find_SomeD [OF x] unfolding pickup_db_inv_def by (auto intro: dispatch_identity_unique)
  ultimately show "find ?P (dispatches db) = Some d" by simp
qed (auto dest: find_SomeD)

definition fence_target :: "pickup_db \<Rightarrow> string \<Rightarrow> string \<Rightarrow> string option \<times> int option \<times> string option" where
  "fence_target db t w =
     (case find (\<lambda>d. sql_eq (d_task d) (Some t) \<and> sql_eq (d_workflow d) (Some w)) (dispatches db) of
        None \<Rightarrow> (None, None, None)
      | Some d \<Rightarrow> (Some (d_key d), Some (if d_state d = Rejected then 0 else 1), d_owner d))"

definition new_fence :: "pickup_db \<Rightarrow> string \<Rightarrow> string \<Rightarrow> string \<Rightarrow> datetime \<Rightarrow> fence_row" where
  "new_fence db ack t w now =
     (let (k, g, ow) = fence_target db t w in
      \<lparr>f_ack = ack, f_task = t, f_workflow = w, f_key = k, f_generation = g, f_owner = ow,
       f_committed_at = encode_timestamp now, f_notified_at = None, f_reconciliation = None, f_settled_at = None\<rparr>)"

lemma new_fence_simps [simp]:
  "f_ack (new_fence db ack t w now) = ack" "f_task (new_fence db ack t w now) = t"
  "f_workflow (new_fence db ack t w now) = w" "f_settled_at (new_fence db ack t w now) = None"
  "f_notified_at (new_fence db ack t w now) = None" "f_reconciliation (new_fence db ack t w now) = None"
  "f_key (new_fence db ack t w now) = fst (fence_target db t w)"
  "f_generation (new_fence db ack t w now) = fst (snd (fence_target db t w))"
  "f_owner (new_fence db ack t w now) = snd (snd (fence_target db t w))"
  by (simp_all add: new_fence_def split: prod.splits)

lemma reload_pair:
  "(case l of Inl e \<Rightarrow> (Inl e, s) | Inr None \<Rightarrow> (Inl x, s) | Inr (Some f) \<Rightarrow> (Inr f, s)) =
   (case l of Inl e \<Rightarrow> Inl e | Inr None \<Rightarrow> Inl x | Inr (Some f) \<Rightarrow> Inr f, s)"
  by (simp split: sum.split option.split)

lemma fence_target_None:
  "find (\<lambda>d. d_task d = Some t \<and> d_workflow d = Some w) (dispatches db) = None \<Longrightarrow> fence_target db t w = (None, None, None)"
  by (simp add: fence_target_def)

lemma fence_target_Some:
  "find (\<lambda>d. d_task d = Some t \<and> d_workflow d = Some w) (dispatches db) = Some d \<Longrightarrow>
   fence_target db t w = (Some (d_key d), Some (if d_state d = Rejected then 0 else 1), d_owner d)"
  by (simp add: fence_target_def)

lemma commit_eq:
  assumes inv: "pickup_db_inv db"
  shows "commit_task_cancellation_fence_sqlite X ack t w now db =
    (let db' = db\<lparr>fences := insert_or_ignore fences_ok (new_fence db ack t w now) (fences db)\<rparr>
     in (case load_task_cancellation_fence_sqlite X (\<lambda>f. f_ack f = ack) db' of
           Inl e \<Rightarrow> Inl e
         | Inr None \<Rightarrow> Inl (corrupt_value (CorruptStoredValue ''committed cancellation fence could not be reloaded''))
         | Inr (Some f) \<Rightarrow> Inr f, db'))"
proof (cases "find (\<lambda>d. d_task d = Some t \<and> d_workflow d = Some w) (dispatches db)")
  case None
  then show ?thesis
    by (simp add: commit_task_cancellation_fence_sqlite_def new_fence_def fence_target_None Let_def reload_pair)
next
  case (Some d)
  with inv have d: "d \<in> set (dispatches db)" by (simp add: find_identity)
  then have g: "d_generation d = (if d_state d = Claimed then 1 else 0)" and chk: "dispatch_check d"
    using inv by (auto simp: pickup_db_inv_def generations_inv_def dispatches_ok_def list_all_iff)
  show ?thesis
    using chk by (cases "d_state d")
      (simp_all add: commit_task_cancellation_fence_sqlite_def new_fence_def fence_target_Some Some g Let_def
        dispatch_check_def reload_pair)
qed

lemma commit_good:
  assumes inv: "pickup_db_inv db"
  shows "good_step db (snd (commit_task_cancellation_fence_sqlite X ack t w now db))"
proof -
  have "good_step db (db\<lparr>fences := insert_or_ignore fences_ok (new_fence db ack t w now) (fences db)\<rparr>)"
  proof (cases "find (\<lambda>d. d_task d = Some t \<and> d_workflow d = Some w) (dispatches db)")
    case None
    then have "fence_bound (dispatches db) (new_fence db ack t w now)"
      using find_NoneD [OF None] by (auto simp: fence_bound_def fence_target_None)
    with inv show ?thesis by (intro insert_fence_good) simp_all
  next
    case (Some d)
    show ?thesis
    proof (cases "d_state d = Rejected")
      case True
      with Some have "\<not> fence_check (new_fence db ack t w now)" by (simp add: fence_check_def fence_target_Some)
      with inv show ?thesis by (simp add: bad_fence_ignored)
    next
      case False
      with Some inv have "fence_bound (dispatches db) (new_fence db ack t w now)"
        by (auto simp: fence_bound_def fence_target_Some find_identity)
      with inv show ?thesis by (intro insert_fence_good) simp_all
    qed
  qed
  with inv show ?thesis by (simp add: commit_eq Let_def)
qed

definition seals :: "(fence_row \<Rightarrow> fence_row) \<Rightarrow> fence_row \<Rightarrow> bool" where
  "seals g f \<longleftrightarrow> fence_le f (g f) \<and> f_key (g f) = f_key f \<and> f_generation (g f) = f_generation f
     \<and> (fence_check f \<longrightarrow> fence_check (g f))"

lemma seal_ok: "fences_ok fs \<Longrightarrow> (\<And>f. P f \<Longrightarrow> seals g f) \<Longrightarrow> fences_ok (update_where P g fs)"
  by (rule fences_ok_update) (auto simp: seals_def fence_le_def)

lemma seal_bound:
  "list_all (fence_bound ds) fs \<Longrightarrow> (\<And>f. P f \<Longrightarrow> seals g f) \<Longrightarrow> list_all (fence_bound ds) (update_where P g fs)"
  unfolding list_all_iff by (erule update_where_ballI) (auto simp: seals_def fence_le_def fence_bound_def split: option.splits)

lemma seal_outcomes:
  assumes "outcomes_inv ds fs os" and se: "\<And>f. P f \<Longrightarrow> seals g f"
  shows "outcomes_inv ds (update_where P g fs) os"
proof -
  have "\<exists>f \<in> set (update_where P g fs). f_key f = Some k \<and> f_settled_at f \<noteq> None"
    if "\<exists>f \<in> set fs. f_key f = Some k \<and> f_settled_at f \<noteq> None" for k
    using that by (rule update_where_bexI) (use se in \<open>auto simp: seals_def fence_le_def\<close>)
  with assms(1) show ?thesis unfolding outcomes_inv_def by blast
qed

lemma seal_le: "(\<And>f. P f \<Longrightarrow> seals g f) \<Longrightarrow> rows_le fence_le fs (update_where P g fs)"
  by (rule rows_le_update_where) (auto simp: seals_def)

lemma notified_good:
  assumes inv: "pickup_db_inv db"
  shows "good_step db (snd (mark_task_cancellation_owner_notified_sqlite cf now db))"
proof -
  define P where "P = (\<lambda>f::fence_row. f_ack f = cf_ack cf \<and> f_owner f \<noteq> None \<and> f_settled_at f = None)"
  define g where "g = (\<lambda>f::fence_row. f\<lparr>f_notified_at := coalesce (f_notified_at f) (encode_timestamp now)\<rparr>)"
  note parts = inv [unfolded pickup_db_inv_def]
  have se: "\<And>f. P f \<Longrightarrow> seals g f" by (auto simp: seals_def fence_le_def g_def fence_check_def)
  have "acks_inv (update_where P g (fences db)) (acks db)"
    using parts by (intro acks_inv_update) (auto simp: g_def)
  then have "good_step db (db\<lparr>fences := update_where P g (fences db)\<rparr>)"
    using parts se by (auto simp: good_step_def pickup_db_inv_def pickup_db_le_def
        intro: seal_ok seal_bound seal_outcomes seal_le)
  moreover have "fences_ok (update_where P g (fences db))" using parts se by (auto intro: seal_ok)
  ultimately show ?thesis
    by (simp add: mark_task_cancellation_owner_notified_sqlite_def Let_def sql_update_def P_def g_def)
qed

lemma ack_forwarded_good:
  assumes inv: "pickup_db_inv db"
  shows "good_step db (snd (mark_task_cancellation_ack_forwarded_sqlite X pa now db))"
proof -
  define P where "P = (\<lambda>a::ack_row. a_ack a = pa_ack pa
    \<and> a_acknowledgement a = encode_bytes X (pa_acknowledgement pa) \<and> a_forwarded_at a = None)"
  define g where "g = (\<lambda>a::ack_row. a\<lparr>a_forwarded_at := Some (encode_timestamp now)\<rparr>)"
  note parts = inv [unfolded pickup_db_inv_def]
  have ok: "acks_ok (update_where P g (acks db))"
    using parts by (intro acks_ok_update) (auto simp: g_def)
  have "acks_inv (fences db) (update_where P g (acks db))"
    using parts unfolding acks_inv_def table_simps by (auto simp: g_def)
  moreover have "rows_le ack_le (acks db) (update_where P g (acks db))"
    by (rule rows_le_update_where) (auto simp: ack_le_def g_def P_def)
  ultimately have "good_step db (db\<lparr>acks := update_where P g (acks db)\<rparr>)"
    using parts ok by (auto simp: good_step_def pickup_db_inv_def pickup_db_le_def)
  with ok show ?thesis
    by (simp add: mark_task_cancellation_ack_forwarded_sqlite_def Let_def sql_update_def P_def g_def)
qed

text \<open>A settlement: the rows it may add to the outcomes, and what it does to fences and acknowledgements.\<close>

lemma settlement_rowsE:
  assumes "pickup_db_inv db" "r \<in> set (settlement_rows ack rec m db)"
  obtains f d where "f \<in> set (fences db)" "d \<in> set (dispatches db)" "f_ack f = ack" "f_key f = Some (d_key d)"
    "o_key r = d_key d" "o_generation r = 1" "o_outcome r = outcome_as_str (reconciliation_terminal_outcome rec)"
    "f_generation f = Some 1" "d_state d = Claimed \<or> d_state d = Pending"
  using assms unfolding settlement_rows_def pickup_db_inv_def
  by (auto simp: list_all_iff fence_bound_def split: option.splits)

lemma reconciliation_no_event [simp]: "outcome_event_kind (reconciliation_terminal_outcome rec) = None"
  by (cases rec) simp_all

definition settled_fence :: "cancellation_reconciliation \<Rightarrow> micros \<Rightarrow> fence_row \<Rightarrow> fence_row" where
  "settled_fence rec m f = f\<lparr>f_reconciliation := coalesce (f_reconciliation f) (reconciliation_as_str rec),
     f_settled_at := coalesce (f_settled_at f) m\<rparr>"

lemma settled_fence_simps [simp]:
  "f_ack (settled_fence rec m f) = f_ack f" "f_key (settled_fence rec m f) = f_key f"
  "f_settled_at (settled_fence rec m f) \<noteq> None"
  by (simp_all add: settled_fence_def)

lemma settled_fence_seals: "seals (settled_fence rec m) f"
proof -
  have "reconciliation_as_str rec \<in> set reconciliation_names" by (cases rec) (simp_all add: reconciliation_names_def)
  then show ?thesis by (auto simp: seals_def fence_le_def settled_fence_def fence_check_def coalesce_def split: option.splits)
qed

lemma settle_outcomes:
  assumes inv: "pickup_db_inv db"
  shows "outcomes_inv (dispatches db) (update_where (\<lambda>f. f_ack f = ack) (settled_fence rec m) (fences db))
           (insert_select outcomes_ok (settlement_rows ack rec m db) (outcomes db))"
  unfolding outcomes_inv_def
proof
  fix r assume "r \<in> set (insert_select outcomes_ok (settlement_rows ack rec m db) (outcomes db))"
  with insert_select_set consider "r \<in> set (outcomes db)" | "r \<in> set (settlement_rows ack rec m db)" by fastforce
  then show "o_generation r = 1 \<and> (\<exists>d \<in> set (dispatches db). d_key d = o_key r \<and> (d_state d = Claimed \<or>
    (\<exists>f \<in> set (update_where (\<lambda>f. f_ack f = ack) (settled_fence rec m) (fences db)).
       f_key f = Some (o_key r) \<and> f_settled_at f \<noteq> None)))"
  proof cases
    case 1
    have "outcomes_inv (dispatches db) (update_where (\<lambda>f. f_ack f = ack) (settled_fence rec m) (fences db)) (outcomes db)"
      using inv by (intro seal_outcomes settled_fence_seals) (simp add: pickup_db_inv_def)
    with 1 show ?thesis by (simp add: outcomes_inv_def)
  next
    case 2
    with inv obtain f d where fd: "f \<in> set (fences db)" "d \<in> set (dispatches db)" "f_ack f = ack"
      "f_key f = Some (d_key d)" "o_key r = d_key d" "o_generation r = 1"
      by (rule settlement_rowsE)
    then have "settled_fence rec m f \<in> set (update_where (\<lambda>f. f_ack f = ack) (settled_fence rec m) (fences db))"
      using update_where_in [of f "fences db" "\<lambda>f. f_ack f = ack"] by auto
    moreover have "f_key (settled_fence rec m f) = Some (o_key r)" "f_settled_at (settled_fence rec m f) \<noteq> None"
      using fd by (simp_all del: not_None_eq)
    moreover have "o_generation r = 1" "d_key d = o_key r" using fd by simp_all
    ultimately show ?thesis using fd(2) by blast
  qed
qed

lemma settle_terminals:
  assumes inv: "pickup_db_inv db"
  shows "terminals_inv (outbox db) (insert_select outcomes_ok (settlement_rows ack rec m db) (outcomes db))"
proof -
  let ?os = "insert_select outcomes_ok (settlement_rows ack rec m db) (outcomes db)"
  have old: "terminals_inv (outbox db) (outcomes db)" using inv by (simp add: pickup_db_inv_def)
  have mono: "set (outcomes db) \<subseteq> set ?os" by (rule insert_select_mono)
  have new: "r \<in> set (outcomes db)" if "r \<in> set ?os" "o_outcome r = outcome_as_str t" "outcome_event_kind t = Some k" for r t k
  proof (rule ccontr)
    assume "r \<notin> set (outcomes db)"
    with that insert_select_set have "r \<in> set (settlement_rows ack rec m db)" by fastforce
    with inv have "o_outcome r = outcome_as_str (reconciliation_terminal_outcome rec)" by (rule settlement_rowsE)
    with that show False by (auto simp: outcome_as_str_inj)
  qed
  show ?thesis
    unfolding terminals_inv_def
  proof (intro conjI ballI impI allI)
    fix e assume "e \<in> set (outbox db)" "is_terminal_kind (e_kind e)"
    with old mono show "\<exists>r \<in> set ?os. o_key r = e_key e \<and> o_generation r = e_generation e
        \<and> (\<exists>t. o_outcome r = outcome_as_str t \<and> outcome_event_kind t = Some (e_kind e))"
      unfolding terminals_inv_def by blast
  next
    fix r t k assume "r \<in> set ?os" "o_outcome r = outcome_as_str t" "outcome_event_kind t = Some k"
    with old new show "\<exists>e \<in> set (outbox db). e_key e = o_key r \<and> e_generation e = o_generation r \<and> e_kind e = k"
      unfolding terminals_inv_def by blast
  qed
qed

lemma settle_acks:
  assumes inv: "pickup_db_inv db" and g: "g = settled_fence rec m"
    and ex: "acks_ok (acks db @ [a]) \<Longrightarrow> \<exists>f \<in> set (fences db). f_ack f = a_ack a"
  shows "acks_inv (update_where (\<lambda>f. f_ack f = a_ack a) g (fences db)) (insert_or_ignore acks_ok a (acks db))"
proof -
  have ok: "acks_ok (acks db)" and ai: "acks_inv (fences db) (acks db)" using inv by (simp_all add: pickup_db_inv_def)
  have here: "\<exists>x \<in> set (insert_or_ignore acks_ok a (acks db)). a_ack x = a_ack a"
    using ok by (auto simp: insert_or_ignore_def acks_ok_def image_iff)
  have "\<exists>f \<in> set (update_where (\<lambda>f. f_ack f = a_ack a) g (fences db)). f_ack f = a_ack x \<and> f_settled_at f \<noteq> None"
    if "x \<in> set (insert_or_ignore acks_ok a (acks db))" for x
  proof -
    from that have "x = a \<and> acks_ok (acks db @ [a]) \<or> x \<in> set (acks db)"
      by (auto simp: insert_or_ignore_def split: if_splits)
    then obtain f where f: "f \<in> set (fences db)" "f_ack f = a_ack x" "f_ack f = a_ack a \<or> f_settled_at f \<noteq> None"
      using ex ai unfolding acks_inv_def by blast
    show ?thesis
      by (rule bexI [OF _ update_where_in [OF f(1)]]) (use f(2,3) g in \<open>auto simp del: not_None_eq\<close>)
  qed
  moreover have "\<forall>f \<in> set (update_where (\<lambda>f. f_ack f = a_ack a) g (fences db)). f_settled_at f \<noteq> None \<longrightarrow>
      (\<exists>x \<in> set (insert_or_ignore acks_ok a (acks db)). a_ack x = f_ack f)"
  proof (rule update_where_ballI)
    show "\<forall>f \<in> set (fences db). f_settled_at f \<noteq> None \<longrightarrow> (\<exists>x \<in> set (insert_or_ignore acks_ok a (acks db)). a_ack x = f_ack f)"
      using ai insert_or_ignore_mono [of "acks db" acks_ok a] unfolding acks_inv_def by blast
  qed (use here in \<open>simp add: g\<close>)
  ultimately show ?thesis unfolding acks_inv_def by blast
qed

lemma settle_good:
  assumes inv: "pickup_db_inv db"
  shows "good_step db (snd (settle_task_cancellation_sqlite X cf rec acknowledgement now db))"
proof -
  define m where "m = encode_timestamp now"
  define a where "a = \<lparr>a_ack = cf_ack cf, a_acknowledgement = encode_bytes X acknowledgement, a_staged_at = m, a_forwarded_at = None\<rparr>"
  define fs where "fs = update_where (\<lambda>f. f_ack f = cf_ack cf) (settled_fence rec m) (fences db)"
  note parts = inv [unfolded pickup_db_inv_def]
  have fs_ok: "fences_ok fs" unfolding fs_def using parts by (intro seal_ok settled_fence_seals) simp
  have good: "good_step db (db\<lparr>outcomes := os, fences := fs, acks := insert_or_ignore acks_ok a (acks db)\<rparr>)"
    if os: "os = outcomes db \<or> os = insert_select outcomes_ok (settlement_rows (cf_ack cf) rec m db) (outcomes db)"
      and ex: "acks_ok (acks db @ [a]) \<Longrightarrow> \<exists>f \<in> set fs. f_ack f = cf_ack cf" for os
  proof -
    have "outcomes_inv (dispatches db) fs os"
      using os parts settle_outcomes [OF inv, of "cf_ack cf" rec m] unfolding fs_def
      by (auto intro: seal_outcomes settled_fence_seals)
    moreover have "terminals_inv (outbox db) os" "outcomes_ok os" "set (outcomes db) \<subseteq> set os"
      using os parts settle_terminals [OF inv, of "cf_ack cf" rec m] by (auto intro: insert_select_chk dest: subsetD [OF insert_select_mono])
    moreover have "\<exists>f \<in> set (fences db). f_ack f = a_ack a" if "acks_ok (acks db @ [a])"
      using ex [OF that] unfolding fs_def table_simps a_def by (auto split: if_splits)
    then have "acks_inv fs (insert_or_ignore acks_ok a (acks db))"
      using settle_acks [OF inv refl, of a rec m] unfolding fs_def by (simp add: a_def)
    moreover have "list_all (fence_bound (dispatches db)) fs" "rows_le fence_le (fences db) fs"
      unfolding fs_def using parts by (auto intro: seal_bound seal_le settled_fence_seals)
    ultimately show ?thesis
      using parts fs_ok
      by (auto simp: good_step_def pickup_db_inv_def pickup_db_le_def
          intro: insert_or_ignore_chk rows_le_superset dest: subsetD [OF insert_or_ignore_mono])
  qed
  have upd: "sql_update fences_ok (\<lambda>f. f_ack f = cf_ack cf)
      (\<lambda>f. f\<lparr>f_reconciliation := coalesce (f_reconciliation f) (reconciliation_as_str rec),
             f_settled_at := coalesce (f_settled_at f) m\<rparr>) (fences db) = Some fs"
    using fs_ok unfolding fs_def by (simp add: sql_update_def settled_fence_def [abs_def] Let_def)
  have split: "good_step db (snd (case settled of Inl e \<Rightarrow> (Inl e, db) | Inr so \<Rightarrow>
      (if length (insert_or_ignore acks_ok a (acks db)) \<noteq> length (acks db) \<and> \<not> list_ex (\<lambda>f. f_ack f = cf_ack cf) fs
       then (Inl sqlx_constraint_error, db) else (Inr (v so), db\<lparr>outcomes := os, fences := fs, acks := insert_or_ignore acks_ok a (acks db)\<rparr>))))"
    if "os = outcomes db \<or> os = insert_select outcomes_ok (settlement_rows (cf_ack cf) rec m db) (outcomes db)"
    for settled :: "'z pickup_result" and v :: "'z \<Rightarrow> terminal_election option" and os
    using inv good [OF that] by (auto simp: list_ex_iff split: sum.split)
  show ?thesis
    unfolding settle_task_cancellation_sqlite_def m_def [symmetric] Let_def upd a_def [symmetric] option.case
    by (rule split) (simp split: option.split)
qed

section \<open>The store as a monotone system\<close>

lemmas sqlite_good = stage_good reject_good claim_good arm_good started_good renew_good register_good
  elect_good mark_event_good commit_good notified_good settle_good ack_forwarded_good

lemmas pickup_methods = stage_task_dispatch_def reject_task_dispatch_def claim_task_pickup_def
  arm_task_pickup_liveness_def stage_task_started_def renew_task_pickup_liveness_def
  register_task_pickup_liveness_failure_def elect_task_pickup_terminal_def mark_task_event_forwarded_def
  commit_task_cancellation_fence_def mark_task_cancellation_owner_notified_def
  settle_task_cancellation_def mark_task_cancellation_ack_forwarded_def

definition good_pool_step :: "pickup_pool \<Rightarrow> pickup_pool \<Rightarrow> bool" where
  "good_pool_step s t \<longleftrightarrow> pickup_inv t \<and> pickup_le s t"

lemma good_pool_refl [simp]: "pickup_inv s \<Longrightarrow> good_pool_step s s"
  by (simp add: good_pool_step_def pickup_le_refl)

lemma on_sqlite_good:
  "pickup_inv s \<Longrightarrow> (\<And>db. pickup_db_inv db \<Longrightarrow> good_step db (snd (f db))) \<Longrightarrow> good_pool_step s (snd (on_sqlite e f s))"
  by (cases s) (simp_all add: pickup_inv_def pickup_le_def good_step_def good_pool_step_def)

lemma exec_pickup_good: "pickup_inv s \<Longrightarrow> good_pool_step s (exec_pickup X a s)"
  by (cases a) (simp_all add: pickup_methods on_sqlite_good sqlite_good split: sum.split)

interpretation pickup: op_monotone "exec_pickup X" pickup_inv pickup_le
proof unfold_locales
  show "\<And>s a. pickup_inv s \<Longrightarrow> pickup_inv (exec_pickup X a s)"
    using exec_pickup_good good_pool_step_def by blast
  show "\<And>s a. pickup_inv s \<Longrightarrow> pickup_le s (exec_pickup X a s)"
    using exec_pickup_good good_pool_step_def by blast
qed (rule pickup_le_refl, erule (1) pickup_le_trans)

lemma run_pickup_inv: "pickup_inv s \<Longrightarrow> pickup_inv (run_pickup X ops s)"
  unfolding run_pickup_def by (rule pickup.run_inv)

lemma run_pickup_le: "pickup_inv s \<Longrightarrow> pickup_le s (run_pickup X ops s)"
  unfolding run_pickup_def by (rule pickup.run_le)

lemma empty_pickup_inv: "pickup_db_inv empty_pickup_db"
  by (simp add: pickup_db_inv_def empty_pickup_db_def dispatches_ok_def outbox_ok_def
      quarantine_ok_def outcomes_ok_def fences_ok_def acks_ok_def generations_inv_def events_inv_def
      terminals_inv_def outcomes_inv_def quarantine_inv_def acks_inv_def)

lemma exec_sqliteE:
  assumes "pickup_db_inv db"
  obtains db' where "exec_pickup X a (SqlitePool db) = SqlitePool db'" "pickup_db_inv db'" "pickup_db_le db db'"
  using exec_pickup_good [of "SqlitePool db" X a] assms
  by (auto simp: good_pool_step_def pickup_le_def pickup_inv_def split: backend_pool.splits)

lemma run_sqlite_cases:
  assumes "pickup_db_inv db"
  obtains db' where "run_pickup X ops (SqlitePool db) = SqlitePool db'" "pickup_db_inv db'" "pickup_db_le db db'"
  using run_pickup_le [of "SqlitePool db" X ops] run_pickup_inv [of "SqlitePool db" X ops] assms
  by (auto simp: pickup_le_def pickup_inv_def split: backend_pool.splits)

end
