(* ===== verification/Pickup_Stored.thy ===== *)
theory Pickup_Stored
  imports Pickup_Steps
begin

text \<open>
  The byte columns of the pickup store hold JSON arrays of bytes only, so that every read decodes and
  gives back the bytes that were written; and the operations that read the store, characterised in a
  store that satisfies the invariant.
\<close>

section \<open>Byte columns\<close>

definition stored_bytes :: "'n externals \<Rightarrow> string \<Rightarrow> bool" where
  "stored_bytes X s = (case bytes_of_json_text X s of Inl _ \<Rightarrow> False | Inr bs \<Rightarrow> encode_bytes X bs = s)"

definition stored_db :: "'n externals \<Rightarrow> pickup_db \<Rightarrow> bool" where
  "stored_db X db \<longleftrightarrow> list_all (\<lambda>d. stored_bytes X (d_payload d)) (dispatches db)
     \<and> list_all (\<lambda>e. stored_bytes X (e_event e)) (outbox db)
     \<and> list_all (\<lambda>a. stored_bytes X (a_acknowledgement a)) (acks db)"

definition stored_inv :: "'n externals \<Rightarrow> pickup_pool \<Rightarrow> bool" where
  "stored_inv X s = (case s of PostgresPool \<Rightarrow> True | SqlitePool db \<Rightarrow> stored_db X db)"

lemma stored_encode [simp]: "serde_bytes_roundtrip X \<Longrightarrow> stored_bytes X (encode_bytes X bs)"
  by (simp add: stored_bytes_def codec_simps)

lemma stored_decode: "stored_bytes X s \<Longrightarrow> \<exists>bs. decode_bytes X s = Inr bs \<and> encode_bytes X bs = s"
  by (simp add: stored_bytes_def decode_bytes_def split: sum.splits)

lemma list_all_update_where:
  "list_all Q t \<Longrightarrow> (\<And>r. Q r \<Longrightarrow> Q (f r)) \<Longrightarrow> list_all Q (update_where P f t)"
  by (auto simp: list_all_iff table_simps)

lemma list_all_insert_or_ignore:
  "list_all Q t \<Longrightarrow> Q r \<Longrightarrow> list_all Q (insert_or_ignore chk r t)"
  by (simp add: insert_or_ignore_def)

lemma list_all_insert_select:
  "list_all Q t \<Longrightarrow> list_all Q rs \<Longrightarrow> list_all Q (insert_select chk rs t)"
  using insert_select_set [of chk rs t] by (auto simp: list_all_iff)

lemmas stored_intros = list_all_update_where list_all_insert_or_ignore list_all_insert_select

lemma stored_insert_event:
  "insert_event e db = Some db' \<Longrightarrow> stored_db X db \<Longrightarrow> stored_bytes X (e_event e) \<Longrightarrow> stored_db X db'"
  by (auto simp: insert_event_def sql_insert_Some stored_db_def split: if_splits)

lemma stored_sqlite:
  assumes X: "serde_bytes_roundtrip X" and db: "stored_db X db"
  shows "stored_db X (snd (stage_task_dispatch_sqlite X key payload task wfi now db))"
    "stored_db X (snd (reject_task_dispatch_sqlite key reason now db))"
    "stored_db X (snd (claim_task_pickup_sqlite X i db))"
    "stored_db X (snd (arm_task_pickup_liveness_sqlite c deadline now db))"
    "stored_db X (snd (stage_task_started_sqlite X c started now db))"
    "stored_db X (snd (renew_task_pickup_liveness_sqlite c deadline now db))"
    "stored_db X (snd (register_liveness_failure_sqlite c now db))"
    "stored_db X (snd (elect_task_pickup_terminal_sqlite X c outc ev now db))"
    "stored_db X (snd (mark_task_event_forwarded_sqlite X pe now db))"
    "stored_db X (snd (commit_task_cancellation_fence_sqlite X ack t w now db))"
    "stored_db X (snd (mark_task_cancellation_owner_notified_sqlite cf now db))"
    "stored_db X (snd (settle_task_cancellation_sqlite X cf rec acknowledgement now db))"
    "stored_db X (snd (mark_task_cancellation_ack_forwarded_sqlite X pa now db))"
  subgoal using X db by (auto simp: stage_task_dispatch_sqlite_def Let_def stored_db_def
        intro!: list_all_insert_or_ignore split: option.splits)
  subgoal using db by (auto simp: reject_task_dispatch_sqlite_def Let_def stored_db_def sql_update_Some
        intro!: list_all_update_where split: option.splits)
  subgoal using X db by (auto simp: claim_task_pickup_sqlite_def Let_def stored_db_def sql_update_Some
        intro!: list_all_update_where elim!: stored_insert_event [unfolded stored_db_def] split: option.splits)
  subgoal using db by (auto simp: arm_task_pickup_liveness_sqlite_def Let_def stored_db_def sql_update_Some
        intro!: list_all_update_where split: option.splits)
  subgoal using X db by (auto simp: stage_task_started_sqlite_def Let_def stored_db_def
        intro!: list_all_insert_select) (auto simp: list_all_iff)
  subgoal using db by (auto simp: renew_task_pickup_liveness_sqlite_def Let_def stored_db_def sql_update_Some
        intro!: list_all_update_where split: option.splits)
  subgoal using db by (auto simp: register_liveness_failure_sqlite_def Let_def stored_db_def sql_update_Some
        intro!: list_all_update_where split: option.splits)
  subgoal using X db by (auto simp: elect_task_pickup_terminal_sqlite_def Let_def stored_db_def
        elim!: stored_insert_event [unfolded stored_db_def] split: option.splits)
  subgoal using db by (auto simp: mark_task_event_forwarded_sqlite_def Let_def stored_db_def sql_update_Some
        intro!: list_all_update_where split: option.splits)
  subgoal using db by (auto simp: commit_task_cancellation_fence_sqlite_def Let_def stored_db_def
        split: option.splits sum.splits)
  subgoal using db by (auto simp: mark_task_cancellation_owner_notified_sqlite_def Let_def stored_db_def
        split: option.splits)
  subgoal using X db by (auto simp: settle_task_cancellation_sqlite_def Let_def stored_db_def
        intro!: list_all_insert_or_ignore split: option.splits sum.splits)
  subgoal using db by (auto simp: mark_task_cancellation_ack_forwarded_sqlite_def Let_def stored_db_def sql_update_Some
        intro!: list_all_update_where split: option.splits)
  done

lemma on_sqlite_stored:
  "stored_inv X s \<Longrightarrow> (\<And>db. stored_db X db \<Longrightarrow> stored_db X (snd (f db))) \<Longrightarrow> stored_inv X (snd (on_sqlite e f s))"
  by (cases s) (simp_all add: stored_inv_def)

interpretation stored: op_system "exec_pickup X" "\<lambda>s. serde_bytes_roundtrip X \<longrightarrow> stored_inv X s"
proof
  fix s a assume "serde_bytes_roundtrip X \<longrightarrow> stored_inv X s"
  then show "serde_bytes_roundtrip X \<longrightarrow> stored_inv X (exec_pickup X a s)"
    by (cases a) (auto simp: pickup_methods on_sqlite_stored stored_sqlite split: sum.split)
qed

lemma run_pickup_stored: "serde_bytes_roundtrip X \<Longrightarrow> stored_inv X s \<Longrightarrow> stored_inv X (run_pickup X ops s)"
  unfolding run_pickup_def using stored.run_inv by blast

lemma empty_stored: "stored_inv X (SqlitePool empty_pickup_db)"
  by (simp add: stored_inv_def stored_db_def empty_pickup_db_def)

section \<open>Recorded outcomes\<close>

definition recorded :: "pickup_db \<Rightarrow> string \<Rightarrow> int \<Rightarrow> terminal_outcome option" where
  "recorded db k g = (case outcome_at db k g of
      None \<Rightarrow> None
    | Some r \<Rightarrow> (case parse_terminal_outcome (o_outcome r) of Inl _ \<Rightarrow> None | Inr t \<Rightarrow> Some t))"

lemma outcome_atD: "outcome_at db k g = Some r \<Longrightarrow> r \<in> set (outcomes db) \<and> o_key r = k \<and> o_generation r = g"
  unfolding outcome_at_def by (auto dest: find_SomeD)

lemma outcome_at_iff:
  assumes "pickup_db_inv db"
  shows "outcome_at db k g = Some r \<longleftrightarrow> r \<in> set (outcomes db) \<and> o_key r = k \<and> o_generation r = g"
  unfolding outcome_at_def
  by (rule find_Some_iff_key [of "\<lambda>r. (o_key r, o_generation r)" _ _ "(k, g)"])
     (use assms in \<open>auto simp: pickup_db_inv_def outcomes_ok_def\<close>)

lemma outcome_at_parse:
  assumes "pickup_db_inv db" "outcome_at db k g = Some r"
  shows "\<exists>t. o_outcome r = outcome_as_str t"
  using assms outcome_atD stored_outcome unfolding pickup_db_inv_def by blast

lemma recorded_eq:
  "pickup_db_inv db \<Longrightarrow> recorded db k g = Some t \<longleftrightarrow> (\<exists>r. outcome_at db k g = Some r \<and> o_outcome r = outcome_as_str t)"
  unfolding recorded_def
  by (auto simp: outcome_as_str_inj split: option.splits sum.splits dest!: outcome_at_parse)

lemma recorded_None: "pickup_db_inv db \<Longrightarrow> recorded db k g = None \<longleftrightarrow> outcome_at db k g = None"
  unfolding recorded_def by (auto split: option.splits sum.splits dest!: outcome_at_parse)

lemma recorded_generation:
  assumes "pickup_db_inv db" "recorded db k g = Some t" shows "g = 1"
proof -
  from assms obtain r where "r \<in> set (outcomes db)" "o_generation r = g"
    by (auto simp: recorded_eq dest: outcome_atD)
  with assms(1) show ?thesis by (auto simp: pickup_db_inv_def outcomes_inv_def)
qed

lemma outcome_at_mono:
  "pickup_db_inv db' \<Longrightarrow> pickup_db_le db db' \<Longrightarrow> outcome_at db k g = Some r \<Longrightarrow> outcome_at db' k g = Some r"
  by (auto simp: outcome_at_iff pickup_db_le_def dest: outcome_atD)

lemma recorded_mono:
  assumes "pickup_db_inv db" "pickup_db_inv db'" "pickup_db_le db db'" "recorded db k g = Some t"
  shows "recorded db' k g = Some t"
  using assms outcome_at_mono by (auto simp: recorded_eq)

section \<open>Settlements\<close>

definition settlement_row :: "string \<Rightarrow> cancellation_reconciliation \<Rightarrow> micros \<Rightarrow> outcome_row" where
  "settlement_row k rec m = \<lparr>o_key = k, o_generation = 1,
     o_outcome = outcome_as_str (reconciliation_terminal_outcome rec), o_settled_at = m\<rparr>"

lemma settlement_rows_bound:
  assumes inv: "pickup_db_inv db" and f: "f \<in> set (fences db)" "f_key f = Some (d_key d)" and d: "d \<in> set (dispatches db)"
  shows "settlement_rows (f_ack f) rec m db = (if d_state d = Rejected then [] else [settlement_row (d_key d) rec m])"
proof -
  note parts = inv [unfolded pickup_db_inv_def]
  have bound: "f_generation f = Some 1" "f_owner f = d_owner d"
    using parts f d by (auto simp: list_all_iff fence_bound_def dest!: bspec dest: dispatch_key_unique)
  have gen: "d_generation d = (if d_state d = Claimed then 1 else 0)" and chk: "dispatch_check d"
    using parts d by (auto simp: generations_inv_def dispatches_ok_def list_all_iff)
  let ?h = "\<lambda>d. if sql_eq (f_key f) (Some (d_key d))
        \<and> ((d_state d = Claimed \<and> sql_eq (f_generation f) (Some (d_generation d)) \<and> sql_eq (d_owner d) (f_owner f))
          \<or> (d_state d = Pending \<and> sql_eq (f_generation f) (Some (d_generation d + 1)) \<and> f_owner f = None))
        then [\<lparr>o_key = d_key d, o_generation = the (f_generation f),
               o_outcome = outcome_as_str (reconciliation_terminal_outcome rec), o_settled_at = m\<rparr>] else []"
  have "settlement_rows (f_ack f) rec m db = concat (map ?h (dispatches db))"
    unfolding settlement_rows_def
    by (subst concat_map_key [of f_ack _ _ f]) (use parts f in \<open>auto simp: fences_ok_def\<close>)
  also have "\<dots> = ?h d"
    by (rule concat_map_key [of d_key]) (use parts d f in \<open>auto simp: dispatches_ok_def split: if_splits\<close>)
  also have "\<dots> = (if d_state d = Rejected then [] else [settlement_row (d_key d) rec m])"
    using f bound gen chk by (cases "d_state d") (auto simp: settlement_row_def dispatch_check_def)
  finally show ?thesis .
qed

definition settled_fences :: "string \<Rightarrow> cancellation_reconciliation \<Rightarrow> micros \<Rightarrow> fence_row list \<Rightarrow> fence_row list" where
  "settled_fences ack rec m fs = update_where (\<lambda>f. f_ack f = ack) (settled_fence rec m) fs"

definition staged_acks :: "'n externals \<Rightarrow> string \<Rightarrow> bytes \<Rightarrow> micros \<Rightarrow> ack_row list \<Rightarrow> ack_row list" where
  "staged_acks X ack bs m as = insert_or_ignore acks_ok
     \<lparr>a_ack = ack, a_acknowledgement = encode_bytes X bs, a_staged_at = m, a_forwarded_at = None\<rparr> as"

lemma settle_update:
  "pickup_db_inv db \<Longrightarrow> sql_update fences_ok (\<lambda>f. f_ack f = ack)
      (\<lambda>f. f\<lparr>f_reconciliation := coalesce (f_reconciliation f) (reconciliation_as_str rec),
             f_settled_at := coalesce (f_settled_at f) m\<rparr>) (fences db) = Some (settled_fences ack rec m (fences db))"
  unfolding settled_fences_def sql_update_Some
  by (rule conjI, simp add: settled_fence_def [abs_def], rule seal_ok)
     (simp_all add: pickup_db_inv_def settled_fence_seals)

lemma settled_fences_ex:
  "f \<in> set fs \<Longrightarrow> f_ack f = ack \<Longrightarrow> list_ex (\<lambda>f. f_ack f = ack) (settled_fences ack rec m fs)"
  unfolding settled_fences_def list_ex_iff table_simps by (rule bexI [of _ f]) auto

lemma bound_fenceE:
  assumes "pickup_db_inv db" "f \<in> set (fences db)" "f_key f = Some k"
  obtains d where "f_generation f = Some 1" "d \<in> set (dispatches db)" "d_key d = k"
    "d_task d = Some (f_task f)" "d_workflow d = Some (f_workflow f)" "f_owner f = d_owner d"
proof -
  have "fence_bound (dispatches db) f" using assms by (simp add: pickup_db_inv_def list_all_iff)
  with assms(3) that show ?thesis by (auto simp: fence_bound_def)
qed

text \<open>What a settlement adds to the outcomes: a row for the generation the fence is bound to, when
  nothing is recorded for it and its dispatch was not rejected.\<close>

definition settlement_new :: "pickup_db \<Rightarrow> fence_row \<Rightarrow> cancellation_reconciliation \<Rightarrow> micros \<Rightarrow> outcome_row list" where
  "settlement_new db f rec m = (case f_key f of
      None \<Rightarrow> []
    | Some k \<Rightarrow> if recorded db k 1 = None \<and> \<not> list_ex (\<lambda>d. d_key d = k \<and> d_state d = Rejected) (dispatches db)
               then [settlement_row k rec m] else [])"

lemma settlement_rows_unbound:
  assumes "\<And>f. f \<in> set (fences db) \<Longrightarrow> f_ack f = a \<Longrightarrow> f_key f = None"
  shows "settlement_rows a rec m db = []"
  using assms by (auto simp: settlement_rows_def)

lemma settlement_insert:
  assumes inv: "pickup_db_inv db" and f: "f \<in> set (fences db)"
  shows "insert_select outcomes_ok (settlement_rows (f_ack f) rec m db) (outcomes db) = outcomes db @ settlement_new db f rec m"
proof (cases "f_key f")
  case None
  have "settlement_rows (f_ack f) rec m db = []"
    using inv f None by (intro settlement_rows_unbound) (auto simp: pickup_db_inv_def dest: fence_ack_unique)
  with None show ?thesis by (simp add: insert_select_def settlement_new_def)
next
  case (Some k)
  with inv f obtain d where d: "d \<in> set (dispatches db)" "d_key d = k" by (rule bound_fenceE)
  have rej: "list_ex (\<lambda>d. d_key d = k \<and> d_state d = Rejected) (dispatches db) \<longleftrightarrow> d_state d = Rejected"
    using inv d by (auto simp: list_ex_iff pickup_db_inv_def dest: dispatch_key_unique)
  have ok: "outcomes_ok (outcomes db @ [settlement_row k rec m]) \<longleftrightarrow> recorded db k 1 = None"
    using inv by (auto simp: outcomes_ok_snoc settlement_row_def recorded_None [OF inv] outcome_at_def find_None_iff pickup_db_inv_def)
  show ?thesis
    using settlement_rows_bound [OF inv f _ d(1), of rec m] Some d(2) rej ok
    by (simp add: settlement_new_def insert_select_def insert_or_ignore_def)
qed

lemma staged_acks_eq:
  "acks_ok as \<Longrightarrow> staged_acks X a bs m as = (if list_ex (\<lambda>x. a_ack x = a) as then as
     else as @ [\<lparr>a_ack = a, a_acknowledgement = encode_bytes X bs, a_staged_at = m, a_forwarded_at = None\<rparr>])"
  by (auto simp: staged_acks_def insert_or_ignore_def acks_ok_def list_ex_iff image_iff)

lemma recorded_parse:
  assumes "list_all (\<lambda>r. \<exists>t. o_outcome r = outcome_as_str t) os"
  shows "transpose_map parse_terminal_outcome (map_option o_outcome (find (\<lambda>r. o_key r = k \<and> o_generation r = g) os))
    = Inr (recorded (db\<lparr>outcomes := os, fences := fs, acks := as\<rparr>) k g)"
  using assms
  by (auto simp: recorded_def outcome_at_def transpose_map_def list_all_iff split: option.splits dest!: find_SomeD)

lemma outcomes_parse:
  assumes "pickup_db_inv db"
  shows "list_all (\<lambda>r. \<exists>t. o_outcome r = outcome_as_str t) (outcomes db @ settlement_new db f rec m)"
proof -
  have "\<exists>t. o_outcome r = outcome_as_str t" if "r \<in> set (outcomes db)" for r
    using assms that stored_outcome unfolding pickup_db_inv_def by blast
  then show ?thesis by (auto simp: list_all_iff settlement_new_def settlement_row_def split: option.splits)
qed

text \<open>A settlement on every branch, for any fence value a caller passes.\<close>

lemma settle_known:
  assumes inv: "pickup_db_inv db" and f: "f \<in> set (fences db)" "f_ack f = cf_ack cf"
    and new: "new = (if cf_dispatch_key cf = None \<or> cf_generation cf = None then [] else settlement_new db f rec (encode_timestamp now))"
    and db': "db' = db\<lparr>outcomes := outcomes db @ new,
       fences := settled_fences (cf_ack cf) rec (encode_timestamp now) (fences db),
       acks := staged_acks X (cf_ack cf) bs (encode_timestamp now) (acks db)\<rparr>"
  shows "settle_task_cancellation_sqlite X cf rec bs now db =
    (Inr (case (cf_dispatch_key cf, cf_generation cf) of
            (Some k, Some g) \<Rightarrow> map_option (\<lambda>t. if new \<noteq> [] \<and> k \<noteq> [] \<and> 0 < g then Won else Settled t) (recorded db' k g)
          | _ \<Rightarrow> None), db')"
proof -
  note simps = settle_task_cancellation_sqlite_def Let_def settle_update [OF inv] settled_fences_ex [OF f]
  show ?thesis
  proof (cases "cf_dispatch_key cf = None \<or> cf_generation cf = None")
    case True
    then show ?thesis
      by (cases "cf_dispatch_key cf"; cases "cf_generation cf") (simp_all add: simps new db' staged_acks_def)
  next
    case False
    then obtain k g where cf: "cf_dispatch_key cf = Some k" "cf_generation cf = Some g" by auto
    then have n: "new = settlement_new db f rec (encode_timestamp now)" by (simp add: new)
    have "length new \<le> 1" by (simp add: n settlement_new_def split: option.split)
    then have one: "length new = Suc 0 \<longleftrightarrow> new \<noteq> []" by (cases new) auto
    note ins = settlement_insert [OF inv f(1), of rec "encode_timestamp now", unfolded f(2), folded n]
    have parse: "transpose_map parse_terminal_outcome (map_option o_outcome
        (find (\<lambda>r. o_key r = k \<and> o_generation r = g) (outcomes db @ new))) = Inr (recorded db' k g)"
      unfolding db' by (rule recorded_parse) (unfold n, rule outcomes_parse [OF inv])
    show ?thesis
      unfolding settle_task_cancellation_sqlite_def Let_def cf prod.case option.case ins parse sum.case settle_update [OF inv]
      using settled_fences_ex [OF f, of rec "encode_timestamp now"] by (simp add: db' one staged_acks_def)
  qed
qed

lemma settle_unknown:
  assumes inv: "pickup_db_inv db" and f: "find (\<lambda>f. f_ack f = cf_ack cf) (fences db) = None"
  shows "settle_task_cancellation_sqlite X cf rec bs now db = (Inl sqlx_constraint_error, db)"
proof -
  let ?as = "staged_acks X (cf_ack cf) bs (encode_timestamp now) (acks db)"
  have no: "f_ack f \<noteq> cf_ack cf" if "f \<in> set (fences db)" for f using f that by (auto simp: find_None_iff)
  then have none: "\<not> list_ex (\<lambda>f. f_ack f = cf_ack cf) (settled_fences (cf_ack cf) rec (encode_timestamp now) (fences db))"
    by (auto simp: list_ex_iff settled_fences_def update_where_def)
  have "a_ack a \<noteq> cf_ack cf" if "a \<in> set (acks db)" for a
    using inv that no by (fastforce simp: pickup_db_inv_def acks_inv_def)
  then have "length ?as \<noteq> length (acks db)"
    using inv by (auto simp: staged_acks_eq pickup_db_inv_def list_ex_iff)
  note long = this
  have ins: "insert_select outcomes_ok (settlement_rows (cf_ack cf) rec (encode_timestamp now) db) (outcomes db) = outcomes db"
    using no by (subst settlement_rows_unbound) (auto simp: insert_select_def)
  have "list_all (\<lambda>r. \<exists>t. o_outcome r = outcome_as_str t) (outcomes db)"
    using inv stored_outcome unfolding pickup_db_inv_def by (auto simp: list_all_iff)
  note parse = recorded_parse [OF this, where db = db and fs = "fences db" and as = "acks db"]
  show ?thesis
    unfolding settle_task_cancellation_sqlite_def Let_def ins settle_update [OF inv] staged_acks_def [symmetric]
    using none long by (cases "cf_dispatch_key cf"; cases "cf_generation cf") (simp_all add: parse)
qed

lemma recorded_settlement:
  assumes inv: "pickup_db_inv db" and "recorded db k 1 = None"
  shows "recorded (db\<lparr>outcomes := outcomes db @ [settlement_row k rec m]\<rparr>) k 1
    = Some (reconciliation_terminal_outcome rec)"
proof -
  have "outcome_at db k 1 = None" using assms by (simp add: recorded_None)
  then show ?thesis by (simp add: recorded_def outcome_at_def find_snoc settlement_row_def)
qed

lemma recorded_irrelevant [simp]: "recorded (db\<lparr>fences := fs, acks := as\<rparr>) k g = recorded db k g"
  by (simp add: recorded_def outcome_at_def)

text \<open>What a settlement does, for a fence read from the store: the recorded outcome decides it, else the
  reconciliation is recorded; a rejected dispatch has no generation to settle.\<close>

lemma settle_eq:
  assumes inv: "pickup_db_inv db" and f: "f \<in> set (fences db)" "f_ack f = cf_ack cf" "f_key f = Some (d_key d)"
    and d: "d \<in> set (dispatches db)" "d_key d \<noteq> []" and cf: "cf_dispatch_key cf = Some (d_key d)" "cf_generation cf = Some 1"
  shows "settle_task_cancellation_sqlite X cf rec bs now db =
    (Inr (case recorded db (d_key d) 1 of
            Some t \<Rightarrow> Some (Settled t)
          | None \<Rightarrow> if d_state d = Rejected then None else Some Won),
     db\<lparr>outcomes := (if recorded db (d_key d) 1 = None \<and> d_state d \<noteq> Rejected
                     then outcomes db @ [settlement_row (d_key d) rec (encode_timestamp now)] else outcomes db),
        fences := settled_fences (cf_ack cf) rec (encode_timestamp now) (fences db),
        acks := staged_acks X (cf_ack cf) bs (encode_timestamp now) (acks db)\<rparr>)"
proof -
  have "list_ex (\<lambda>x. d_key x = d_key d \<and> d_state x = Rejected) (dispatches db) \<longleftrightarrow> d_state d = Rejected"
    using inv d(1) by (auto simp: list_ex_iff pickup_db_inv_def dest: dispatch_key_unique)
  then have new: "settlement_new db f rec (encode_timestamp now) =
      (if recorded db (d_key d) 1 = None \<and> d_state d \<noteq> Rejected then [settlement_row (d_key d) rec (encode_timestamp now)] else [])"
    using f(3) by (simp add: settlement_new_def)
  show ?thesis
    unfolding settle_known [OF inv f(1,2) refl refl]
    using cf d(2) recorded_settlement [OF inv, where k = "d_key d"]
    by (cases "recorded db (d_key d) 1") (auto simp: new)
qed

lemma settle_unbound_eq:
  assumes inv: "pickup_db_inv db" and f: "f \<in> set (fences db)" "f_ack f = cf_ack cf" and cf: "cf_dispatch_key cf = None"
  shows "settle_task_cancellation_sqlite X cf rec bs now db =
    (Inr None, db\<lparr>fences := settled_fences (cf_ack cf) rec (encode_timestamp now) (fences db),
                  acks := staged_acks X (cf_ack cf) bs (encode_timestamp now) (acks db)\<rparr>)"
  unfolding settle_known [OF inv f refl refl] by (simp add: cf)

end
