(* ===== verification/Pickup_Properties.thy ===== *)
theory Pickup_Properties
  imports Pickup_Stored
begin

text \<open>
  The properties of the pickup store: what holds along every sequence of operations of any number of
  callers, and what each operation does on every branch.
\<close>

section \<open>Elections along a run\<close>

text \<open>The generation that the stored fence of an acknowledgement is bound to.\<close>

definition fenced_generation :: "string \<Rightarrow> pickup_pool \<Rightarrow> (string \<times> int) option" where
  "fenced_generation a s = (case s of
      PostgresPool \<Rightarrow> None
    | SqlitePool db \<Rightarrow> (case find (\<lambda>f. f_ack f = a) (fences db) of
        None \<Rightarrow> None
      | Some f \<Rightarrow> (case (f_key f, f_generation f) of (Some k, Some g) \<Rightarrow> Some (k, g) | _ \<Rightarrow> None)))"

text \<open>A call wins generation \<open>g\<close> of dispatch \<open>k\<close>: an election for it, or a settlement whose
  acknowledgement has its fence there, is answered \<open>Won\<close>.\<close>

fun wins :: "'n externals \<Rightarrow> string \<Rightarrow> int \<Rightarrow> pickup_op \<Rightarrow> pickup_pool \<Rightarrow> bool" where
  "wins X k g (ElectTerminal c t ev now) s =
     (c_dispatch_key c = k \<and> c_generation c = g \<and> fst (elect_task_pickup_terminal X c t ev now s) = Inr Won)"
| "wins X k g (SettleCancellation cf rec bs now) s =
     (fenced_generation (cf_ack cf) s = Some (k, g)
      \<and> fst (settle_task_cancellation X cf rec bs now s) = Inr (Some Won))"
| "wins X k g a s = False"

text \<open>How many calls of the sequence won generation \<open>g\<close> of dispatch \<open>k\<close>.\<close>

fun winners :: "'n externals \<Rightarrow> string \<Rightarrow> int \<Rightarrow> pickup_op list \<Rightarrow> pickup_pool \<Rightarrow> nat" where
  "winners X k g [] s = 0"
| "winners X k g (a # ops) s = (if wins X k g a s then 1 else 0) + winners X k g ops (exec_pickup X a s)"

text \<open>A fence value that agrees with the store: the dispatch it names, if any, is the one its row is bound
  to (a fence read before its task was staged names none).\<close>

definition genuine_fence :: "pickup_db \<Rightarrow> cancellation_fence \<Rightarrow> bool" where
  "genuine_fence db cf \<longleftrightarrow> list_ex (\<lambda>f. f_ack f = cf_ack cf \<and>
     (cf_dispatch_key cf = None \<or> (cf_dispatch_key cf = f_key f \<and> cf_generation cf = f_generation f))) (fences db)"

lemma genuine_fenceE:
  assumes "pickup_db_inv db" "genuine_fence db cf" "cf_dispatch_key cf = Some k"
  obtains f d where "f \<in> set (fences db)" "f_ack f = cf_ack cf" "f_key f = Some (d_key d)"
    "d \<in> set (dispatches db)" "d_key d = k" "cf_generation cf = Some 1"
proof -
  from assms(2,3) obtain f where f: "f \<in> set (fences db)" "f_ack f = cf_ack cf" "f_key f = Some k"
    "cf_generation cf = f_generation f" by (auto simp: genuine_fence_def list_ex_iff)
  with assms(1) show ?thesis by (metis bound_fenceE that)
qed

lemma find_fence:
  "pickup_db_inv db \<Longrightarrow> f \<in> set (fences db) \<Longrightarrow> f_ack f = a \<Longrightarrow> find (\<lambda>f. f_ack f = a) (fences db) = Some f"
  by (subst find_Some_iff_key [of f_ack _ _ a]) (auto simp: pickup_db_inv_def fences_ok_def)

text \<open>For such a fence the generation it names is the one it is bound to; it agrees with the store ever after.\<close>

lemma genuine_fence_generation:
  assumes "pickup_db_inv db" "genuine_fence db cf" "cf_dispatch_key cf = Some k"
  shows "fenced_generation (cf_ack cf) (SqlitePool db) = Some (k, 1) \<and> cf_generation cf = Some 1"
proof -
  from assms obtain f d where f: "f \<in> set (fences db)" "f_ack f = cf_ack cf" "f_key f = Some (d_key d)"
    and d: "d \<in> set (dispatches db)" "d_key d = k" "cf_generation cf = Some 1" by (rule genuine_fenceE)
  from assms(1) f(1,3) have "f_generation f = Some 1" by (rule bound_fenceE)
  with f d find_fence [OF assms(1) f(1,2)] show ?thesis by (simp add: fenced_generation_def)
qed

lemma genuine_fence_mono:
  assumes "pickup_db_le db db'" and "genuine_fence db cf"
  shows "genuine_fence db' cf"
proof -
  from assms(2) obtain f where f: "f \<in> set (fences db)" "f_ack f = cf_ack cf"
    "cf_dispatch_key cf = None \<or> (cf_dispatch_key cf = f_key f \<and> cf_generation cf = f_generation f)"
    by (auto simp: genuine_fence_def list_ex_iff)
  with assms(1) obtain f' where "f' \<in> set (fences db')" "fence_le f f'" by (auto simp: pickup_db_le_def rows_le_def)
  with f show ?thesis by (cases "f_key f") (auto simp: genuine_fence_def list_ex_iff fence_le_def)
qed

lemma wins_elect:
  assumes inv: "pickup_db_inv db" and w: "fst (elect_task_pickup_terminal X c t ev now (SqlitePool db)) = Inr Won"
  shows "recorded db (c_dispatch_key c) (c_generation c) = None"
    "\<exists>db'. snd (elect_task_pickup_terminal X c t ev now (SqlitePool db)) = SqlitePool db'
       \<and> recorded db' (c_dispatch_key c) (c_generation c) = Some t"
proof -
  from w obtain kind where kind: "outcome_event_kind t = Some kind"
    by (cases "outcome_event_kind t")
       (auto simp: elect_task_pickup_terminal_def elect_task_pickup_terminal_sqlite_def split: sum.splits)
  from w show *: "recorded db (c_dispatch_key c) (c_generation c) = None"
    by (auto simp: elect_task_pickup_terminal_def elect_eq [OF inv kind] recorded_None [OF inv]
        map_sum_def split: sum.splits option.splits)
  let ?r = "won_outcome c t now"
  have "outcome_at (db\<lparr>outcomes := outcomes db @ [?r], outbox := es\<rparr>) (c_dispatch_key c) (c_generation c) = Some ?r" for es
    using * by (auto simp: recorded_None [OF inv] outcome_at_def find_snoc won_outcome_def)
  then show "\<exists>db'. snd (elect_task_pickup_terminal X c t ev now (SqlitePool db)) = SqlitePool db'
       \<and> recorded db' (c_dispatch_key c) (c_generation c) = Some t"
    using w * by (auto simp: elect_task_pickup_terminal_def elect_eq [OF inv kind] recorded_None [OF inv]
        recorded_def won_outcome_def split: sum.splits option.splits if_splits)
qed

lemma wins_settle:
  assumes inv: "pickup_db_inv db" and w: "fst (settle_task_cancellation X cf rec bs now (SqlitePool db)) = Inr (Some Won)"
  shows "\<exists>k db'. fenced_generation (cf_ack cf) (SqlitePool db) = Some (k, 1) \<and> recorded db k 1 = None
    \<and> snd (settle_task_cancellation X cf rec bs now (SqlitePool db)) = SqlitePool db'
    \<and> recorded db' k 1 = Some (reconciliation_terminal_outcome rec)"
proof (cases "find (\<lambda>f. f_ack f = cf_ack cf) (fences db)")
  case None
  with w show ?thesis by (simp add: settle_task_cancellation_def settle_unknown [OF inv None])
next
  case (Some f)
  then have f: "f \<in> set (fences db)" "f_ack f = cf_ack cf" by (auto dest: find_SomeD)
  let ?new = "settlement_new db f rec (encode_timestamp now)"
  note eq = settle_known [OF inv f refl refl, of X rec bs now]
  from w have cf: "cf_dispatch_key cf \<noteq> None" "cf_generation cf \<noteq> None" and "?new \<noteq> []"
    by (auto simp: settle_task_cancellation_def eq split: option.splits if_splits)
  then obtain k where k: "f_key f = Some k" "recorded db k 1 = None" "?new = [settlement_row k rec (encode_timestamp now)]"
    by (auto simp: settlement_new_def split: option.splits if_splits)
  from inv f(1) k(1) have "f_generation f = Some 1" by (rule bound_fenceE)
  with Some k cf show ?thesis
    by (simp add: settle_task_cancellation_def eq fenced_generation_def recorded_settlement [OF inv])
qed

lemma wins_records:
  assumes inv: "pickup_db_inv db" and w: "wins X k g a (SqlitePool db)"
  shows "recorded db k g = None \<and> (\<exists>db'. exec_pickup X a (SqlitePool db) = SqlitePool db' \<and> recorded db' k g \<noteq> None)"
proof (cases a)
  case (ElectTerminal c t ev now)
  with w wins_elect [OF inv, of X c t ev now] show ?thesis by auto
next
  case (SettleCancellation cf rec bs now)
  with w wins_settle [OF inv, of X cf rec bs now] show ?thesis by auto
qed (use w in simp_all)

lemma winners_bound:
  "pickup_db_inv db \<Longrightarrow> winners X k g ops (SqlitePool db) \<le> (if recorded db k g = None then 1 else 0)"
proof (induction ops arbitrary: db)
  case (Cons a ops)
  have good: "good_pool_step (SqlitePool db) (exec_pickup X a (SqlitePool db))"
    using Cons.prems by (intro exec_pickup_good) (simp add: pickup_inv_def)
  then obtain db' where db': "exec_pickup X a (SqlitePool db) = SqlitePool db'" "pickup_db_inv db'" "pickup_db_le db db'"
    by (auto simp: good_pool_step_def pickup_inv_def pickup_le_def split: backend_pool.splits)
  have IH: "winners X k g ops (SqlitePool db') \<le> (if recorded db' k g = None then 1 else 0)"
    using db' by (intro Cons.IH)
  have mono: "recorded db' k g \<noteq> None" if "recorded db k g \<noteq> None"
    using recorded_mono [OF Cons.prems db'(2,3)] that by auto
  show ?case
  proof (cases "wins X k g a (SqlitePool db)")
    case True
    with wins_records [OF Cons.prems True] IH db' show ?thesis by auto
  next
    case False
    with IH mono db' show ?thesis by (auto split: if_splits)
  qed
qed simp

section \<open>Example stores\<close>

text \<open>Stores reached by concrete sequences of operations, on which the properties are exercised.\<close>

definition store_of :: "pickup_pool \<Rightarrow> pickup_db" where
  "store_of s = (case s of PostgresPool \<Rightarrow> empty_pickup_db | SqlitePool db \<Rightarrow> db)"

definition demo_store :: "pickup_op list \<Rightarrow> pickup_db" where
  "demo_store ops = store_of (run_pickup plain_externals ops (SqlitePool empty_pickup_db))"

definition demo_stage :: pickup_op where
  "demo_stage = StageDispatch ''k'' [7] (Some ''t'') (Some ''w'') 0"

definition demo_input :: claim_task_pickup_input where
  "demo_input = \<lparr>ci_dispatch_key = ''k'', ci_owner = ''o'', ci_deadline = 9000, ci_assigned_event = [1], ci_now = 1000\<rparr>"

definition demo_claim :: task_pickup_claim where
  "demo_claim = \<lparr>c_dispatch_key = ''k'', c_generation = 1, c_owner = ''o'', c_deadline = 9000\<rparr>"

definition demo_fence :: cancellation_fence where
  "demo_fence = \<lparr>cf_ack = ''a'', cf_task = ''t'', cf_workflow = ''w'', cf_dispatch_key = Some ''k'',
     cf_generation = Some 1, cf_owner = Some ''o'', cf_owner_notified = False, cf_deadline = Some 9000, cf_terminal = None\<rparr>"

lemma demo_store_inv: "pickup_db_inv (demo_store ops)"
proof -
  obtain db where "run_pickup plain_externals ops (SqlitePool empty_pickup_db) = SqlitePool db" "pickup_db_inv db"
    using run_sqlite_cases [OF empty_pickup_inv] .
  then show ?thesis by (simp add: demo_store_def store_of_def)
qed

lemma demo_store_stored: "stored_db plain_externals (demo_store ops)"
proof -
  obtain db where "run_pickup plain_externals ops (SqlitePool empty_pickup_db) = SqlitePool db"
    using run_sqlite_cases [OF empty_pickup_inv] .
  with run_pickup_stored [OF plain_externals_roundtrip empty_stored, of ops] show ?thesis
    by (simp add: demo_store_def store_of_def stored_inv_def)
qed

section \<open>Properties\<close>

text \<open>C1. Whatever operations are called in whatever order on a new store, with any arguments, the store
  satisfies its invariant: the table constraints, one generation per dispatch, events only for claimed
  dispatches, a terminal event exactly for the outcome it announces, quarantine exactly for rejected
  dispatches, fences bound to the dispatch of their task and its owner, acknowledgements exactly for
  settled fences.\<close>

theorem pickup_run_invariant: "pickup_inv (run_pickup X ops (SqlitePool empty_pickup_db))"
  by (rule run_pickup_inv) (simp add: pickup_inv_def empty_pickup_inv)

text \<open>C2. A recorded terminal outcome is final: no sequence of operations changes or removes it.\<close>

theorem terminal_outcome_final:
  assumes "pickup_db_inv db" and "outcome_at db k g = Some r"
  shows "\<exists>db'. run_pickup X ops (SqlitePool db) = SqlitePool db' \<and> outcome_at db' k g = Some r"
proof -
  obtain db' where "run_pickup X ops (SqlitePool db) = SqlitePool db'" "pickup_db_inv db'" "pickup_db_le db db'"
    using run_sqlite_cases [OF assms(1)] .
  with assms(2) show ?thesis by (blast intro: outcome_at_mono)
qed

lemma demo_elected:
  "outcome_at (demo_store [demo_stage, Claim demo_input, ElectTerminal demo_claim ProcessExitedSuccess [2] 3000]) ''k'' 1
   = Some \<lparr>o_key = ''k'', o_generation = 1, o_outcome = ''process-exited-success'', o_settled_at = 3\<rparr>"
  by code_simp

theorem terminal_outcome_final_witness:
  "\<exists>db'. run_pickup plain_externals [ElectTerminal demo_claim LivenessExpired [3] 4000]
       (SqlitePool (demo_store [demo_stage, Claim demo_input, ElectTerminal demo_claim ProcessExitedSuccess [2] 3000]))
       = SqlitePool db'
     \<and> outcome_at db' ''k'' 1 = Some \<lparr>o_key = ''k'', o_generation = 1, o_outcome = ''process-exited-success'', o_settled_at = 3\<rparr>"
  by (rule terminal_outcome_final [OF demo_store_inv demo_elected])

text \<open>C3. One winner: among all the elections and cancellation settlements of a sequence of operations, with
  whatever arguments they are called, at most one is answered that it won a given generation of a
  dispatch, and none when an outcome was already recorded for it. A settlement counts for the
  generation the stored fence of its acknowledgement is bound to.\<close>

theorem single_terminal_winner:
  assumes "pickup_db_inv db"
  shows "winners X k g ops (SqlitePool db) \<le> 1
    \<and> (recorded db k g \<noteq> None \<longrightarrow> winners X k g ops (SqlitePool db) = 0)"
  using winners_bound [OF assms, of X k g ops] by (auto split: if_splits)

definition demo_race :: "pickup_op list" where
  "demo_race = [CommitFence ''a'' ''t'' ''w'' 2000, ElectTerminal demo_claim ProcessExitedFailure [2] 3000,
     SettleCancellation demo_fence Killed [4] 4000, ElectTerminal demo_claim LivenessExpired [3] 5000]"

theorem single_terminal_winner_witness:
  "winners plain_externals ''k'' 1 demo_race (SqlitePool (demo_store [demo_stage, Claim demo_input])) = 1"
proof -
  have "winners plain_externals ''k'' 1 demo_race (SqlitePool (demo_store [demo_stage, Claim demo_input])) \<noteq> 0"
    by code_simp
  with single_terminal_winner [OF demo_store_inv, of plain_externals "''k''" 1 demo_race "[demo_stage, Claim demo_input]"]
  show ?thesis by simp
qed

lemma claim_committed:
  assumes inv: "pickup_db_inv db" and "fst (claim_task_pickup X i (SqlitePool db)) = Inr (Committed c)"
  obtains d where "c = claim_of i" "d \<in> set (dispatches db)" "claimable db (ci_dispatch_key i) d"
    "snd (claim_task_pickup X i (SqlitePool db)) =
       SqlitePool (db\<lparr>dispatches := update_where (claimable db (ci_dispatch_key i)) (claimed_row i) (dispatches db),
                     outbox := outbox db @ [assigned_row X i]\<rparr>)"
  using assms by (auto simp: claim_task_pickup_def claim_eq [OF inv] split: sum.splits if_splits)

lemma claim_refused:
  assumes inv: "pickup_db_inv db" and d: "d \<in> set (dispatches db)" "d_key d = ci_dispatch_key j"
    and no: "d_state d \<noteq> Pending \<or> fenced db d 1"
  shows "fst (claim_task_pickup X j (SqlitePool db)) \<noteq> Inr (Committed c)"
proof -
  have "\<not> claimable db (ci_dispatch_key j) x" if "x \<in> set (dispatches db)" for x
    using that d no inv by (auto simp: claimable_def pickup_db_inv_def dest: dispatch_key_unique)
  then show ?thesis by (auto simp: claim_task_pickup_def claim_eq [OF inv] split: sum.splits)
qed

lemma claim_committed_row:
  assumes inv: "pickup_db_inv db" and "fst (claim_task_pickup X i (SqlitePool db)) = Inr (Committed c)"
  obtains db1 d e where "snd (claim_task_pickup X i (SqlitePool db)) = SqlitePool db1" "pickup_db_inv db1"
    "d \<in> set (dispatches db1)" "claim_matches c d" "c = claim_of i" "e \<in> set (outbox db1)" "e = assigned_row X i"
proof -
  from assms obtain d where c: "c = claim_of i" and d: "d \<in> set (dispatches db)" "claimable db (ci_dispatch_key i) d"
    and s: "snd (claim_task_pickup X i (SqlitePool db)) =
       SqlitePool (db\<lparr>dispatches := update_where (claimable db (ci_dispatch_key i)) (claimed_row i) (dispatches db),
                     outbox := outbox db @ [assigned_row X i]\<rparr>)" by (rule claim_committed)
  have "pickup_inv (exec_pickup X (Claim i) (SqlitePool db))"
    using inv by (intro pickup.exec_inv) (simp add: pickup_inv_def)
  with s have "pickup_db_inv (db\<lparr>dispatches := update_where (claimable db (ci_dispatch_key i)) (claimed_row i) (dispatches db),
                     outbox := outbox db @ [assigned_row X i]\<rparr>)" by (simp add: pickup_inv_def)
  moreover have "claimed_row i d \<in> set (update_where (claimable db (ci_dispatch_key i)) (claimed_row i) (dispatches db))"
    using update_where_in [OF d(1), of "claimable db (ci_dispatch_key i)" "claimed_row i"] d(2) by simp
  moreover have "claim_matches c (claimed_row i d)"
    using d(2) by (simp add: c claim_of_def claim_matches_def claimed_row_def claimable_def)
  ultimately show ?thesis using s c that [of _ "claimed_row i d" "assigned_row X i"] by simp
qed

lemma claim_matches_le: "claim_matches c d \<Longrightarrow> dispatch_le d d' \<Longrightarrow> claim_matches c d'"
  by (simp add: claim_matches_def dispatch_le_def)

text \<open>C4. Claims are exclusive and kept: once a claim is committed, after any further operations the
  dispatch is still held by that owner in that generation, and no other claim of it commits.\<close>

theorem claim_is_exclusive:
  assumes inv: "pickup_db_inv db" and "fst (claim_task_pickup X i (SqlitePool db)) = Inr (Committed c)"
    and j: "ci_dispatch_key j = ci_dispatch_key i"
  shows "\<exists>db'. run_pickup X ops (snd (claim_task_pickup X i (SqlitePool db))) = SqlitePool db'
    \<and> (\<exists>d \<in> set (dispatches db'). claim_matches c d)
    \<and> fst (claim_task_pickup X j (SqlitePool db')) \<noteq> Inr (Committed c')"
proof -
  from assms(1,2) obtain db1 d e where s: "snd (claim_task_pickup X i (SqlitePool db)) = SqlitePool db1"
    and db1: "pickup_db_inv db1" and d: "d \<in> set (dispatches db1)" "claim_matches c d" and c: "c = claim_of i"
    by (rule claim_committed_row)
  obtain db' where db': "run_pickup X ops (SqlitePool db1) = SqlitePool db'" "pickup_db_inv db'" "pickup_db_le db1 db'"
    using run_sqlite_cases [OF db1] .
  then obtain d' where d': "d' \<in> set (dispatches db')" "claim_matches c d'"
    using d claim_matches_le by (auto simp: pickup_db_le_def rows_le_def)
  moreover have "fst (claim_task_pickup X j (SqlitePool db')) \<noteq> Inr (Committed c')"
    using d' c j by (intro claim_refused [OF db'(2) d'(1)]) (auto simp: claim_matches_def claim_of_def)
  ultimately show ?thesis using s db'(1) by auto
qed

theorem claim_is_exclusive_witness:
  "\<exists>db'. run_pickup plain_externals [demo_stage, RenewLiveness demo_claim 20000 5000]
       (snd (claim_task_pickup plain_externals demo_input (SqlitePool (demo_store [demo_stage])))) = SqlitePool db'
    \<and> (\<exists>d \<in> set (dispatches db'). claim_matches demo_claim d)
    \<and> fst (claim_task_pickup plain_externals (demo_input\<lparr>ci_owner := ''p''\<rparr>) (SqlitePool db'))
        \<noteq> Inr (Committed (demo_claim\<lparr>c_owner := ''p''\<rparr>))"
proof (rule claim_is_exclusive [OF demo_store_inv])
  show "fst (claim_task_pickup plain_externals demo_input (SqlitePool (demo_store [demo_stage]))) = Inr (Committed demo_claim)"
    by code_simp
qed simp

lemma load_fenceE:
  assumes "load_task_cancellation_fence_sqlite X P db = Inr (Some cf)"
  obtains f where "f \<in> set (fences db)" "P f" "cf_ack cf = f_ack f" "cf_task cf = f_task f" "cf_workflow cf = f_workflow f"
    "cf_dispatch_key cf = f_key f" "cf_generation cf = f_generation f" "cf_owner cf = f_owner f"
  using assms unfolding load_task_cancellation_fence_sqlite_def transpose_map_def Let_def
  by (auto split: option.splits sum.splits dest!: select_first_Some)

lemma load_fence_genuine: "load_task_cancellation_fence_sqlite X P db = Inr (Some cf) \<Longrightarrow> genuine_fence db cf"
  by (erule load_fenceE) (auto simp: genuine_fence_def list_ex_iff)

text \<open>The fences that the two reads of the store return agree with it, now and after any further operations.\<close>

lemma returned_fence_genuine:
  assumes inv: "pickup_db_inv db"
    and s: "fst (commit_task_cancellation_fence X a t w now (SqlitePool db)) = Inr cf
        \<and> s = snd (commit_task_cancellation_fence X a t w now (SqlitePool db))
      \<or> select_unresolved_task_cancellation X (SqlitePool db) = Inr (Some cf) \<and> s = SqlitePool db"
  shows "\<exists>db'. run_pickup X ops s = SqlitePool db' \<and> genuine_fence db' cf"
proof -
  from s obtain db1 where db1: "s = SqlitePool db1" "pickup_db_inv db1" "genuine_fence db1 cf"
  proof
    assume c: "fst (commit_task_cancellation_fence X a t w now (SqlitePool db)) = Inr cf
        \<and> s = snd (commit_task_cancellation_fence X a t w now (SqlitePool db))"
    then have "pickup_inv s" using pickup.exec_inv [of "SqlitePool db" X "CommitFence a t w now"] inv by (simp add: pickup_inv_def)
    with c show ?thesis
      by (intro that [of "store_of s"])
         (auto simp: commit_task_cancellation_fence_def commit_task_cancellation_fence_sqlite_def Let_def store_of_def pickup_inv_def
            split: sum.splits option.splits prod.splits intro: load_fence_genuine)
  next
    assume "select_unresolved_task_cancellation X (SqlitePool db) = Inr (Some cf) \<and> s = SqlitePool db"
    with inv show ?thesis
      by (intro that [of db]) (auto simp: select_unresolved_task_cancellation_def
          select_unresolved_task_cancellation_sqlite_def intro: load_fence_genuine)
  qed
  obtain db2 where "run_pickup X ops (SqlitePool db1) = SqlitePool db2" "pickup_db_le db1 db2"
    using run_sqlite_cases [OF db1(2)] by metis
  with db1 genuine_fence_mono show ?thesis by auto
qed

lemma commit_fenceE:
  assumes inv: "pickup_db_inv db" and "fst (commit_task_cancellation_fence X a t w now (SqlitePool db)) = Inr cf"
  obtains db1 f where "snd (commit_task_cancellation_fence X a t w now (SqlitePool db)) = SqlitePool db1" "pickup_db_inv db1"
    "f \<in> set (fences db1)" "f_task f = cf_task cf" "f_workflow f = cf_workflow cf" "f_ack f = a" "cf_ack cf = a"
proof -
  define db1 where "db1 = db\<lparr>fences := insert_or_ignore fences_ok (new_fence db a t w now) (fences db)\<rparr>"
  from assms(2) have s: "snd (commit_task_cancellation_fence X a t w now (SqlitePool db)) = SqlitePool db1"
    and l: "load_task_cancellation_fence_sqlite X (\<lambda>f. f_ack f = a) db1 = Inr (Some cf)"
    by (auto simp: commit_task_cancellation_fence_def commit_eq [OF inv] Let_def db1_def split: sum.splits option.splits)
  have "pickup_inv (exec_pickup X (CommitFence a t w now) (SqlitePool db))"
    using inv by (intro pickup.exec_inv) (simp add: pickup_inv_def)
  with s have "pickup_db_inv db1" by (simp add: pickup_inv_def)
  with s l that show ?thesis by (auto elim!: load_fenceE)
qed

text \<open>A fence of a task blocks the only generation its dispatch can have.\<close>

lemma fence_blocks_dispatch:
  assumes inv: "pickup_db_inv db" and f: "f \<in> set (fences db)" and d: "d \<in> set (dispatches db)"
    and tw: "d_task d = Some (f_task f)" "d_workflow d = Some (f_workflow f)"
  shows "fenced db d 1"
proof -
  have b: "fence_bound (dispatches db) f" using inv f by (simp add: pickup_db_inv_def list_all_iff)
  then obtain k where k: "f_key f = Some k" using d tw by (cases "f_key f") (auto simp: fence_bound_def)
  with inv f obtain d' where d': "f_generation f = Some 1" "d' \<in> set (dispatches db)" "d_key d' = k"
    "d_task d' = Some (f_task f)" "d_workflow d' = Some (f_workflow f)" by (rule bound_fenceE)
  with inv d tw have "d' = d" unfolding pickup_db_inv_def by (metis dispatch_identity_unique)
  with f k d' show ?thesis by (auto simp: fenced_def list_ex_iff fence_blocks_def)
qed

lemma ready_evidence:
  assumes "prove_task_pickup_ready_sqlite X c ev db"
  obtains d e where "d \<in> set (dispatches db)" "e \<in> set (outbox db)" "e_key e = d_key d" "e_generation e = d_generation d"
    "e_kind e = Assigned" "claim_matches c d" "d_armed_at d \<noteq> None" "e_event e = encode_bytes X ev"
    "\<not> settled_exists db (d_key d) (d_generation d)" "\<not> fenced db d (d_generation d)"
proof -
  let ?L = "[(d, e). d \<leftarrow> dispatches db, e \<leftarrow> outbox db,
                e_key e = d_key d \<and> e_generation e = d_generation d \<and> e_kind e = Assigned
                \<and> claim_matches c d \<and> d_armed_at d \<noteq> None \<and> e_event e = encode_bytes X ev
                \<and> \<not> settled_exists db (d_key d) (d_generation d) \<and> \<not> fenced db d (d_generation d)]"
  have "length ?L = 1" using assms unfolding prove_task_pickup_ready_sqlite_def .
  then have "?L \<noteq> []" by (metis list.size(3) zero_neq_one)
  then have "hd ?L \<in> set ?L" by (rule hd_in_set)
  with that show ?thesis by (auto split: if_splits)
qed

lemma ready_refused:
  assumes inv: "pickup_db_inv db" and d: "d \<in> set (dispatches db)" "d_key d = c_dispatch_key c" "fenced db d 1"
  shows "prove_task_pickup_ready X c ev (SqlitePool db) = Inr False"
proof -
  have "\<not> (claim_matches c x \<and> \<not> fenced db x (d_generation x))" if "x \<in> set (dispatches db)" for x
  proof
    assume x: "claim_matches c x \<and> \<not> fenced db x (d_generation x)"
    with that d inv have "x = d" by (auto simp: claim_matches_def pickup_db_inv_def dest: dispatch_key_unique)
    with x d inv show False by (auto simp: claim_matches_def pickup_db_inv_def generations_inv_def)
  qed
  then show ?thesis by (auto simp: prove_task_pickup_ready_def elim!: ready_evidence)
qed

text \<open>C5. A committed cancellation fence stops its task for good: after any further operations, the
  dispatch of the fenced task (staged before or after the fence) can neither be claimed nor be proved
  ready to start.\<close>

theorem fence_blocks_pickup:
  assumes inv: "pickup_db_inv db" and cf: "fst (commit_task_cancellation_fence X a t w now (SqlitePool db)) = Inr cf"
    and tw: "cf_task cf = t" "cf_workflow cf = w"
    and run: "run_pickup X ops (snd (commit_task_cancellation_fence X a t w now (SqlitePool db))) = SqlitePool db'"
    and d: "d \<in> set (dispatches db')" "d_task d = Some t" "d_workflow d = Some w"
    and jc: "ci_dispatch_key j = d_key d" "c_dispatch_key c = d_key d"
  shows "fst (claim_task_pickup X j (SqlitePool db')) \<noteq> Inr (Committed c')
    \<and> prove_task_pickup_ready X c ev (SqlitePool db') = Inr False"
proof -
  from inv cf obtain db1 f where s: "snd (commit_task_cancellation_fence X a t w now (SqlitePool db)) = SqlitePool db1"
    and db1: "pickup_db_inv db1" and f: "f \<in> set (fences db1)" "f_task f = cf_task cf" "f_workflow f = cf_workflow cf"
    by (rule commit_fenceE)
  obtain db2 where "run_pickup X ops (SqlitePool db1) = SqlitePool db2" "pickup_db_inv db2" "pickup_db_le db1 db2"
    using run_sqlite_cases [OF db1] .
  with run s have db': "pickup_db_inv db'" "pickup_db_le db1 db'" by simp_all
  then obtain f' where f': "f' \<in> set (fences db')" "fence_le f f'" using f by (auto simp: pickup_db_le_def rows_le_def)
  have "fenced db' d 1"
    using f' f tw d by (intro fence_blocks_dispatch [OF db'(1) f'(1)]) (auto simp: fence_le_def)
  with db'(1) d(1) jc show ?thesis by (simp add: claim_refused ready_refused)
qed

definition demo_cancel :: pickup_op where
  "demo_cancel = CommitFence ''a'' ''t'' ''w'' 2000"

theorem fence_blocks_pickup_witness:
  "\<exists>db'. run_pickup plain_externals [demo_stage]
       (snd (commit_task_cancellation_fence plain_externals ''a'' ''t'' ''w'' 2000 (SqlitePool (demo_store [])))) = SqlitePool db'
    \<and> fst (claim_task_pickup plain_externals demo_input (SqlitePool db')) \<noteq> Inr (Committed demo_claim)
    \<and> prove_task_pickup_ready plain_externals demo_claim [1] (SqlitePool db') = Inr False"
proof -
  let ?d = "\<lparr>d_key = ''k'', d_payload = [CHR 0x07], d_state = Pending, d_generation = 0, d_owner = None, d_deadline = None,
    d_armed_at = None, d_rejection = None, d_created_at = 0, d_updated_at = 0, d_task = Some ''t'', d_workflow = Some ''w''\<rparr>"
  let ?cf = "\<lparr>cf_ack = ''a'', cf_task = ''t'', cf_workflow = ''w'', cf_dispatch_key = None, cf_generation = None,
    cf_owner = None, cf_owner_notified = False, cf_deadline = None, cf_terminal = None\<rparr>"
  have cf: "fst (commit_task_cancellation_fence plain_externals ''a'' ''t'' ''w'' 2000 (SqlitePool (demo_store []))) = Inr ?cf"
    by code_simp
  have run: "run_pickup plain_externals [demo_stage]
      (snd (commit_task_cancellation_fence plain_externals ''a'' ''t'' ''w'' 2000 (SqlitePool (demo_store []))))
      = SqlitePool (demo_store [demo_cancel, demo_stage])" by code_simp
  have d: "?d \<in> set (dispatches (demo_store [demo_cancel, demo_stage]))" by code_simp
  from fence_blocks_pickup [OF demo_store_inv cf _ _ run d, of demo_input demo_claim demo_claim "[1]"] run show ?thesis
    by (simp add: demo_input_def demo_claim_def)
qed

end
