(* ===== verification/Pickup_Deadlines.thy ===== *)
theory Pickup_Deadlines
  imports Pickup_Properties
begin

text \<open>
  The liveness deadline of a claimed dispatch along a sequence of operations: the deadline of the claim,
  then that of the last accepted arming or renewal, or the time of the last accepted failure report.
  No other operation touches it.
\<close>

section \<open>Deadlines along a run\<close>

fun next_deadline :: "string \<Rightarrow> pickup_op \<Rightarrow> pickup_pool \<Rightarrow> datetime \<Rightarrow> datetime" where
  "next_deadline k (ArmLiveness c dl n) s t =
     (if c_dispatch_key c = k \<and> fst (arm_task_pickup_liveness c dl n s) = Inr True then dl else t)"
| "next_deadline k (RenewLiveness c dl n) s t =
     (if c_dispatch_key c = k \<and> fst (renew_task_pickup_liveness c dl n s) = Inr True then dl else t)"
| "next_deadline k (RegisterLivenessFailure c n) s t =
     (if c_dispatch_key c = k \<and> fst (register_task_pickup_liveness_failure c n s) = Inr True then n else t)"
| "next_deadline k a s t = t"

fun deadline_after :: "'n externals \<Rightarrow> string \<Rightarrow> pickup_op list \<Rightarrow> pickup_pool \<Rightarrow> datetime \<Rightarrow> datetime" where
  "deadline_after X k [] s t = t"
| "deadline_after X k (a # ops) s t = deadline_after X k ops (exec_pickup X a s) (next_deadline k a s t)"

definition has_deadline :: "string \<Rightarrow> datetime \<Rightarrow> pickup_db \<Rightarrow> bool" where
  "has_deadline k t db \<longleftrightarrow>
     (\<exists>d \<in> set (dispatches db). d_key d = k \<and> d_state d = Claimed \<and> d_deadline d = Some (encode_timestamp t))"

section \<open>The operations that set it\<close>

lemma touch_deadline:
  assumes inv: "pickup_db_inv db" and t: "has_deadline k t db"
    and P: "\<And>d. P d \<Longrightarrow> claim_matches c d"
    and f: "\<And>d. d_key (f d) = d_key d \<and> d_state (f d) = d_state d \<and> d_deadline (f d) = Some (encode_timestamp t')"
    and touch: "\<And>d. P d \<Longrightarrow> touches f d"
    and op: "op = (case sql_update dispatches_ok P f (dispatches db) of
           None \<Rightarrow> (e, db) | Some ds \<Rightarrow> (Inr (rows_affected P (dispatches db) = 1), db\<lparr>dispatches := ds\<rparr>))"
  shows "has_deadline k (if c_dispatch_key c = k \<and> fst op = Inr True then t' else t) (snd op)"
proof -
  from t obtain d where d: "d \<in> set (dispatches db)" "d_key d = k" "d_state d = Claimed" "d_deadline d = Some (encode_timestamp t)"
    by (auto simp: has_deadline_def)
  have op': "op = (Inr (rows_affected P (dispatches db) = 1), db\<lparr>dispatches := update_where P f (dispatches db)\<rparr>)"
    using op touch_update [OF inv touch] by simp
  have "rows_affected P (dispatches db) = (if \<exists>x \<in> set (dispatches db). P x then 1 else 0)"
    by (rule rows_affected_key [of d_key _ _ "c_dispatch_key c"])
       (use inv P in \<open>auto simp: pickup_db_inv_def dispatches_ok_def claim_matches_def\<close>)
  moreover have "(\<exists>x \<in> set (dispatches db). P x) \<longleftrightarrow> P d" if "c_dispatch_key c = k"
    using inv d that P by (auto simp: pickup_db_inv_def claim_matches_def dest: dispatch_key_unique)
  ultimately have won: "c_dispatch_key c = k \<and> fst op = Inr True \<longleftrightarrow> P d"
    using P [of d] d(2) by (auto simp: op' claim_matches_def)
  have "(if P d then f d else d) \<in> set (dispatches (snd op))"
    using update_where_in [OF d(1), of P f] by (simp add: op')
  with d f show ?thesis unfolding won has_deadline_def by (intro bexI) auto
qed

lemma arm_deadline:
  assumes inv: "pickup_db_inv db" and t: "has_deadline k t db"
  shows "has_deadline k (if c_dispatch_key c = k \<and> fst (arm_task_pickup_liveness_sqlite c dl n db) = Inr True then dl else t)
    (snd (arm_task_pickup_liveness_sqlite c dl n db))"
  by (rule touch_deadline [OF inv t _ _ _ arm_task_pickup_liveness_sqlite_def [unfolded Let_def]])
     (simp_all add: touches_def dispatch_check_def claim_matches_def)

lemma renew_deadline:
  assumes inv: "pickup_db_inv db" and t: "has_deadline k t db"
  shows "has_deadline k (if c_dispatch_key c = k \<and> fst (renew_task_pickup_liveness_sqlite c dl n db) = Inr True then dl else t)
    (snd (renew_task_pickup_liveness_sqlite c dl n db))"
  by (rule touch_deadline [OF inv t _ _ _ renew_task_pickup_liveness_sqlite_def [unfolded Let_def]])
     (simp_all add: touches_def dispatch_check_def claim_matches_def)

lemma register_deadline:
  assumes inv: "pickup_db_inv db" and t: "has_deadline k t db"
  shows "has_deadline k (if c_dispatch_key c = k \<and> fst (register_liveness_failure_sqlite c n db) = Inr True then n else t)
    (snd (register_liveness_failure_sqlite c n db))"
  by (rule touch_deadline [OF inv t _ _ _ register_liveness_failure_sqlite_def [unfolded Let_def]])
     (simp_all add: touches_def dispatch_check_def claim_matches_def)

section \<open>The operations that leave it\<close>

lemma update_where_keeps: "d \<in> set t \<Longrightarrow> \<not> P d \<Longrightarrow> d \<in> set (update_where P f t)"
  using update_where_in [of d t P f] by simp

lemma dispatches_same:
  "dispatches (snd (stage_task_started_sqlite X c started now db)) = dispatches db"
  "dispatches (snd (elect_task_pickup_terminal_sqlite X c outc ev now db)) = dispatches db"
  "dispatches (snd (mark_task_event_forwarded_sqlite X pe now db)) = dispatches db"
  "dispatches (snd (commit_task_cancellation_fence_sqlite X a t w now db)) = dispatches db"
  "dispatches (snd (mark_task_cancellation_owner_notified_sqlite cf now db)) = dispatches db"
  "dispatches (snd (settle_task_cancellation_sqlite X cf rec bs now db)) = dispatches db"
  "dispatches (snd (mark_task_cancellation_ack_forwarded_sqlite X pa now db)) = dispatches db"
  subgoal by (simp add: stage_task_started_sqlite_def Let_def)
  subgoal by (auto simp: elect_task_pickup_terminal_sqlite_def Let_def insert_event_def split: option.splits)
  subgoal by (auto simp: mark_task_event_forwarded_sqlite_def Let_def split: option.splits)
  subgoal by (auto simp: commit_task_cancellation_fence_sqlite_def Let_def split: option.splits sum.splits)
  subgoal by (auto simp: mark_task_cancellation_owner_notified_sqlite_def Let_def split: option.splits)
  subgoal by (auto simp: settle_task_cancellation_sqlite_def Let_def split: option.splits sum.splits)
  subgoal by (auto simp: mark_task_cancellation_ack_forwarded_sqlite_def Let_def split: option.splits)
  done

lemma claimed_row_kept:
  assumes d: "d \<in> set (dispatches db)" "d_state d = Claimed"
  shows "d \<in> set (dispatches (snd (stage_task_dispatch_sqlite X key p task wfi now db)))"
    "d \<in> set (dispatches (snd (reject_task_dispatch_sqlite key reason now db)))"
    "pickup_db_inv db \<Longrightarrow> d \<in> set (dispatches (snd (claim_task_pickup_sqlite X i db)))"
  subgoal using d by (auto simp: stage_task_dispatch_sqlite_def Let_def insert_or_ignore_def split: option.splits)
  subgoal using d by (auto simp: reject_task_dispatch_sqlite_def Let_def sql_update_Some intro!: update_where_keeps split: option.splits)
  subgoal using d by (auto simp: claim_eq claimable_def intro!: update_where_keeps)
  done

section \<open>Every step\<close>

lemma has_deadline_kept:
  "has_deadline k t db \<Longrightarrow> (\<And>d. d \<in> set (dispatches db) \<Longrightarrow> d_state d = Claimed \<Longrightarrow> d \<in> set (dispatches db')) \<Longrightarrow> has_deadline k t db'"
  by (auto simp: has_deadline_def)

lemma exec_deadline:
  assumes inv: "pickup_db_inv db" and t: "has_deadline k t db" and db': "exec_pickup X a (SqlitePool db) = SqlitePool db'"
  shows "has_deadline k (next_deadline k a (SqlitePool db) t) db'"
proof (cases a)
  case (ArmLiveness c dl n)
  with db' arm_deadline [OF inv t, of c dl n] t show ?thesis
    by (cases "validate_claim c dl n") (auto simp: arm_task_pickup_liveness_def)
next
  case (RenewLiveness c dl n)
  with db' renew_deadline [OF inv t, of c dl n] t show ?thesis
    by (cases "validate_claim c dl n") (auto simp: renew_task_pickup_liveness_def)
next
  case (RegisterLivenessFailure c n)
  with db' register_deadline [OF inv t, of c n] t show ?thesis
    by (cases "validate_claim_identity c") (auto simp: register_task_pickup_liveness_failure_def)
qed (use db' t inv in \<open>auto simp: pickup_methods dispatches_same intro: claimed_row_kept elim!: has_deadline_kept split: sum.splits\<close>)

lemma run_deadline:
  assumes "pickup_db_inv db" and "has_deadline k t db" and "run_pickup X ops (SqlitePool db) = SqlitePool db'"
  shows "has_deadline k (deadline_after X k ops (SqlitePool db) t) db'"
  using assms
proof (induction ops arbitrary: db t)
  case (Cons a ops)
  obtain db1 where db1: "exec_pickup X a (SqlitePool db) = SqlitePool db1" "pickup_db_inv db1"
    using exec_sqliteE [OF Cons.prems(1), of X a] by auto
  have "has_deadline k (next_deadline k a (SqlitePool db) t) db1" by (rule exec_deadline [OF Cons.prems(1,2) db1(1)])
  with Cons.IH [OF db1(2)] Cons.prems(3) db1(1) show ?case by (simp add: run_pickup_def)
qed (simp add: run_pickup_def)

lemma claim_deadline:
  assumes inv: "pickup_db_inv db" and com: "fst (claim_task_pickup X i (SqlitePool db)) = Inr (Committed c)"
    and s: "snd (claim_task_pickup X i (SqlitePool db)) = SqlitePool db1"
  shows "has_deadline (ci_dispatch_key i) (ci_deadline i) db1"
proof -
  from inv com obtain d where d: "d \<in> set (dispatches db)" "claimable db (ci_dispatch_key i) d"
    and db1: "snd (claim_task_pickup X i (SqlitePool db)) =
       SqlitePool (db\<lparr>dispatches := update_where (claimable db (ci_dispatch_key i)) (claimed_row i) (dispatches db),
                     outbox := outbox db @ [assigned_row X i]\<rparr>)" by (rule claim_committed)
  have "claimed_row i d \<in> set (dispatches db1)"
    using update_where_in [OF d(1), of "claimable db (ci_dispatch_key i)" "claimed_row i"] d(2) db1 s by auto
  with d(2) show ?thesis unfolding has_deadline_def by (intro bexI) (auto simp: claimed_row_def claimable_def)
qed

end
