(* ===== verification/Pickup_Contracts.thy ===== *)
theory Pickup_Contracts
  imports Pickup_Deadlines
begin

text \<open>
  The functional behaviour of the operations of the pickup store: staging, recovery of an ambiguous
  claim, elections and settlements on every branch, the progress of the two outboxes, and the two
  calls whose error paths refuse a legitimate request.
\<close>

section \<open>Staging\<close>

lemma dispatches_ok_fresh:
  "dispatches_ok (ds @ [row]) \<Longrightarrow> d \<in> set ds \<Longrightarrow> d_key d \<noteq> d_key row"
  by (auto simp: dispatches_ok_def image_iff)

lemma stage_present:
  assumes "d \<in> set (dispatches db)" "d_key d = key" and inv: "pickup_db_inv db"
  shows "stage_task_dispatch_sqlite X key p task wfi now db =
    (if d_payload d = encode_bytes X p then (Inr False, db)
     else (Inl (ConstraintConflict, DispatchIdentityCollision key), db))"
proof -
  have "\<not> dispatches_ok (dispatches db @ [\<lparr>d_key = key, d_payload = encode_bytes X p, d_state = Pending,
      d_generation = 0, d_owner = None, d_deadline = None, d_armed_at = None, d_rejection = None,
      d_created_at = encode_timestamp now, d_updated_at = encode_timestamp now, d_task = task, d_workflow = wfi\<rparr>])"
    using assms(1,2) by (auto dest: dispatches_ok_fresh)
  moreover have "find (\<lambda>d. d_key d = key) (dispatches db) = Some d"
    using assms by (subst find_Some_iff_key [of d_key _ _ key]) (auto simp: pickup_db_inv_def dispatches_ok_def)
  ultimately show ?thesis by (simp add: stage_task_dispatch_sqlite_def Let_def)
qed

lemma stage_accepted:
  assumes inv: "pickup_db_inv db" and "fst (stage_task_dispatch X key p task wfi now (SqlitePool db)) = Inr b"
  obtains db1 d where "snd (stage_task_dispatch X key p task wfi now (SqlitePool db)) = SqlitePool db1"
    "pickup_db_inv db1" "d \<in> set (dispatches db1)" "d_key d = key" "d_payload d = encode_bytes X p"
proof -
  obtain db1 where s: "snd (stage_task_dispatch X key p task wfi now (SqlitePool db)) = SqlitePool db1"
    and "pickup_db_inv db1"
    using exec_sqliteE [OF inv, of X "StageDispatch key p task wfi now"] by auto
  moreover have "\<exists>d \<in> set (dispatches db1). d_key d = key \<and> d_payload d = encode_bytes X p"
    using assms(2) s
    by (auto simp: stage_task_dispatch_def stage_task_dispatch_sqlite_def Let_def insert_or_ignore_simps
        split: sum.splits option.splits if_splits dest: find_SomeD)
  ultimately show ?thesis using that by blast
qed

text \<open>C15. Staging is idempotent: once a dispatch was accepted under a key, after any further operations
  staging the same bytes under it changes nothing and says so, and staging other bytes is refused as a
  collision and changes nothing.\<close>

theorem stage_dispatch_idempotent:
  assumes X: "serde_bytes_roundtrip X" and inv: "pickup_db_inv db"
    and acc: "fst (stage_task_dispatch X key p task wfi now (SqlitePool db)) = Inr b"
    and run: "run_pickup X ops (snd (stage_task_dispatch X key p task wfi now (SqlitePool db))) = s'"
    and id: "validate_optional_task_identity task' wfi' = Inr ()"
  shows "stage_task_dispatch X key p' task' wfi' now' s' =
    (if p' = p then (Inr False, s') else (Inl (ConstraintConflict, DispatchIdentityCollision key), s'))"
proof -
  from inv acc obtain db1 d where s: "snd (stage_task_dispatch X key p task wfi now (SqlitePool db)) = SqlitePool db1"
    and db1: "pickup_db_inv db1" and d: "d \<in> set (dispatches db1)" "d_key d = key" "d_payload d = encode_bytes X p"
    by (rule stage_accepted)
  obtain db2 where db2: "run_pickup X ops (SqlitePool db1) = SqlitePool db2" "pickup_db_inv db2" "pickup_db_le db1 db2"
    using run_sqlite_cases [OF db1] .
  then obtain d2 where d2: "d2 \<in> set (dispatches db2)" "d_key d2 = key" "d_payload d2 = encode_bytes X p"
    using d by (auto simp: pickup_db_le_def rows_le_def dispatch_le_def)
  have "validate_dispatch_key key = Inr ()"
    using acc by (auto simp: stage_task_dispatch_def split: sum.splits)
  with run s db2 id stage_present [OF d2(1,2) db2(2), of X p' task' wfi' now'] show ?thesis
    by (auto simp: stage_task_dispatch_def d2(3) encode_bytes_inj [OF X])
qed

theorem stage_dispatch_idempotent_witness:
  "stage_task_dispatch plain_externals ''k'' [8] None None 7000 (SqlitePool (demo_store [demo_stage, Claim demo_input]))
   = (Inl (ConstraintConflict, DispatchIdentityCollision ''k''), SqlitePool (demo_store [demo_stage, Claim demo_input]))"
proof -
  have acc: "fst (stage_task_dispatch plain_externals ''k'' [7] (Some ''t'') (Some ''w'') 0 (SqlitePool (demo_store []))) = Inr True"
    by code_simp
  have run: "run_pickup plain_externals [Claim demo_input]
      (snd (stage_task_dispatch plain_externals ''k'' [7] (Some ''t'') (Some ''w'') 0 (SqlitePool (demo_store []))))
      = SqlitePool (demo_store [demo_stage, Claim demo_input])" by code_simp
  from stage_dispatch_idempotent [OF plain_externals_roundtrip demo_store_inv acc run, of None None "[8]" 7000]
  show ?thesis by (simp add: validate_optional_task_identity_def)
qed

section \<open>Claims\<close>

text \<open>C19. The dispatch that the selection of pending work returns can be claimed: any valid claim of it
  commits, in generation 1.\<close>

theorem pending_dispatch_claimable:
  assumes inv: "pickup_db_inv db" and sel: "select_pending_task_dispatch X (SqlitePool db) = Inr (Some pd)"
    and i: "ci_dispatch_key i = pd_dispatch_key pd" "validate_claim_input i = Inr ()"
  shows "fst (claim_task_pickup X i (SqlitePool db)) = Inr (Committed (claim_of i))"
proof -
  from sel obtain d where "select_first (\<lambda>d. d_state d = Pending \<and> \<not> fenced db d (d_generation d + 1))
      (\<lambda>d. (d_created_at d, d_key d)) (dispatches db) = Some d" "d_key d = pd_dispatch_key pd"
    by (auto simp: select_pending_task_dispatch_def select_pending_task_dispatch_sqlite_def transpose_map_def
        split: option.splits sum.splits)
  then have d: "d \<in> set (dispatches db)" "d_state d = Pending" "\<not> fenced db d (d_generation d + 1)" "d_key d = pd_dispatch_key pd"
    by (auto dest!: select_first_Some)
  moreover have "d_generation d = 0" using inv d by (auto simp: pickup_db_inv_def generations_inv_def)
  ultimately have "claimable db (ci_dispatch_key i) d" using i by (simp add: claimable_def)
  with d(1) i(2) show ?thesis by (auto simp: claim_task_pickup_def claim_eq [OF inv])
qed

theorem pending_dispatch_claimable_witness:
  "fst (claim_task_pickup plain_externals demo_input (SqlitePool (demo_store [demo_stage]))) = Inr (Committed (claim_of demo_input))"
proof (rule pending_dispatch_claimable [OF demo_store_inv])
  show "select_pending_task_dispatch plain_externals (SqlitePool (demo_store [demo_stage]))
      = Inr (Some \<lparr>pd_dispatch_key = ''k'', pd_payload = [7]\<rparr>)" by code_simp
  show "ci_dispatch_key demo_input = pd_dispatch_key \<lparr>pd_dispatch_key = ''k'', pd_payload = [7]\<rparr>" by (simp add: demo_input_def)
  show "validate_claim_input demo_input = Inr ()" by code_simp
qed

text \<open>\<open>chrono\<close> reads back the microseconds of an instant that it represents.\<close>

definition chrono_represents :: "'n externals \<Rightarrow> datetime \<Rightarrow> bool" where
  "chrono_represents X t \<longleftrightarrow> from_timestamp_micros X (encode_timestamp t) = Some (1000 * encode_timestamp t)"

text \<open>C20. A claim whose answer was lost is recovered: after a claim committed and any further operations,
  the owner that presents the same \<open>Assigned\<close> event is given its claim, with the deadline last set (by
  the claim itself, or by the last accepted arming, renewal or failure report of it) in whole
  microseconds; every other owner is given none.\<close>

theorem prove_ambiguous_recovers:
  assumes inv: "pickup_db_inv db" and com: "fst (claim_task_pickup X i (SqlitePool db)) = Inr (Committed c)"
    and s1: "s1 = snd (claim_task_pickup X i (SqlitePool db))" and dl: "dl = deadline_after X (ci_dispatch_key i) ops s1 (ci_deadline i)"
    and ow: "validate_owner ow = Inr ()" and chrono: "chrono_represents X dl"
  shows "prove_ambiguous_task_pickup X (ci_dispatch_key i) ow (ci_assigned_event i) (run_pickup X ops s1) =
    Inr (if ow = ci_owner i then Some (claim_of (i\<lparr>ci_deadline := 1000 * encode_timestamp dl\<rparr>)) else None)"
proof -
  from inv com obtain db1 d e where s: "snd (claim_task_pickup X i (SqlitePool db)) = SqlitePool db1" "pickup_db_inv db1"
    and d: "d \<in> set (dispatches db1)" "claim_matches c d" "c = claim_of i" and e: "e \<in> set (outbox db1)" "e = assigned_row X i"
    by (rule claim_committed_row)
  obtain db2 where db2: "run_pickup X ops (SqlitePool db1) = SqlitePool db2" "pickup_db_inv db2" "pickup_db_le db1 db2"
    using run_sqlite_cases [OF s(2)] .
  then obtain d2 e2 where d2: "d2 \<in> set (dispatches db2)" "claim_matches c d2" and e2: "e2 \<in> set (outbox db2)" "event_le e e2"
    using d e claim_matches_le unfolding pickup_db_le_def rows_le_def by blast
  have row: "d_key d2 = ci_dispatch_key i" "d_state d2 = Claimed" "d_generation d2 = 1" "d_owner d2 = Some (ci_owner i)"
    using d2(2) d(3) by (auto simp: claim_matches_def claim_of_def)
  have "has_deadline (ci_dispatch_key i) dl db2"
    unfolding dl s1 s(1) by (rule run_deadline [OF s(2) claim_deadline [OF inv com s(1)] db2(1)])
  then have deadline: "d_deadline d2 = Some (encode_timestamp dl)"
    using d2(1) row(1) db2(2) by (auto simp: has_deadline_def pickup_db_inv_def dest: dispatch_key_unique)
  have found: "find (\<lambda>d. d_key d = ci_dispatch_key i \<and> d_state d = Claimed \<and> d_owner d = Some ow
        \<and> list_ex (\<lambda>e. e_key e = d_key d \<and> e_generation e = d_generation d
             \<and> e_kind e = Assigned \<and> e_event e = encode_bytes X (ci_assigned_event i)) (outbox db2)) (dispatches db2)
      = (if ow = ci_owner i then Some d2 else None)"
  proof (cases "ow = ci_owner i")
    case True
    with d2(1) row e e2 show ?thesis
      by (simp, subst find_Some_iff_key [of d_key _ _ "ci_dispatch_key i"])
         (use db2(2) in \<open>auto simp: pickup_db_inv_def dispatches_ok_def list_ex_iff event_le_def assigned_row_def\<close>)
  next
    case False
    with d2(1) row db2(2) show ?thesis by (auto simp: find_None_iff pickup_db_inv_def dest: dispatch_key_unique)
  qed
  have "validate_dispatch_key (ci_dispatch_key i) = Inr ()"
    using com by (auto simp: claim_task_pickup_def validate_claim_input_def split: sum.splits)
  with found deadline row ow chrono show ?thesis
    by (simp add: s1 s(1) db2(1) prove_ambiguous_task_pickup_def prove_ambiguous_task_pickup_sqlite_def transpose_map_def
        chrono_represents_def decode_instant_def decode_timestamp_def claim_of_def)
qed

theorem prove_ambiguous_recovers_witness:
  "prove_ambiguous_task_pickup plain_externals ''k'' ''o'' [1]
     (run_pickup plain_externals [ArmLiveness demo_claim 15000 2000, RenewLiveness demo_claim 20000 5000]
       (snd (claim_task_pickup plain_externals demo_input (SqlitePool (demo_store [demo_stage])))))
   = Inr (Some (demo_claim\<lparr>c_deadline := 20000\<rparr>))"
proof -
  let ?ops = "[ArmLiveness demo_claim 15000 2000, RenewLiveness demo_claim 20000 5000]"
  let ?s = "snd (claim_task_pickup plain_externals demo_input (SqlitePool (demo_store [demo_stage])))"
  have com: "fst (claim_task_pickup plain_externals demo_input (SqlitePool (demo_store [demo_stage]))) = Inr (Committed demo_claim)"
    by code_simp
  have dl: "20000 = deadline_after plain_externals (ci_dispatch_key demo_input) ?ops ?s (ci_deadline demo_input)" by code_simp
  have "validate_owner ''o'' = Inr ()" "chrono_represents plain_externals 20000" by code_simp+
  from prove_ambiguous_recovers [OF demo_store_inv com refl dl this]
  show ?thesis by (simp add: demo_input_def demo_claim_def claim_of_def encode_timestamp_def)
qed

section \<open>Elections and settlements\<close>

text \<open>C16. The election of a process outcome, on every branch and for any arguments: a claim that is not
  well-formed is refused as such, and a cancellation outcome as a configuration error, and both change
  nothing; else, with an outcome recorded for the generation, that one is reported and nothing changes;
  else the holder of the claim wins, and the outcome and its terminal event are added together; else
  the caller is told it holds no claim. No other error is possible.\<close>

theorem election_behaviour:
  assumes inv: "pickup_db_inv db"
  shows "elect_task_pickup_terminal X c t ev now (SqlitePool db) =
    (case validate_claim_identity c of
       Inl e \<Rightarrow> (Inl e, SqlitePool db)
     | Inr _ \<Rightarrow> (case outcome_event_kind t of
         None \<Rightarrow> (Inl (configuration_error (CorruptStoredValue
                     ''cancellation outcome requires the cancellation settlement path'')), SqlitePool db)
       | Some kind \<Rightarrow> (case recorded db (c_dispatch_key c) (c_generation c) of
           Some t' \<Rightarrow> (Inr (Settled t'), SqlitePool db)
         | None \<Rightarrow> if list_ex (claim_matches c) (dispatches db)
                  then (Inr Won, SqlitePool (db\<lparr>outcomes := outcomes db @ [won_outcome c t now],
                                                outbox := outbox db @ [won_event X c kind ev now]\<rparr>))
                  else (Inr NotClaimed, SqlitePool db))))"
proof (cases "validate_claim_identity c")
  case (Inr u)
  show ?thesis
  proof (cases "outcome_event_kind t")
    case None
    with Inr show ?thesis by (simp add: elect_task_pickup_terminal_def elect_task_pickup_terminal_sqlite_def)
  next
    case kind: (Some kind)
    show ?thesis
    proof (cases "outcome_at db (c_dispatch_key c) (c_generation c)")
      case None
      with Inr kind show ?thesis
        by (simp add: elect_task_pickup_terminal_def elect_eq [OF inv kind] recorded_None [OF inv, THEN iffD2] list_ex_iff)
    next
      case (Some r)
      with outcome_at_parse [OF inv Some] Inr kind show ?thesis
        by (auto simp: elect_task_pickup_terminal_def elect_eq [OF inv kind] recorded_def)
    qed
  qed
qed (simp add: elect_task_pickup_terminal_def)

theorem election_behaviour_witness:
  "fst (elect_task_pickup_terminal plain_externals demo_claim ProcessExitedSuccess [2] 3000
          (SqlitePool (demo_store [demo_stage, Claim demo_input]))) = Inr Won
   \<and> (\<exists>e. elect_task_pickup_terminal plain_externals demo_claim CancellationKilled [2] 3000
          (SqlitePool (demo_store [demo_stage, Claim demo_input])) = (Inl e, SqlitePool (demo_store [demo_stage, Claim demo_input])))"
proof -
  have "recorded (demo_store [demo_stage, Claim demo_input]) (c_dispatch_key demo_claim) (c_generation demo_claim) = None"
    "list_ex (claim_matches demo_claim) (dispatches (demo_store [demo_stage, Claim demo_input]))"
    "validate_claim_identity demo_claim = Inr ()"
    by code_simp+
  with election_behaviour [OF demo_store_inv, of plain_externals demo_claim ProcessExitedSuccess "[2]" 3000]
    election_behaviour [OF demo_store_inv, of plain_externals demo_claim CancellationKilled "[2]" 3000]
  show ?thesis by simp
qed

lemma select_dueE:
  assumes "select_due_task_pickup X now (SqlitePool db) = Inr (Some due)"
  obtains d where "d \<in> set (dispatches db)" "d_state d = Claimed" "\<not> settled_exists db (d_key d) (d_generation d)"
    "c_dispatch_key (due_claim due) = d_key d" "c_generation (due_claim due) = d_generation d"
    "c_owner (due_claim due) = the (d_owner d)"
proof -
  from assms obtain d where "select_first (\<lambda>d. d_state d = Claimed
          \<and> (case d_deadline d of None \<Rightarrow> False | Some x \<Rightarrow> x \<le> encode_timestamp now)
          \<and> \<not> settled_exists db (d_key d) (d_generation d)) (\<lambda>d. (d_deadline d, d_key d)) (dispatches db) = Some d"
    and "c_dispatch_key (due_claim due) = d_key d" "c_generation (due_claim due) = d_generation d"
    "c_owner (due_claim due) = the (d_owner d)"
    by (auto simp: select_due_task_pickup_def select_due_task_pickup_sqlite_def transpose_map_def
        split: option.splits sum.splits)
  then show ?thesis using that by (auto dest!: select_first_Some)
qed

text \<open>C21. Expiry makes progress: the claim that the search for overdue pickups returns wins the election
  of \<open>LivenessExpired\<close>, and is settled afterwards.\<close>

theorem due_pickup_expires:
  assumes inv: "pickup_db_inv db" and due: "select_due_task_pickup X now (SqlitePool db) = Inr (Some due)"
    and c: "validate_claim_identity (due_claim due) = Inr ()"
  shows "\<exists>db'. elect_task_pickup_terminal X (due_claim due) LivenessExpired ev now' (SqlitePool db) = (Inr Won, SqlitePool db')
    \<and> recorded db (c_dispatch_key (due_claim due)) (c_generation (due_claim due)) = None
    \<and> recorded db' (c_dispatch_key (due_claim due)) (c_generation (due_claim due)) = Some LivenessExpired"
proof -
  from due obtain d where d: "d \<in> set (dispatches db)" "d_state d = Claimed" "\<not> settled_exists db (d_key d) (d_generation d)"
    "c_dispatch_key (due_claim due) = d_key d" "c_generation (due_claim due) = d_generation d"
    "c_owner (due_claim due) = the (d_owner d)" by (rule select_dueE)
  have "d_owner d \<noteq> None"
    using inv d(1,2) by (auto simp: pickup_db_inv_def dispatches_ok_def list_all_iff dispatch_check_def)
  with d have m: "\<exists>d \<in> set (dispatches db). claim_matches (due_claim due) d"
    by (intro bexI [of _ d]) (auto simp: claim_matches_def)
  have n: "outcome_at db (c_dispatch_key (due_claim due)) (c_generation (due_claim due)) = None"
    using d by (simp add: outcome_at_None)
  have w: "fst (elect_task_pickup_terminal X (due_claim due) LivenessExpired ev now' (SqlitePool db)) = Inr Won"
    using c m n by (simp add: elect_task_pickup_terminal_def elect_eq [OF inv])
  from wins_elect [OF inv w] w show ?thesis
    by (cases "elect_task_pickup_terminal X (due_claim due) LivenessExpired ev now' (SqlitePool db)") auto
qed

theorem due_pickup_expires_witness:
  "\<exists>db'. elect_task_pickup_terminal plain_externals demo_claim LivenessExpired [5] 10000
       (SqlitePool (demo_store [demo_stage, Claim demo_input])) = (Inr Won, SqlitePool db')
    \<and> recorded (demo_store [demo_stage, Claim demo_input]) ''k'' 1 = None \<and> recorded db' ''k'' 1 = Some LivenessExpired"
proof -
  have due: "select_due_task_pickup plain_externals 10000 (SqlitePool (demo_store [demo_stage, Claim demo_input]))
      = Inr (Some \<lparr>due_claim = demo_claim, due_payload = [7]\<rparr>)" by code_simp
  have c: "validate_claim_identity (due_claim \<lparr>due_claim = demo_claim, due_payload = [7]\<rparr>) = Inr ()" by code_simp
  from due_pickup_expires [OF demo_store_inv due c, of "[5]" 10000] show ?thesis by (simp add: demo_claim_def)
qed

lemma settled_fences_idem: "settled_fences a rec' m' (settled_fences a rec m fs) = settled_fences a rec m fs"
  unfolding settled_fences_def update_where_def
  by (simp add: settled_fence_def coalesce_def split: option.split)

lemma staged_acks_here: "acks_ok as \<Longrightarrow> \<exists>x \<in> set (staged_acks X a bs m as). a_ack x = a"
  by (auto simp: staged_acks_def insert_or_ignore_def acks_ok_def image_iff)

lemma staged_acks_idem: "acks_ok as \<Longrightarrow> staged_acks X a bs' m' (staged_acks X a bs m as) = staged_acks X a bs m as"
  using staged_acks_here [of as X a bs m]
  by (auto simp: staged_acks_def [of X a bs' m'] insert_or_ignore_def acks_ok_def image_iff)

lemma settled_fences_settled:
  assumes "f \<in> set fs" "f_ack f = a"
  shows "\<exists>f \<in> set (settled_fences a rec m fs). f_ack f = a \<and> f_settled_at f \<noteq> None"
  using update_where_in [OF assms(1), of "\<lambda>f. f_ack f = a" "settled_fence rec m"] assms(2)
  unfolding settled_fences_def by (intro bexI [of _ "settled_fence rec m f"]) (auto simp del: not_None_eq)

abbreviation demo_cancelled :: "pickup_op list" where
  "demo_cancelled \<equiv> [demo_stage, Claim demo_input, demo_cancel]"

lemma demo_cancelled_facts:
  "recorded (demo_store demo_cancelled) ''k'' 1 = None" "genuine_fence (demo_store demo_cancelled) demo_fence"
  "\<not> list_ex (\<lambda>d. d_key d = ''k'' \<and> d_state d = Rejected) (dispatches (demo_store demo_cancelled))"
  "find (\<lambda>f. f_ack f = ''b'') (fences (demo_store demo_cancelled)) = None"
  by code_simp+

lemma genuine_settlement:
  assumes inv: "pickup_db_inv db" and cf: "genuine_fence db cf" "cf_dispatch_key cf = Some k" and k: "k \<noteq> []"
  shows "fst (settle_task_cancellation_sqlite X cf rec bs now db) =
    Inr (case recorded db k 1 of
           Some t \<Rightarrow> Some (Settled t)
         | None \<Rightarrow> if list_ex (\<lambda>d. d_key d = k \<and> d_state d = Rejected) (dispatches db) then None else Some Won)"
proof -
  from inv cf obtain f d where f: "f \<in> set (fences db)" "f_ack f = cf_ack cf" "f_key f = Some (d_key d)"
    and d: "d \<in> set (dispatches db)" "d_key d = k" and g: "cf_generation cf = Some 1" by (rule genuine_fenceE)
  have "list_ex (\<lambda>x. d_key x = k \<and> d_state x = Rejected) (dispatches db) \<longleftrightarrow> d_state d = Rejected"
    using inv d by (auto simp: list_ex_iff pickup_db_inv_def dest: dispatch_key_unique)
  with settle_eq [OF inv f d(1), of X rec bs now] d(2) k cf(2) g show ?thesis by simp
qed

text \<open>C17. The settlement of a cancellation, on every branch and for any fence value: an acknowledgement that
  names no fence is refused by the foreign key and nothing changes. Else, in one step and nothing
  besides: when the value names a dispatch and generation, the reconciliation is recorded as the
  outcome of the generation the stored fence is bound to, unless that has an outcome or its dispatch was
  rejected; the fence keeps the reconciliation and settlement time it has, else gets these; and the
  acknowledgement bytes are staged unless one is staged already. The answer is the outcome then
  recorded for the generation the value names, as won when this call recorded one. So for a fence the
  store returned, a recorded outcome stands and is reported, a rejected dispatch has nothing to settle,
  and else the caller wins.\<close>

theorem settlement_behaviour:
  assumes inv: "pickup_db_inv db"
  shows "settle_task_cancellation X cf rec bs now (SqlitePool db) =
    (case find (\<lambda>f. f_ack f = cf_ack cf) (fences db) of
       None \<Rightarrow> (Inl sqlx_constraint_error, SqlitePool db)
     | Some f \<Rightarrow>
         (let m = encode_timestamp now;
              new = (case (cf_dispatch_key cf, cf_generation cf, f_key f) of
                       (Some _, Some _, Some k) \<Rightarrow>
                          if recorded db k 1 = None \<and> \<not> list_ex (\<lambda>d. d_key d = k \<and> d_state d = Rejected) (dispatches db)
                          then [\<lparr>o_key = k, o_generation = 1,
                                 o_outcome = outcome_as_str (reconciliation_terminal_outcome rec), o_settled_at = m\<rparr>] else []
                     | _ \<Rightarrow> []);
              db' = db\<lparr>outcomes := outcomes db @ new,
                       fences := update_where (\<lambda>f. f_ack f = cf_ack cf)
                         (\<lambda>f. f\<lparr>f_reconciliation := coalesce (f_reconciliation f) (reconciliation_as_str rec),
                                f_settled_at := coalesce (f_settled_at f) m\<rparr>) (fences db),
                       acks := (if list_ex (\<lambda>a. a_ack a = cf_ack cf) (acks db) then acks db
                                else acks db @ [\<lparr>a_ack = cf_ack cf, a_acknowledgement = encode_bytes X bs,
                                                 a_staged_at = m, a_forwarded_at = None\<rparr>])\<rparr>
          in (Inr (case (cf_dispatch_key cf, cf_generation cf) of
                     (Some k, Some g) \<Rightarrow>
                        map_option (\<lambda>t. if new \<noteq> [] \<and> k \<noteq> [] \<and> 0 < g then Won else Settled t) (recorded db' k g)
                   | _ \<Rightarrow> None), SqlitePool db')))
    \<and> (\<forall>k. genuine_fence db cf \<longrightarrow> cf_dispatch_key cf = Some k \<longrightarrow> k \<noteq> [] \<longrightarrow>
         fst (settle_task_cancellation X cf rec bs now (SqlitePool db)) =
         Inr (case recorded db k 1 of
                Some t \<Rightarrow> Some (Settled t)
              | None \<Rightarrow> if list_ex (\<lambda>d. d_key d = k \<and> d_state d = Rejected) (dispatches db) then None else Some Won))"
  (is "_ = ?rhs \<and> ?named")
proof
  have ao: "acks_ok (acks db)" using inv by (simp add: pickup_db_inv_def)
  show "settle_task_cancellation X cf rec bs now (SqlitePool db) = ?rhs"
  proof (cases "find (\<lambda>f. f_ack f = cf_ack cf) (fences db)")
    case None
    then show ?thesis by (simp add: settle_task_cancellation_def settle_unknown [OF inv])
  next
    case (Some f)
    then have f: "f \<in> set (fences db)" "f_ack f = cf_ack cf" by (auto dest: find_SomeD)
    have new: "(if cf_dispatch_key cf = None \<or> cf_generation cf = None then [] else settlement_new db f rec (encode_timestamp now)) =
        (case (cf_dispatch_key cf, cf_generation cf, f_key f) of
           (Some _, Some _, Some k) \<Rightarrow>
             if recorded db k 1 = None \<and> \<not> list_ex (\<lambda>d. d_key d = k \<and> d_state d = Rejected) (dispatches db)
             then [\<lparr>o_key = k, o_generation = 1, o_outcome = outcome_as_str (reconciliation_terminal_outcome rec),
                    o_settled_at = encode_timestamp now\<rparr>] else []
         | _ \<Rightarrow> [])"
      by (simp add: settlement_new_def settlement_row_def split: option.split)
    show ?thesis
      unfolding Some option.case Let_def settle_task_cancellation_def on_sqlite_simps
      by (simp only: settle_known [OF inv f new [symmetric] refl] staged_acks_eq [OF ao] settled_fences_def
          settled_fence_def [abs_def] prod.case fst_conv snd_conv)
  qed
  show ?named
    unfolding settle_task_cancellation_def on_sqlite_simps fst_conv by (intro allI impI genuine_settlement [OF inv])
qed

theorem settlement_behaviour_witness:
  "fst (settle_task_cancellation plain_externals demo_fence Killed [9] 4000 (SqlitePool (demo_store demo_cancelled))) = Inr (Some Won)
   \<and> settle_task_cancellation plain_externals (demo_fence\<lparr>cf_ack := ''b''\<rparr>) Killed [9] 4000 (SqlitePool (demo_store demo_cancelled))
     = (Inl sqlx_constraint_error, SqlitePool (demo_store demo_cancelled))"
proof
  show "fst (settle_task_cancellation plain_externals demo_fence Killed [9] 4000 (SqlitePool (demo_store demo_cancelled))) = Inr (Some Won)"
    using demo_cancelled_facts(1,3)
    by (subst settlement_behaviour [OF demo_store_inv, THEN conjunct2, rule_format, OF demo_cancelled_facts(2), of "''k''"])
       (simp_all add: demo_fence_def)
  show "settle_task_cancellation plain_externals (demo_fence\<lparr>cf_ack := ''b''\<rparr>) Killed [9] 4000 (SqlitePool (demo_store demo_cancelled))
     = (Inl sqlx_constraint_error, SqlitePool (demo_store demo_cancelled))"
    by (subst settlement_behaviour [OF demo_store_inv, THEN conjunct1]) (simp add: demo_cancelled_facts(4))
qed

text \<open>Settling twice is settling once: after a settlement, another settlement of the same fence, with
  whatever reconciliation, acknowledgement and time, leaves the store as it is.\<close>

lemma settlement_idempotent:
  assumes inv: "pickup_db_inv db" and gen: "genuine_fence db cf" and k: "cf_dispatch_key cf \<noteq> Some []"
    and s: "snd (settle_task_cancellation X cf rec bs now (SqlitePool db)) = s"
  shows "snd (settle_task_cancellation X cf rec' bs' now' s) = s"
proof -
  let ?m = "encode_timestamp now"
  let ?fs = "settled_fences (cf_ack cf) rec ?m (fences db)" and ?as = "staged_acks X (cf_ack cf) bs ?m (acks db)"
  obtain db1 where db1: "snd (settle_task_cancellation X cf rec bs now (SqlitePool db)) = SqlitePool db1" "pickup_db_inv db1"
    using exec_sqliteE [OF inv, of X "SettleCancellation cf rec bs now"] by auto
  have ao: "acks_ok (acks db)" using inv by (simp add: pickup_db_inv_def)
  from gen obtain f where f: "f \<in> set (fences db)" "f_ack f = cf_ack cf" by (auto simp: genuine_fence_def list_ex_iff)
  have f1: "\<exists>f' \<in> set ?fs. f_ack f' = cf_ack cf \<and> f_key f' = f_key f"
    unfolding settled_fences_def
    by (rule bexI [OF _ update_where_in [OF f(1)]]) (simp add: f(2))
  show ?thesis
  proof (cases "cf_dispatch_key cf")
    case None
    have eq1: "db1 = db\<lparr>fences := ?fs, acks := ?as\<rparr>"
      using db1(1) by (simp add: settle_task_cancellation_def settle_unbound_eq [OF inv f None])
    from f1 obtain f' where f': "f' \<in> set (fences db1)" "f_ack f' = cf_ack cf" by (auto simp: eq1)
    have "snd (settle_task_cancellation_sqlite X cf rec' bs' now' db1) = db1"
      unfolding settle_unbound_eq [OF db1(2) f' None] by (simp add: eq1 settled_fences_idem staged_acks_idem [OF ao])
    with db1 s show ?thesis by (auto simp: settle_task_cancellation_def)
  next
    case (Some key)
    with inv gen obtain g d where g: "g \<in> set (fences db)" "f_ack g = cf_ack cf" "f_key g = Some (d_key d)"
      and d: "d \<in> set (dispatches db)" "d_key d = key" and cf1: "cf_generation cf = Some 1" by (rule genuine_fenceE)
    have "g = f" using inv f g by (auto simp: pickup_db_inv_def dest: fence_ack_unique)
    have ne: "d_key d \<noteq> []" and cfk: "cf_dispatch_key cf = Some (d_key d)" using Some d k by auto
    have eq1: "db1 = db\<lparr>outcomes := (if recorded db (d_key d) 1 = None \<and> d_state d \<noteq> Rejected
        then outcomes db @ [settlement_row (d_key d) rec ?m] else outcomes db), fences := ?fs, acks := ?as\<rparr>"
      using db1(1) by (simp add: settle_task_cancellation_def settle_eq [OF inv g d(1) ne cfk cf1])
    from f1 \<open>g = f\<close> g obtain f' where f': "f' \<in> set (fences db1)" "f_ack f' = cf_ack cf" "f_key f' = Some (d_key d)"
      by (auto simp: eq1)
    have d1: "d \<in> set (dispatches db1)" using d by (simp add: eq1)
    have r1: "recorded db1 (d_key d) 1 \<noteq> None \<or> d_state d = Rejected"
      using recorded_settlement [OF inv] by (auto simp: eq1)
    have "snd (settle_task_cancellation_sqlite X cf rec' bs' now' db1) = db1"
      unfolding settle_eq [OF db1(2) f' d1 ne cfk cf1] using r1
      by (auto simp: eq1 settled_fences_idem staged_acks_idem [OF ao])
    with db1 s show ?thesis by (auto simp: settle_task_cancellation_def)
  qed
qed

lemma settlement_idempotent_witness:
  "snd (settle_task_cancellation plain_externals demo_fence NoProcess [8] 9000
      (SqlitePool (demo_store (demo_cancelled @ [SettleCancellation demo_fence Killed [9] 4000]))))
   = SqlitePool (demo_store (demo_cancelled @ [SettleCancellation demo_fence Killed [9] 4000]))"
proof (rule settlement_idempotent [OF demo_store_inv demo_cancelled_facts(2)])
  show "cf_dispatch_key demo_fence \<noteq> Some []" by (simp add: demo_fence_def)
  show "snd (settle_task_cancellation plain_externals demo_fence Killed [9] 4000 (SqlitePool (demo_store demo_cancelled)))
     = SqlitePool (demo_store (demo_cancelled @ [SettleCancellation demo_fence Killed [9] 4000]))" by code_simp
qed

section \<open>Outboxes\<close>

definition pending_events :: "pickup_db \<Rightarrow> event_row list" where
  "pending_events db = filter (\<lambda>e. e_forwarded_at e = None) (outbox db)"

lemma select_event_Some:
  assumes st: "stored_db X db" and ne: "pending_events db \<noteq> []"
  obtains e bs where "e \<in> set (outbox db)" "e_forwarded_at e = None" "encode_bytes X bs = e_event e"
    "select_pending_task_event X (SqlitePool db) = Inr (Some \<lparr>pe_dispatch_key = e_key e, pe_generation = e_generation e,
       pe_kind = e_kind e, pe_event = bs\<rparr>)"
proof -
  let ?k = "\<lambda>e. (e_staged_at e, e_key e, e_generation e, kind_rank (e_kind e))"
  from ne obtain e where e: "select_first (\<lambda>e. e_forwarded_at e = None) ?k (outbox db) = Some e"
    by (cases "select_first (\<lambda>e. e_forwarded_at e = None) ?k (outbox db)")
       (auto simp: select_first_None pending_events_def filter_empty_conv)
  then have in_e: "e \<in> set (outbox db)" "e_forwarded_at e = None" by (auto dest: select_first_Some)
  with st have "stored_bytes X (e_event e)" by (simp add: stored_db_def list_all_iff)
  then obtain bs where "decode_bytes X (e_event e) = Inr bs" "encode_bytes X bs = e_event e"
    using stored_decode by blast
  with e in_e that show ?thesis
    by (simp add: select_pending_task_event_def select_pending_task_event_sqlite_def transpose_map_def)
qed

text \<open>C18. The event outbox drains: while an event is waiting, the selection returns one, marking that one as
  forwarded succeeds, and exactly one event fewer is waiting.\<close>

theorem forward_event_progress:
  assumes inv: "pickup_db_inv db" and st: "stored_db X db" and ne: "pending_events db \<noteq> []"
  shows "\<exists>pe db'. select_pending_task_event X (SqlitePool db) = Inr (Some pe)
    \<and> mark_task_event_forwarded X pe now (SqlitePool db) = (Inr True, SqlitePool db')
    \<and> length (pending_events db') + 1 = length (pending_events db)"
proof -
  from st ne obtain e bs where e: "e \<in> set (outbox db)" "e_forwarded_at e = None" "encode_bytes X bs = e_event e"
    and sel: "select_pending_task_event X (SqlitePool db) = Inr (Some \<lparr>pe_dispatch_key = e_key e, pe_generation = e_generation e,
       pe_kind = e_kind e, pe_event = bs\<rparr>)" by (rule select_event_Some)
  let ?P = "\<lambda>x. e_key x = e_key e \<and> e_generation x = e_generation e \<and> e_kind x = e_kind e
     \<and> e_event x = encode_bytes X bs \<and> e_forwarded_at x = None"
  let ?f = "\<lambda>x::event_row. x\<lparr>e_forwarded_at := Some (encode_timestamp now)\<rparr>"
  have ok: "outbox_ok (outbox db)" using inv by (simp add: pickup_db_inv_def)
  have "rows_affected ?P (outbox db) = (if \<exists>x \<in> set (outbox db). ?P x then 1 else 0)"
    by (rule rows_affected_key [of "\<lambda>x. (e_key x, e_generation x, e_kind x)" _ _ "(e_key e, e_generation e, e_kind e)"])
       (use ok in \<open>auto simp: outbox_ok_def\<close>)
  with e have one: "rows_affected ?P (outbox db) = 1" by auto
  have "outbox_ok (update_where ?P ?f (outbox db))" using ok by (rule outbox_ok_update) simp
  with sel one filter_update_where_count [of ?P "\<lambda>x. e_forwarded_at x = None" ?f "outbox db"] show ?thesis
    by (simp add: mark_task_event_forwarded_def mark_task_event_forwarded_sqlite_def Let_def sql_update_def pending_events_def)
qed

theorem forward_event_progress_witness:
  "\<exists>pe db'. select_pending_task_event plain_externals (SqlitePool (demo_store [demo_stage, Claim demo_input])) = Inr (Some pe)
    \<and> mark_task_event_forwarded plain_externals pe 5000 (SqlitePool (demo_store [demo_stage, Claim demo_input])) = (Inr True, SqlitePool db')
    \<and> length (pending_events db') + 1 = length (pending_events (demo_store [demo_stage, Claim demo_input]))"
proof (rule forward_event_progress [OF demo_store_inv demo_store_stored])
  show "pending_events (demo_store [demo_stage, Claim demo_input]) \<noteq> []" by code_simp
qed

section \<open>Requests the store cannot serve\<close>

text \<open>C22. Cancelling a task whose dispatch was rejected, under an acknowledgement that names no fence yet,
  fails: the fence would have generation 0, the table constraint drops the row silently, and the reload
  reports a corrupt store although nothing is corrupt. An acknowledgement that already names a fence is
  answered with that fence. Neither changes the store, so a retry is answered in the same way.\<close>

theorem cancel_rejected_dispatch_fails:
  assumes inv: "pickup_db_inv db" and d: "d \<in> set (dispatches db)" "d_state d = Rejected" "d_task d = Some t" "d_workflow d = Some w"
    and ids: "validate_cancellation_identity a = Inr ()" "validate_cancellation_identity t = Inr ()" "validate_cancellation_identity w = Inr ()"
  shows "commit_task_cancellation_fence X a t w now (SqlitePool db) =
    (if list_ex (\<lambda>f. f_ack f = a) (fences db)
     then map_sum id the (load_task_cancellation_fence_sqlite X (\<lambda>f. f_ack f = a) db)
     else Inl (corrupt_value (CorruptStoredValue ''committed cancellation fence could not be reloaded'')), SqlitePool db)"
proof -
  have "find (\<lambda>d. d_task d = Some t \<and> d_workflow d = Some w) (dispatches db) = Some d" using d by (simp add: find_identity [OF inv])
  then have "\<not> fence_check (new_fence db a t w now)" using d(2) by (simp add: fence_check_def fence_target_Some)
  then have ins: "insert_or_ignore fences_ok (new_fence db a t w now) (fences db) = fences db" by (rule bad_fence_ignored)
  have load: "load_task_cancellation_fence_sqlite X (\<lambda>f. f_ack f = a) db = Inr None \<longleftrightarrow> \<not> list_ex (\<lambda>f. f_ack f = a) (fences db)"
    by (auto simp: load_task_cancellation_fence_sqlite_def transpose_map_def select_first_None list_ex_iff Let_def
        split: option.splits sum.splits dest!: select_first_Some)
  show ?thesis
    using ids ins load
    by (auto simp: commit_task_cancellation_fence_def commit_eq [OF inv] Let_def split: sum.split option.split)
qed

theorem cancel_rejected_dispatch_fails_witness:
  "commit_task_cancellation_fence plain_externals ''a'' ''t'' ''w'' 4000
     (SqlitePool (demo_store [demo_stage, RejectDispatch ''k'' ''bad'' 1000])) =
   (Inl (corrupt_value (CorruptStoredValue ''committed cancellation fence could not be reloaded'')),
    SqlitePool (demo_store [demo_stage, RejectDispatch ''k'' ''bad'' 1000]))"
proof -
  let ?db = "demo_store [demo_stage, RejectDispatch ''k'' ''bad'' 1000]"
  have "hd (dispatches ?db) \<in> set (dispatches ?db)" "d_state (hd (dispatches ?db)) = Rejected"
    "d_task (hd (dispatches ?db)) = Some ''t''" "d_workflow (hd (dispatches ?db)) = Some ''w''"
    "validate_cancellation_identity ''a'' = Inr ()" "validate_cancellation_identity ''t'' = Inr ()"
    "validate_cancellation_identity ''w'' = Inr ()" "\<not> list_ex (\<lambda>f. f_ack f = ''a'') (fences ?db)"
    by code_simp+
  with cancel_rejected_dispatch_fails [OF demo_store_inv, of "hd (dispatches ?db)" _ "''t''" "''w''" "''a''" plain_externals 4000]
  show ?thesis by simp
qed

lemma case_sum_Inl: "(\<And>y. \<exists>e. f y = Inl e) \<Longrightarrow> \<exists>e. (case x of Inl e \<Rightarrow> Inl e | Inr y \<Rightarrow> f y) = Inl e"
  by (cases x) auto

text \<open>C23. While a dispatch has a cancellation fence that is not yet reconciled, its snapshot cannot be
  read: the nullable reconciliation column is read as a text.\<close>

theorem snapshot_unsettled_fence_fails:
  assumes inv: "pickup_db_inv db" and f: "f \<in> set (fences db)" "f_key f = Some k" "f_reconciliation f = None"
  shows "\<exists>e. task_pickup_snapshot X k (SqlitePool db) = Inl e"
proof -
  from inv f(1,2) obtain d where d: "d \<in> set (dispatches db)" "d_key d = k" "d_task d = Some (f_task f)" "d_workflow d = Some (f_workflow f)"
    by (rule bound_fenceE)
  have ok: "dispatches_ok (dispatches db)" "distinct (map (\<lambda>f. (f_task f, f_workflow f)) (fences db))"
    using inv by (simp_all add: pickup_db_inv_def fences_ok_def)
  have only: "g = f" if "g \<in> set (fences db)" "f_key g = Some k" for g
  proof -
    from inv that obtain d' where d': "d' \<in> set (dispatches db)" "d_key d' = k" "d_task d' = Some (f_task g)" "d_workflow d' = Some (f_workflow g)"
      by (rule bound_fenceE)
    have "d' = d" by (rule dispatch_key_unique [OF ok(1) d'(1) d(1)]) (simp add: d d')
    with d d' have "(f_task g, f_workflow g) = (f_task f, f_workflow f)" by simp
    with ok(2) that(1) f(1) show ?thesis by (rule distinct_map_inj)
  qed
  have "find (\<lambda>f. f_key f = Some k) (fences db) \<noteq> None" using f(1,2) by (simp add: find_None_iff) blast
  then obtain g where g: "find (\<lambda>f. f_key f = Some k) (fences db) = Some g" by blast
  have "g = f" using find_SomeD [OF g] by (intro only) simp_all
  with g f(3) have bad: "fence_reconciliation_sqlite k db = Inl (corrupt_value (CorruptStoredValue []))"
    by (simp add: fence_reconciliation_sqlite_def)
  have "find (\<lambda>d. d_key d = k) (dispatches db) \<noteq> None" using d(1,2) by (simp add: find_None_iff) blast
  then obtain x where x: "find (\<lambda>d. d_key d = k) (dispatches db) = Some x" by blast
  show ?thesis
    unfolding task_pickup_snapshot_def read_sqlite_simps task_pickup_snapshot_sqlite_def Let_def x option.case
    by (rule case_sum_Inl, rule case_sum_Inl, rule case_sum_Inl, rule case_sum_Inl) (simp add: bad)
qed

theorem snapshot_unsettled_fence_fails_witness:
  "\<exists>e. task_pickup_snapshot plain_externals ''k'' (SqlitePool (demo_store demo_cancelled)) = Inl e"
proof (rule snapshot_unsettled_fence_fails [OF demo_store_inv])
  show "hd (fences (demo_store demo_cancelled)) \<in> set (fences (demo_store demo_cancelled))"
    "f_key (hd (fences (demo_store demo_cancelled))) = Some ''k''"
    "f_reconciliation (hd (fences (demo_store demo_cancelled))) = None"
    by code_simp+
qed

end
