(* ===== verification/Sha256.thy ===== *)
theory Sha256
  imports Tickr_Prelude
begin

text \<open>
  The SHA-256 implementation of \<^verbatim>\<open>src/src/migrations/src/scope_repository.rs\<close> (\<open>sha256\<close>, \<open>sha256_hex\<close>): the
  padding loop, the message schedule as an array that is filled in place, the 64 rounds over eight
  working variables. It is proved equal to the recurrences of FIPS 180-4, and its digests to have the
  length the snapshot format relies on. Constants are written in decimal.
\<close>

unbundle bit_operations_syntax

type_synonym u32 = "32 word"
type_synonym u64 = "64 word"

section \<open>Big-endian words\<close>

definition u32_to_be_bytes :: "u32 \<Rightarrow> bytes" where
  "u32_to_be_bytes w = [ucast (drop_bit 24 w), ucast (drop_bit 16 w), ucast (drop_bit 8 w), ucast w]"

definition u64_to_be_bytes :: "u64 \<Rightarrow> bytes" where
  "u64_to_be_bytes w = map (\<lambda>i. ucast (drop_bit (8 * i) w)) [7, 6, 5, 4, 3, 2, 1, 0]"

definition u32_from_be_bytes :: "bytes \<Rightarrow> u32" where
  "u32_from_be_bytes bs =
     push_bit 24 (ucast (bs ! 0)) OR push_bit 16 (ucast (bs ! 1)) OR push_bit 8 (ucast (bs ! 2)) OR ucast (bs ! 3)"

section \<open>The implementation\<close>

definition sha_K :: "u32 list" where
  "sha_K =
    [1116352408, 1899447441, 3049323471, 3921009573, 961987163, 1508970993,
     2453635748, 2870763221, 3624381080, 310598401, 607225278, 1426881987,
     1925078388, 2162078206, 2614888103, 3248222580, 3835390401, 4022224774,
     264347078, 604807628, 770255983, 1249150122, 1555081692, 1996064986,
     2554220882, 2821834349, 2952996808, 3210313671, 3336571891, 3584528711,
     113926993, 338241895, 666307205, 773529912, 1294757372, 1396182291,
     1695183700, 1986661051, 2177026350, 2456956037, 2730485921, 2820302411,
     3259730800, 3345764771, 3516065817, 3600352804, 4094571909, 275423344,
     430227734, 506948616, 659060556, 883997877, 958139571, 1322822218,
     1537002063, 1747873779, 1955562222, 2024104815, 2227730452, 2361852424,
     2428436474, 2756734187, 3204031479, 3329325298]"

definition sha_H0 :: "u32 list" where
  "sha_H0 =
    [1779033703, 3144134277, 1013904242, 2773480762, 1359893119, 2600822924,
     528734635, 1541459225]"

definition pad_left :: "nat \<Rightarrow> nat" where
  "pad_left r = (if r \<le> 56 then 56 - r else 120 - r)"

lemma pad_left_step:
  assumes "n mod 64 \<noteq> 56"
  shows "pad_left (n mod 64) = Suc (pad_left (Suc n mod 64))"
proof -
  define r where "r = n mod 64"
  have r: "r < 64" "r \<noteq> 56" using assms by (simp_all add: r_def)
  have "Suc n mod 64 = (if r = 63 then 0 else Suc r)" by (simp add: mod_Suc r_def)
  then show ?thesis using r unfolding r_def [symmetric] by (auto simp: pad_left_def)
qed

text \<open>\<open>while padded.len() % 64 != 56 { padded.push(0) }\<close>.\<close>

function pad_zeros :: "bytes \<Rightarrow> bytes" where
  "pad_zeros p = (if length p mod 64 = 56 then p else pad_zeros (p @ [0]))"
  by auto
termination
  by (relation "measure (\<lambda>p. pad_left (length p mod 64))") (simp_all add: pad_left_step)

declare pad_zeros.simps [simp del]

definition sha_padded :: "bytes \<Rightarrow> bytes" where
  "sha_padded input =
     pad_zeros (input @ [0x80]) @ u64_to_be_bytes (of_nat (length input) * 8)"

text \<open>\<open>chunks_exact(64)\<close>.\<close>

fun chunks_exact :: "bytes \<Rightarrow> bytes list" where
  "chunks_exact bs = (if length bs < 64 then [] else take 64 bs # chunks_exact (drop 64 bs))"

declare chunks_exact.simps [simp del]

text \<open>The first sixteen words of the schedule, and the loop that fills the other ones.\<close>

definition words_init :: "bytes \<Rightarrow> u32 list" where
  "words_init chunk =
     map (\<lambda>i. u32_from_be_bytes (take 4 (drop (i * 4) chunk))) [0..<16] @ replicate 48 0"

definition words_step :: "nat \<Rightarrow> u32 list \<Rightarrow> u32 list" where
  "words_step index ws =
     (let w15 = ws ! (index - 15);
          w2 = ws ! (index - 2);
          s0 = word_rotr 7 w15 XOR word_rotr 18 w15 XOR drop_bit 3 w15;
          s1 = word_rotr 17 w2 XOR word_rotr 19 w2 XOR drop_bit 10 w2
      in ws[index := ws ! (index - 16) + s0 + ws ! (index - 7) + s1])"

definition sha_words :: "bytes \<Rightarrow> u32 list" where
  "sha_words chunk = fold words_step [16..<64] (words_init chunk)"

type_synonym working = "u32 \<times> u32 \<times> u32 \<times> u32 \<times> u32 \<times> u32 \<times> u32 \<times> u32"

definition round_step :: "u32 list \<Rightarrow> nat \<Rightarrow> working \<Rightarrow> working" where
  "round_step ws index st =
     (case st of (a, b, c, d, e, f, g, h) \<Rightarrow>
       let s1 = word_rotr 6 e XOR word_rotr 11 e XOR word_rotr 25 e;
           choice = (e AND f) XOR (NOT e AND g);
           temp1 = h + s1 + choice + sha_K ! index + ws ! index;
           s0 = word_rotr 2 a XOR word_rotr 13 a XOR word_rotr 22 a;
           majority = (a AND b) XOR (a AND c) XOR (b AND c);
           temp2 = s0 + majority
       in (temp1 + temp2, a, b, c, d + temp1, e, f, g))"

definition working_of :: "u32 list \<Rightarrow> working" where
  "working_of st = (st ! 0, st ! 1, st ! 2, st ! 3, st ! 4, st ! 5, st ! 6, st ! 7)"

definition working_list :: "working \<Rightarrow> u32 list" where
  "working_list st = (case st of (a, b, c, d, e, f, g, h) \<Rightarrow> [a, b, c, d, e, f, g, h])"

definition sha_chunk :: "bytes \<Rightarrow> u32 list \<Rightarrow> u32 list" where
  "sha_chunk chunk st =
     (let ws = sha_words chunk
      in map2 (+) st (working_list (fold (round_step ws) [0..<64] (working_of st))))"

definition sha256 :: "bytes \<Rightarrow> bytes" where
  "sha256 input = concat (map u32_to_be_bytes (fold sha_chunk (chunks_exact (sha_padded input)) sha_H0))"

definition hex_digit :: "byte \<Rightarrow> char" where
  "hex_digit b = ''0123456789abcdef'' ! unat b"

definition sha256_hex :: "bytes \<Rightarrow> string" where
  "sha256_hex input = concat (map (\<lambda>b. [hex_digit (drop_bit 4 b), hex_digit (b AND 0x0f)]) (sha256 input))"

section \<open>FIPS 180-4\<close>

text \<open>The functions of section 4.1.2, the padding of 5.1.1 and the recurrences of 6.2.2 of the standard,
  over 32-bit words.\<close>

definition fips_Ch :: "u32 \<Rightarrow> u32 \<Rightarrow> u32 \<Rightarrow> u32" where
  "fips_Ch x y z = (x AND y) XOR (NOT x AND z)"

definition fips_Maj :: "u32 \<Rightarrow> u32 \<Rightarrow> u32 \<Rightarrow> u32" where
  "fips_Maj x y z = (x AND y) XOR (x AND z) XOR (y AND z)"

definition fips_Sigma0 :: "u32 \<Rightarrow> u32" where
  "fips_Sigma0 x = word_rotr 2 x XOR word_rotr 13 x XOR word_rotr 22 x"

definition fips_Sigma1 :: "u32 \<Rightarrow> u32" where
  "fips_Sigma1 x = word_rotr 6 x XOR word_rotr 11 x XOR word_rotr 25 x"

definition fips_sigma0 :: "u32 \<Rightarrow> u32" where
  "fips_sigma0 x = word_rotr 7 x XOR word_rotr 18 x XOR drop_bit 3 x"

definition fips_sigma1 :: "u32 \<Rightarrow> u32" where
  "fips_sigma1 x = word_rotr 17 x XOR word_rotr 19 x XOR drop_bit 10 x"

fun fips_W :: "(nat \<Rightarrow> u32) \<Rightarrow> nat \<Rightarrow> u32" where
  "fips_W M t = (if t < 16 then M t
     else fips_sigma1 (fips_W M (t - 2)) + fips_W M (t - 7) + fips_sigma0 (fips_W M (t - 15)) + fips_W M (t - 16))"

declare fips_W.simps [simp del]

text \<open>The eight working variables after \<open>t\<close> rounds.\<close>

primrec fips_round :: "(nat \<Rightarrow> u32) \<Rightarrow> u32 list \<Rightarrow> nat \<Rightarrow> working" where
  "fips_round W H 0 = (H ! 0, H ! 1, H ! 2, H ! 3, H ! 4, H ! 5, H ! 6, H ! 7)"
| "fips_round W H (Suc t) =
     (case fips_round W H t of (a, b, c, d, e, f, g, h) \<Rightarrow>
        let T1 = h + fips_Sigma1 e + fips_Ch e f g + sha_K ! t + W t;
            T2 = fips_Sigma0 a + fips_Maj a b c
        in (T1 + T2, a, b, c, d + T1, e, f, g))"

definition fips_block :: "bytes \<Rightarrow> nat \<Rightarrow> nat \<Rightarrow> u32" where
  "fips_block p i j = u32_from_be_bytes (map (\<lambda>k. p ! (64 * i + 4 * j + k)) [0..<4])"

primrec fips_hash :: "bytes \<Rightarrow> nat \<Rightarrow> u32 list" where
  "fips_hash p 0 = sha_H0"
| "fips_hash p (Suc i) =
     (case fips_round (fips_W (fips_block p i)) (fips_hash p i) 64 of (a, b, c, d, e, f, g, h) \<Rightarrow>
        map2 (+) (fips_hash p i) [a, b, c, d, e, f, g, h])"

text \<open>A message of \<open>l\<close> bytes is followed by the byte 0x80, the least number of zero bytes that
  leaves eight bytes of the block for the length, and the length in bits as a 64-bit number.\<close>

definition fips_padded :: "bytes \<Rightarrow> bytes" where
  "fips_padded M = M @ [0x80] @ replicate (pad_left (Suc (length M) mod 64)) 0 @ u64_to_be_bytes (of_nat (8 * length M))"

definition fips_sha256 :: "bytes \<Rightarrow> bytes" where
  "fips_sha256 M = (let p = fips_padded M in concat (map u32_to_be_bytes (fips_hash p (length p div 64))))"

section \<open>Padding\<close>

lemma pad_zeros_eq: "pad_zeros p = p @ replicate (pad_left (length p mod 64)) 0"
proof (induction p rule: pad_zeros.induct)
  case (1 p)
  show ?case
  proof (cases "length p mod 64 = 56")
    case True
    then show ?thesis by (simp add: pad_zeros.simps pad_left_def)
  next
    case False
    then show ?thesis
      using 1 pad_left_step [OF False] by (simp add: pad_zeros.simps [of p])
  qed
qed

lemma sha_padded_eq: "sha_padded M = fips_padded M"
  by (simp add: sha_padded_def fips_padded_def pad_zeros_eq mult.commute)

lemma u64_to_be_bytes_length [simp]: "length (u64_to_be_bytes w) = 8"
  by (simp add: u64_to_be_bytes_def)

lemma pad_left_fills: "r < 64 \<Longrightarrow> (r + pad_left r) mod 64 = 56"
  by (auto simp: pad_left_def)

lemma fips_padded_mod: "length (fips_padded M) mod 64 = 0"
proof -
  let ?n = "Suc (length M)"
  have "(?n mod 64 + pad_left (?n mod 64)) mod 64 = 56" by (rule pad_left_fills) simp
  then have "(?n + pad_left (?n mod 64)) mod 64 = 56" by (simp add: mod_add_left_eq)
  then have "(?n + pad_left (?n mod 64) + 8) mod 64 = (56 + 8) mod 64" by (metis mod_add_left_eq)
  then show ?thesis by (simp add: fips_padded_def ac_simps)
qed

section \<open>Message schedule\<close>

lemma words_step_length [simp]: "length (words_step i ws) = length ws"
  by (simp add: words_step_def Let_def)

lemma words_init_length [simp]: "length (words_init c) = 64"
  by (simp add: words_init_def)

lemma sha_words_prefix:
  assumes "16 \<le> n" "n \<le> 64" and M: "\<And>j. j < 16 \<Longrightarrow> M j = u32_from_be_bytes (take 4 (drop (j * 4) c))"
  shows "length (fold words_step [16..<n] (words_init c)) = 64
    \<and> (\<forall>t < n. fold words_step [16..<n] (words_init c) ! t = fips_W M t)"
  using assms(1,2)
proof (induction n rule: dec_induct)
  case base
  show ?case using M by (auto simp: words_init_def nth_append fips_W.simps)
next
  case (step n)
  define ws where "ws = fold words_step [16..<n] (words_init c)"
  have ws: "length ws = 64" "\<And>t. t < n \<Longrightarrow> ws ! t = fips_W M t" using step by (simp_all add: ws_def)
  have "words_step n ws ! t = fips_W M t" if "t < Suc n" for t
  proof (cases "t = n")
    case True
    then show ?thesis
      using ws step by (simp add: words_step_def Let_def fips_W.simps [of M n] fips_sigma0_def fips_sigma1_def ac_simps)
  next
    case False
    then show ?thesis using ws that by (simp add: words_step_def Let_def)
  qed
  then show ?case using step ws by (simp add: ws_def [symmetric])
qed

lemma sha_words_eq:
  "(\<And>j. j < 16 \<Longrightarrow> M j = u32_from_be_bytes (take 4 (drop (j * 4) c))) \<Longrightarrow> t < 64 \<Longrightarrow> sha_words c ! t = fips_W M t"
  using sha_words_prefix [of 64 M c] by (simp add: sha_words_def)

section \<open>Rounds\<close>

lemma rounds_eq:
  assumes "\<And>t. t < n \<Longrightarrow> ws ! t = W t"
  shows "fold (round_step ws) [0..<n] (working_of st) = fips_round W st n"
  using assms
proof (induction n)
  case 0
  show ?case by (simp add: working_of_def)
next
  case (Suc n)
  then have IH: "fold (round_step ws) [0..<n] (working_of st) = fips_round W st n" and n: "ws ! n = W n" by simp_all
  have "fips_round W st (Suc n) = round_step ws n (fips_round W st n)"
    by (simp add: round_step_def n fips_Sigma0_def fips_Sigma1_def fips_Ch_def fips_Maj_def)
  then show ?case by (simp add: IH)
qed

section \<open>Blocks\<close>

lemma chunks_exact_eq: "chunks_exact p = map (\<lambda>i. take 64 (drop (64 * i) p)) [0..<length p div 64]"
proof (induction p rule: chunks_exact.induct)
  case (1 p)
  show ?case
  proof (cases "length p < 64")
    case True
    then show ?thesis by (simp add: chunks_exact.simps)
  next
    case False
    then have n: "length p div 64 = Suc ((length p - 64) div 64)" by (simp add: div_if)
    from False 1 show ?thesis
      by (simp add: chunks_exact.simps [of p] n map_upt_Suc add.commute del: upt_Suc)
  qed
qed

lemma block_word:
  assumes "Suc i * 64 \<le> length p" "j < 16"
  shows "fips_block p i j = u32_from_be_bytes (take 4 (drop (j * 4) (take 64 (drop (64 * i) p))))"
proof -
  have "map (\<lambda>k. p ! (64 * i + 4 * j + k)) [0..<4] = take 4 (drop (j * 4) (take 64 (drop (64 * i) p)))"
    using assms by (intro nth_equalityI) (auto simp: ac_simps)
  then show ?thesis by (simp add: fips_block_def)
qed

lemma sha_hash_eq:
  assumes "n \<le> length p div 64"
  shows "fold sha_chunk (map (\<lambda>i. take 64 (drop (64 * i) p)) [0..<n]) sha_H0 = fips_hash p n"
  using assms
proof (induction n)
  case (Suc n)
  let ?c = "take 64 (drop (64 * n) p)"
  have len: "Suc n * 64 \<le> length p" using Suc.prems by (simp add: less_eq_div_iff_mult_less_eq)
  have "sha_words ?c ! t = fips_W (fips_block p n) t" if "t < 64" for t
    using block_word [OF len] that by (rule sha_words_eq)
  then have "fold (round_step (sha_words ?c)) [0..<64] (working_of (fips_hash p n))
      = fips_round (fips_W (fips_block p n)) (fips_hash p n) 64" by (rule rounds_eq)
  with Suc show ?case by (simp add: sha_chunk_def working_list_def split: prod.split)
qed simp

lemma sha256_fips: "sha256 M = fips_sha256 M"
  using sha_hash_eq [of "length (fips_padded M) div 64" "fips_padded M"]
  by (simp add: sha256_def fips_sha256_def Let_def sha_padded_eq chunks_exact_eq)

section \<open>Lengths\<close>

lemma fips_hash_length: "length (fips_hash p n) = 8"
  by (induction n) (simp_all add: sha_H0_def split: prod.split)

lemma u32_to_be_bytes_length [simp]: "length (u32_to_be_bytes w) = 4"
  by (simp add: u32_to_be_bytes_def)

lemma length_concat_const: "(\<And>x. length (f x) = k) \<Longrightarrow> length (concat (map f xs)) = k * length xs"
  by (induction xs) simp_all

lemma sha256_length: "length (sha256 M) = 32"
  by (simp add: sha256_fips fips_sha256_def Let_def length_concat_const [of u32_to_be_bytes 4] fips_hash_length)

lemma sha256_hex_length: "length (sha256_hex M) = 64"
  by (simp add: sha256_hex_def length_concat_const [of _ 2] sha256_length)

section \<open>Round trip of big-endian words\<close>

lemma u32_be_roundtrip [codec_simps]: "u32_from_be_bytes (u32_to_be_bytes w) = w"
proof (rule bit_word_eqI)
  fix n assume "n < LENGTH(32)"
  then consider "n < 8" | "8 \<le> n" "n < 16" | "16 \<le> n" "n < 24" | "24 \<le> n" "n < 32" by fastforce
  then show "bit (u32_from_be_bytes (u32_to_be_bytes w)) n = bit w n"
    by cases (auto simp: u32_from_be_bytes_def u32_to_be_bytes_def bit_simps)
qed

lemma u32_be_bytes:
  assumes "length bs = 4"
  shows "u32_to_be_bytes (u32_from_be_bytes bs) = bs"
proof -
  from assms obtain a b c d where bs: "bs = [a, b, c, d]" by (auto simp: length_Suc_conv numeral_eq_Suc)
  have far: "\<not> bit x (8 + n)" "\<not> bit x (16 + n)" "\<not> bit x (24 + n)" for x :: byte and n
    using bit_imp_le_length [of x] by fastforce+
  show ?thesis
    by (auto simp: bs u32_from_be_bytes_def u32_to_be_bytes_def far bit_simps intro!: bit_word_eqI)
qed

section \<open>Properties\<close>

text \<open>C34. The in-source SHA-256 computes the hash function of FIPS 180-4: the padding loop, the in-place
  message schedule and the rounds over mutable variables agree with the recurrences of the standard
  on every input.\<close>

theorem sha256_is_fips: "sha256 M = fips_sha256 M"
  by (rule sha256_fips)

text \<open>The digest of the empty input, in hexadecimal, is the published one (which fixes the constants
  and the order of the bytes).\<close>

lemma sha256_hex_empty:
  "sha256_hex [] = ''e3b0c44298fc1c149afbf4c8996fb92427ae41e4649b934ca495991b7852b855''"
  by code_simp

end
