(* ===== verification/Scope_Snapshot.thy ===== *)
theory Scope_Snapshot
  imports Sha256 Json_Encoding
begin

text \<open>
  The snapshot format of tickr-ctx scopes, \<open>encode_snapshot\<close> and \<open>decode_tickr_ctx_scope_snapshot\<close> of
  \<^verbatim>\<open>src/src/migrations/src/scope_repository.rs\<close>: a magic number, the number of values, and for each value
  its key and its envelope, each preceded by its length as a big-endian 32-bit number. An \<open>expect\<close>
  that fails is the value None. Decoding is the inverse of encoding in both directions.
\<close>

section \<open>Text and bytes\<close>

text \<open>A Rust string is its UTF-8 bytes; \<open>String::from_utf8\<close> accepts the well-formed byte sequences of the
  Unicode standard (table 3-7).\<close>

definition as_bytes :: "string \<Rightarrow> bytes" where
  "as_bytes s = map (\<lambda>c. of_nat (of_char c)) s"

definition text_of_bytes :: "bytes \<Rightarrow> string" where
  "text_of_bytes bs = map (\<lambda>b. char_of (unat b)) bs"

definition utf8_cont :: "byte \<Rightarrow> bool" where
  "utf8_cont b \<longleftrightarrow> 0x80 \<le> b \<and> b \<le> 0xBF"

fun utf8_valid :: "bytes \<Rightarrow> bool" where
  "utf8_valid [] = True"
| "utf8_valid (b # bs) =
     (if b < 0x80 then utf8_valid bs
      else if 0xC2 \<le> b \<and> b \<le> 0xDF then
        (case bs of c1 # r \<Rightarrow> utf8_cont c1 \<and> utf8_valid r | _ \<Rightarrow> False)
      else if 0xE0 \<le> b \<and> b \<le> 0xEF then
        (case bs of c1 # c2 # r \<Rightarrow>
           utf8_cont c1 \<and> utf8_cont c2 \<and> (b = 0xE0 \<longrightarrow> 0xA0 \<le> c1) \<and> (b = 0xED \<longrightarrow> c1 \<le> 0x9F) \<and> utf8_valid r
         | _ \<Rightarrow> False)
      else if 0xF0 \<le> b \<and> b \<le> 0xF4 then
        (case bs of c1 # c2 # c3 # r \<Rightarrow>
           utf8_cont c1 \<and> utf8_cont c2 \<and> utf8_cont c3 \<and> (b = 0xF0 \<longrightarrow> 0x90 \<le> c1) \<and> (b = 0xF4 \<longrightarrow> c1 \<le> 0x8F) \<and> utf8_valid r
         | _ \<Rightarrow> False)
      else False)"

definition from_utf8 :: "bytes \<Rightarrow> string option" where
  "from_utf8 bs = (if utf8_valid bs then Some (text_of_bytes bs) else None)"

section \<open>Errors and data\<close>

datatype scope_error_source =
    ScopeRequiresSqlite
  | InvalidNamespace
  | InvalidRunId
  | InvalidKey
  | DuplicateKey string
  | ScopeCorrupt string
  | ScopeConstraint

text \<open>A \<open>RepositoryError\<close>, or the panic of an \<open>expect\<close>.\<close>

datatype scope_error =
    ScopeError repository_error_kind scope_error_source
  | ScopePanic

type_synonym 'a scope_result = "scope_error + 'a"

definition scope_configuration_error :: "scope_error_source \<Rightarrow> scope_error" where
  "scope_configuration_error e = ScopeError Configuration e"

definition scope_corrupt_value :: "string \<Rightarrow> scope_error" where
  "scope_corrupt_value m = ScopeError CorruptStored (ScopeCorrupt m)"

record stored_scope_value =
  sv_key :: string
  sv_identity :: string
  sv_envelope :: bytes
  sv_created_at :: datetime
  sv_updated_at :: datetime

record scope_snapshot =
  ss_scope_id :: uuid
  ss_bytes :: bytes
  ss_digest :: string
  ss_row_count :: nat
  ss_value_bytes :: nat

text \<open>\<open>b"TICKR_CTX_SCOPE\\0\\x01"\<close>.\<close>

definition SNAPSHOT_MAGIC :: bytes where
  "SNAPSHOT_MAGIC = as_bytes ''TICKR_CTX_SCOPE'' @ [0, 1]"

section \<open>Encoding\<close>

definition u32_of_len :: "nat \<Rightarrow> u32 option" where
  "u32_of_len n = (if n < 2 ^ 32 then Some (of_nat n) else None)"

definition append_len_prefixed :: "bytes \<Rightarrow> bytes \<Rightarrow> bytes option" where
  "append_len_prefixed target v =
     map_option (\<lambda>w. target @ u32_to_be_bytes w @ v) (u32_of_len (length v))"

fun append_values :: "bytes \<Rightarrow> (bytes \<times> bytes) list \<Rightarrow> bytes option" where
  "append_values target [] = Some target"
| "append_values target ((k, e) # vs) =
     Option.bind (append_len_prefixed target k)
       (\<lambda>t. Option.bind (append_len_prefixed t e) (\<lambda>t. append_values t vs))"

definition encode_snapshot :: "stored_scope_value list \<Rightarrow> bytes option" where
  "encode_snapshot vs =
     Option.bind (u32_of_len (length vs))
       (\<lambda>w. append_values (SNAPSHOT_MAGIC @ u32_to_be_bytes w)
              (map (\<lambda>v. (as_bytes (sv_key v), sv_envelope v)) vs))"

section \<open>Decoding\<close>

text \<open>\<open>bytes.get(a..b)\<close>.\<close>

definition get_range :: "bytes \<Rightarrow> nat \<Rightarrow> nat \<Rightarrow> bytes option" where
  "get_range bs a b = (if a \<le> b \<and> b \<le> length bs then Some (take (b - a) (drop a bs)) else None)"

definition read_snapshot_length :: "bytes \<Rightarrow> nat \<Rightarrow> (u32 \<times> nat) scope_result" where
  "read_snapshot_length bs offset =
     (case checked_add_usize offset 4 of
        None \<Rightarrow> Inl (scope_corrupt_value ''scope snapshot offset overflowed'')
      | Some fin \<Rightarrow> (case get_range bs offset fin of
          None \<Rightarrow> Inl (scope_corrupt_value ''scope snapshot is truncated'')
        | Some raw \<Rightarrow> Inr (u32_from_be_bytes raw, fin)))"

definition read_snapshot_bytes :: "bytes \<Rightarrow> nat \<Rightarrow> (bytes \<times> nat) scope_result" where
  "read_snapshot_bytes bs offset =
     (case read_snapshot_length bs offset of
        Inl e \<Rightarrow> Inl e
      | Inr (len, offset) \<Rightarrow> (case checked_add_usize offset (unat len) of
          None \<Rightarrow> Inl (scope_corrupt_value ''scope snapshot length overflowed'')
        | Some fin \<Rightarrow> (case get_range bs offset fin of
            None \<Rightarrow> Inl (scope_corrupt_value ''scope snapshot is truncated'')
          | Some v \<Rightarrow> Inr (v, fin))))"

text \<open>The loop \<open>for _ in 0..count\<close>, with the offset and the sum of the envelope lengths.\<close>

fun decode_values :: "nat \<Rightarrow> bytes \<Rightarrow> nat \<Rightarrow> nat \<Rightarrow> ((string \<times> bytes) list \<times> nat \<times> nat) scope_result" where
  "decode_values 0 bs offset vb = Inr ([], offset, vb)"
| "decode_values (Suc n) bs offset vb =
     (case read_snapshot_bytes bs offset of
        Inl e \<Rightarrow> Inl e
      | Inr (kb, offset) \<Rightarrow> (case from_utf8 kb of
          None \<Rightarrow> Inl (scope_corrupt_value ''scope snapshot contains a non-UTF-8 key'')
        | Some key \<Rightarrow> (case read_snapshot_bytes bs offset of
            Inl e \<Rightarrow> Inl e
          | Inr (env, offset) \<Rightarrow> (case checked_add_usize vb (length env) of
              None \<Rightarrow> Inl (scope_corrupt_value ''scope snapshot byte count overflowed'')
            | Some vb \<Rightarrow> (case decode_values n bs offset vb of
                Inl e \<Rightarrow> Inl e
              | Inr (vs, offset, vb) \<Rightarrow> Inr ((key, env) # vs, offset, vb))))))"

definition starts_with :: "bytes \<Rightarrow> bytes \<Rightarrow> bool" where
  "starts_with bs p \<longleftrightarrow> take (length p) bs = p"

definition decode_tickr_ctx_scope_snapshot :: "scope_snapshot \<Rightarrow> (string \<times> bytes) list scope_result" where
  "decode_tickr_ctx_scope_snapshot s =
     (if \<not> starts_with (ss_bytes s) SNAPSHOT_MAGIC \<or> sha256_hex (ss_bytes s) \<noteq> ss_digest s
      then Inl (scope_corrupt_value ''scope snapshot format or digest is invalid'')
      else (case read_snapshot_length (ss_bytes s) (length SNAPSHOT_MAGIC) of
        Inl e \<Rightarrow> Inl e
      | Inr (n, offset) \<Rightarrow>
          (if unat n \<noteq> ss_row_count s
           then Inl (scope_corrupt_value ''scope snapshot row count does not match its metadata'')
           else (case decode_values (unat n) (ss_bytes s) offset 0 of
             Inl e \<Rightarrow> Inl e
           | Inr (vs, offset, vb) \<Rightarrow>
               if offset \<noteq> length (ss_bytes s) \<or> vb \<noteq> ss_value_bytes s
               then Inl (scope_corrupt_value ''scope snapshot payload or byte count does not match its metadata'')
               else Inr vs))))"

section \<open>Encoding and decoding are inverse\<close>

lemma unat_byte_less: "unat (b :: byte) < 256"
  by (rule order_less_le_trans [OF unsigned_less]) simp

lemma unat_u32_less: "unat (w :: u32) < 2 ^ 32"
  by (rule order_less_le_trans [OF unsigned_less]) simp

lemma text_bytes_inverse [simp]:
  "text_of_bytes (as_bytes s) = s" "as_bytes (text_of_bytes bs) = bs"
proof -
  have c: "char_of (unat (of_nat (of_char c) :: byte)) = c" for c :: char
    by (simp add: unat_of_nat of_char_mod_256)
  have b: "of_nat (of_char (char_of (unat b) :: char)) = b" for b :: byte
    using unat_byte_less [of b] by simp
  show "text_of_bytes (as_bytes s) = s" "as_bytes (text_of_bytes bs) = bs"
    by (simp_all add: text_of_bytes_def as_bytes_def comp_def c b del: of_char_of)
qed

lemma length_u32_to_be_bytes [simp]: "length (u32_to_be_bytes w) = 4"
  by (simp add: u32_to_be_bytes_def)

text \<open>The text of a value as the format lays it out.\<close>

definition len_prefixed :: "bytes \<Rightarrow> bytes" where
  "len_prefixed v = u32_to_be_bytes (of_nat (length v)) @ v"

definition laid_out :: "(bytes \<times> bytes) list \<Rightarrow> bytes" where
  "laid_out vs = concat (map (\<lambda>(k, e). len_prefixed k @ len_prefixed e) vs)"

definition u32_sized :: "(bytes \<times> bytes) list \<Rightarrow> bool" where
  "u32_sized vs \<longleftrightarrow> (\<forall>(k, e) \<in> set vs. length k < 2 ^ 32 \<and> length e < 2 ^ 32)"

lemma laid_out_Nil [simp]: "laid_out [] = []"
  by (simp add: laid_out_def)

lemma append_len_prefixed_eq:
  "append_len_prefixed t v = (if length v < 2 ^ 32 then Some (t @ len_prefixed v) else None)"
  by (simp add: append_len_prefixed_def u32_of_len_def len_prefixed_def)

lemma append_values_eq:
  "append_values t vs = (if u32_sized vs then Some (t @ laid_out vs) else None)"
  by (induction t vs rule: append_values.induct)
    (auto simp: append_len_prefixed_eq u32_sized_def laid_out_def)

lemma length_len_prefixed [simp]: "length (len_prefixed v) = 4 + length v"
  by (simp add: len_prefixed_def u32_to_be_bytes_def)

lemma get_range_at [simp]:
  "get_range (p @ v @ q) (length p) (length p + length v) = Some v"
  by (simp add: get_range_def)

lemma read_snapshot_length_at:
  assumes "length p + 4 \<le> u64_max"
  shows "read_snapshot_length (p @ u32_to_be_bytes w @ q) (length p) = Inr (w, length p + 4)"
  using assms get_range_at [of p "u32_to_be_bytes w" q]
  by (simp add: read_snapshot_length_def checked_add_usize_def u32_be_roundtrip)

lemma read_snapshot_bytes_at:
  assumes "length v < 2 ^ 32" and "length p + 4 + length v \<le> u64_max"
  shows "read_snapshot_bytes (p @ len_prefixed v @ q) (length p) = Inr (v, length p + length (len_prefixed v))"
proof -
  let ?w = "of_nat (length v) :: u32"
  have n: "unat ?w = length v" using assms(1) by (simp add: unat_of_nat)
  have "get_range ((p @ u32_to_be_bytes ?w) @ v @ q) (length p + 4) (length p + 4 + length v) = Some v"
    using get_range_at [of "p @ u32_to_be_bytes ?w" v q] by simp
  with assms n read_snapshot_length_at [of p ?w "v @ q"] show ?thesis
    by (simp add: read_snapshot_bytes_def len_prefixed_def checked_add_usize_def)
qed

lemma read_snapshot_lengthD:
  assumes "read_snapshot_length bs off = Inr (w, off')"
  shows "off' = off + 4 \<and> off' \<le> length bs \<and> take 4 (drop off bs) = u32_to_be_bytes w"
  using assms u32_be_bytes [of "take 4 (drop off bs)"]
  by (auto simp: read_snapshot_length_def checked_add_usize_def get_range_def
           split: option.splits if_splits)

lemma read_snapshot_bytesD:
  assumes "read_snapshot_bytes bs off = Inr (v, off')"
  shows "off' = off + length (len_prefixed v) \<and> off' \<le> length bs \<and> length v < 2 ^ 32
    \<and> take (length (len_prefixed v)) (drop off bs) = len_prefixed v"
proof -
  from assms obtain w b where w: "read_snapshot_length bs off = Inr (w, b)"
    and v: "off' = b + unat w" "off' \<le> length bs" "v = take (unat w) (drop b bs)"
    by (auto simp: read_snapshot_bytes_def checked_add_usize_def get_range_def
        split: sum.splits option.splits if_splits)
  have l: "length v = unat w" using v by simp
  then have "u32_to_be_bytes (of_nat (length v)) = take 4 (drop off bs)" and "length v < 2 ^ 32"
    using read_snapshot_lengthD [OF w] unat_u32_less [of w] by simp_all
  with v l read_snapshot_lengthD [OF w] show ?thesis
    by (auto simp: len_prefixed_def take_add add.commute [of off])
qed

definition envelope_bytes :: "(bytes \<times> bytes) list \<Rightarrow> nat" where
  "envelope_bytes vs = sum_list (map (length \<circ> snd) vs)"

lemma envelope_bytes_le: "envelope_bytes vs \<le> length (laid_out vs)"
  by (induction vs) (auto simp: envelope_bytes_def laid_out_def)

lemma decode_values_at:
  assumes "u32_sized vs" and "\<forall>(k, e) \<in> set vs. utf8_valid k"
    and "length p + length (laid_out vs) \<le> u64_max" and "vb + envelope_bytes vs \<le> u64_max"
  shows "decode_values (length vs) (p @ laid_out vs @ q) (length p) vb =
    Inr (map (\<lambda>(k, e). (text_of_bytes k, e)) vs, length p + length (laid_out vs), vb + envelope_bytes vs)"
  using assms
proof (induction vs arbitrary: p vb)
  case Nil
  then show ?case by (simp add: laid_out_def envelope_bytes_def)
next
  case (Cons ke vs)
  obtain k e where [simp]: "ke = (k, e)" by (cases ke)
  let ?p1 = "p @ len_prefixed k" and ?p2 = "p @ len_prefixed k @ len_prefixed e"
  have split: "laid_out ((k, e) # vs) = len_prefixed k @ len_prefixed e @ laid_out vs"
    by (simp add: laid_out_def)
  from Cons.prems have sz: "length k < 2 ^ 32" "length e < 2 ^ 32" "u32_sized vs" "utf8_valid k"
    and tot: "length p + (4 + length k) + (4 + length e) + length (laid_out vs) \<le> u64_max"
    and vb: "vb + length e + envelope_bytes vs \<le> u64_max"
    by (auto simp: u32_sized_def split envelope_bytes_def)
  have IH: "decode_values (length vs) (?p2 @ laid_out vs @ q) (length ?p2) (vb + length e) =
      Inr (map (\<lambda>(k, e). (text_of_bytes k, e)) vs, length ?p2 + length (laid_out vs), vb + length e + envelope_bytes vs)"
    using Cons.prems sz tot vb by (intro Cons.IH) (auto simp: split)
  have "read_snapshot_bytes (p @ len_prefixed k @ len_prefixed e @ laid_out vs @ q) (length p) = Inr (k, length ?p1)"
    using read_snapshot_bytes_at [of k p] sz tot by simp
  moreover have "read_snapshot_bytes (?p1 @ len_prefixed e @ laid_out vs @ q) (length ?p1) = Inr (e, length ?p2)"
    using read_snapshot_bytes_at [of e ?p1] sz tot by simp
  ultimately show ?case
    using IH sz vb
    by (simp add: split from_utf8_def checked_add_usize_def envelope_bytes_def add.assoc)
qed

lemma decode_valuesD:
  assumes "decode_values n bs off vb = Inr (vs, off', vb')"
  shows "length vs = n \<and> (n = 0 \<or> off' \<le> length bs) \<and> (let ks = map (\<lambda>(k, e). (as_bytes k, e)) vs in
    off' = off + length (laid_out ks) \<and> vb' = vb + envelope_bytes ks \<and> u32_sized ks
    \<and> (\<forall>(k, e) \<in> set ks. utf8_valid k)
    \<and> take (length (laid_out ks)) (drop off bs) = laid_out ks)"
  using assms
proof (induction n arbitrary: off vb vs)
  case 0
  then show ?case by (simp add: laid_out_def envelope_bytes_def u32_sized_def)
next
  case (Suc n)
  then obtain kb env o1 o2 ws where
    k: "read_snapshot_bytes bs off = Inr (kb, o1)" and u: "utf8_valid kb"
    and e: "read_snapshot_bytes bs o1 = Inr (env, o2)" and vs: "vs = (text_of_bytes kb, env) # ws"
    and d: "decode_values n bs o2 (vb + length env) = Inr (ws, off', vb')"
    by (auto simp: from_utf8_def checked_add_usize_def split: sum.splits option.splits if_splits)
  note IH = Suc.IH [OF d] and kD = read_snapshot_bytesD [OF k] and eD = read_snapshot_bytesD [OF e]
  let ?ks = "map (\<lambda>(k, e). (as_bytes k, e)) ws"
  have split: "laid_out ((kb, env) # ?ks) = len_prefixed kb @ len_prefixed env @ laid_out ?ks"
    by (simp add: laid_out_def)
  have off: "o1 = length (len_prefixed kb) + off" "o2 = length (len_prefixed env) + (length (len_prefixed kb) + off)"
    using kD eD by simp_all
  have "take (length (laid_out ((kb, env) # ?ks))) (drop off bs) = laid_out ((kb, env) # ?ks)"
    using IH kD eD unfolding split off
    by (simp only: length_append take_add drop_drop Let_def)
  then show ?case
    using IH kD eD u
    by (auto simp: vs Let_def split envelope_bytes_def u32_sized_def)
qed

section \<open>Properties\<close>

lemma encode_snapshot_eq:
  "encode_snapshot vs = (if length vs < 2 ^ 32 \<and> u32_sized (map (\<lambda>v. (as_bytes (sv_key v), sv_envelope v)) vs)
     then Some (SNAPSHOT_MAGIC @ u32_to_be_bytes (of_nat (length vs))
       @ laid_out (map (\<lambda>v. (as_bytes (sv_key v), sv_envelope v)) vs))
     else None)"
  by (simp add: encode_snapshot_def u32_of_len_def append_values_eq)

lemma starts_with_append [simp]: "starts_with (p @ q) p"
  by (simp add: starts_with_def)

definition snapshot_of :: "uuid \<Rightarrow> stored_scope_value list \<Rightarrow> bytes \<Rightarrow> scope_snapshot" where
  "snapshot_of i vs bs = \<lparr> ss_scope_id = i, ss_bytes = bs, ss_digest = sha256_hex bs,
     ss_row_count = length vs, ss_value_bytes = sum_list (map (length \<circ> sv_envelope) vs) \<rparr>"

lemma decode_encode_snapshot:
  assumes "encode_snapshot vs = Some bs" and "length bs \<le> u64_max"
    and "\<forall>v \<in> set vs. utf8_valid (as_bytes (sv_key v))"
  shows "decode_tickr_ctx_scope_snapshot (snapshot_of i vs bs) = Inr (map (\<lambda>v. (sv_key v, sv_envelope v)) vs)"
proof -
  let ?ks = "map (\<lambda>v. (as_bytes (sv_key v), sv_envelope v)) vs"
  let ?p = "SNAPSHOT_MAGIC @ u32_to_be_bytes (of_nat (length vs))"
  from assms(1) have n: "length vs < 2 ^ 32" and sz: "u32_sized ?ks" and bs: "bs = ?p @ laid_out ?ks"
    by (auto simp: encode_snapshot_eq split: if_splits)
  have vb: "envelope_bytes ?ks = sum_list (map (length \<circ> sv_envelope) vs)"
    by (simp add: envelope_bytes_def comp_def)
  have "envelope_bytes ?ks \<le> u64_max" "length ?p + length (laid_out ?ks) \<le> u64_max"
    using assms(2) envelope_bytes_le [of ?ks] by (simp_all add: bs)
  then have "decode_values (length vs) bs (length ?p) 0 =
      Inr (map (\<lambda>v. (sv_key v, sv_envelope v)) vs, length bs, envelope_bytes ?ks)"
    using decode_values_at [of ?ks ?p 0 "[]"] sz assms(3) by (simp add: bs comp_def)
  moreover have "read_snapshot_length bs (length SNAPSHOT_MAGIC) = Inr (of_nat (length vs), length ?p)"
    using read_snapshot_length_at [of SNAPSHOT_MAGIC "of_nat (length vs)" "laid_out ?ks"] assms(2)
    by (simp add: bs)
  ultimately show ?thesis
    using n vb by (simp add: decode_tickr_ctx_scope_snapshot_def snapshot_of_def unat_of_nat) (simp add: bs)
qed

text \<open>C30. Round trip of the snapshot format: the snapshot that is committed for a scope decodes to exactly
  the keys and envelopes of its values, in their order. Keys are Rust strings (well-formed UTF-8) and
  the encoded text fits the address space.\<close>

theorem snapshot_roundtrip:
  assumes "encode_snapshot vs = Some bs" and "length bs \<le> u64_max"
    and "\<forall>v \<in> set vs. utf8_valid (as_bytes (sv_key v))"
  shows "decode_tickr_ctx_scope_snapshot (snapshot_of i vs bs) = Inr (map (\<lambda>v. (sv_key v, sv_envelope v)) vs)"
  using assms by (rule decode_encode_snapshot)

definition demo_values :: "stored_scope_value list" where
  "demo_values = [\<lparr> sv_key = ''a'', sv_identity = ''i'', sv_envelope = [1, 2], sv_created_at = 0, sv_updated_at = 0 \<rparr>,
     \<lparr> sv_key = ''bc'', sv_identity = ''j'', sv_envelope = [], sv_created_at = 0, sv_updated_at = 0 \<rparr>]"

lemma demo_values_encoded:
  "encode_snapshot demo_values = Some (SNAPSHOT_MAGIC @
     [0, 0, 0, 2, 0, 0, 0, 1, 97, 0, 0, 0, 2, 1, 2, 0, 0, 0, 2, 98, 99, 0, 0, 0, 0])"
  "\<forall>v \<in> set demo_values. utf8_valid (as_bytes (sv_key v))"
  by (simp_all add: encode_snapshot_def u32_of_len_def append_len_prefixed_def demo_values_def as_bytes_def
      u32_to_be_bytes_def)

theorem snapshot_roundtrip_witness:
  "decode_tickr_ctx_scope_snapshot (snapshot_of 7 demo_values (the (encode_snapshot demo_values)))
     = Inr [(''a'', [1, 2]), (''bc'', [])]"
  using snapshot_roundtrip [of demo_values _ 7, OF demo_values_encoded(1) _ demo_values_encoded(2)]
  by (simp add: demo_values_encoded(1) SNAPSHOT_MAGIC_def as_bytes_def u64_max_def)
    (simp add: demo_values_def)

text \<open>C31. The format is canonical: whatever bytes decode, they are the encoding of the values they decode
  to, so that two different snapshots never decode to the same values and no byte of a snapshot is
  ignored.\<close>

theorem snapshot_canonical:
  assumes "decode_tickr_ctx_scope_snapshot s = Inr (map (\<lambda>v. (sv_key v, sv_envelope v)) vs)"
  shows "encode_snapshot vs = Some (ss_bytes s) \<and> ss_digest s = sha256_hex (ss_bytes s)
    \<and> ss_row_count s = length vs \<and> ss_value_bytes s = sum_list (map (length \<circ> sv_envelope) vs)"
proof -
  let ?bs = "ss_bytes s" and ?ks = "map (\<lambda>v. (as_bytes (sv_key v), sv_envelope v)) vs"
  from assms obtain w off where
    m: "take (length SNAPSHOT_MAGIC) ?bs = SNAPSHOT_MAGIC" and d: "ss_digest s = sha256_hex ?bs"
    and w: "read_snapshot_length ?bs (length SNAPSHOT_MAGIC) = Inr (w, off)" and c: "unat w = ss_row_count s"
    and v: "decode_values (unat w) ?bs off 0 = Inr (map (\<lambda>v. (sv_key v, sv_envelope v)) vs, length ?bs, ss_value_bytes s)"
    by (auto simp: decode_tickr_ctx_scope_snapshot_def starts_with_def split: sum.splits if_splits)
  note vD = decode_valuesD [OF v] and wD = read_snapshot_lengthD [OF w]
  have n: "unat w = length vs" and sz: "u32_sized ?ks" and vb: "ss_value_bytes s = envelope_bytes ?ks"
    and l: "length ?bs = off + length (laid_out ?ks)" "take (length (laid_out ?ks)) (drop off ?bs) = laid_out ?ks"
    using vD by (auto simp: comp_def Let_def)
  have "?bs = take (length SNAPSHOT_MAGIC) ?bs @ take 4 (drop (length SNAPSHOT_MAGIC) ?bs) @ drop off ?bs"
    using wD append_take_drop_id [of "length SNAPSHOT_MAGIC" ?bs]
      append_take_drop_id [of 4 "drop (length SNAPSHOT_MAGIC) ?bs"] by (simp add: add.commute)
  then have "?bs = SNAPSHOT_MAGIC @ u32_to_be_bytes (of_nat (length vs)) @ laid_out ?ks"
    using m wD l n [symmetric] by simp
  moreover have "length vs < 2 ^ 32" using n unat_u32_less [of w] by simp
  ultimately show ?thesis
    using sz d c n vb by (simp add: encode_snapshot_eq envelope_bytes_def comp_def)
qed

text \<open>The witness decodes the snapshot of two values and finds that its bytes are the encoding of both.\<close>

lemma demo_snapshot_decodes:
  "decode_tickr_ctx_scope_snapshot (snapshot_of 7 demo_values (the (encode_snapshot demo_values)))
     = Inr (map (\<lambda>v. (sv_key v, sv_envelope v)) demo_values)"
  using decode_encode_snapshot [of demo_values _ 7, OF demo_values_encoded(1) _ demo_values_encoded(2)]
  by (simp add: demo_values_encoded(1) SNAPSHOT_MAGIC_def as_bytes_def u64_max_def)

theorem snapshot_canonical_witness:
  "encode_snapshot demo_values = Some (ss_bytes (snapshot_of 7 demo_values (the (encode_snapshot demo_values))))"
  using snapshot_canonical [OF demo_snapshot_decodes] by blast

end
