(* ===== verification/Scope_Model.thy ===== *)
theory Scope_Model
  imports Scope_Snapshot
begin

text \<open>
  The scope store of tickr-ctx, \<^verbatim>\<open>src/src/migrations/src/scope_repository.rs\<close>, over the tables of
  \<^verbatim>\<open>src/src/migrations/sqlite/0009\<close>: data, limits, validation of requests, request digests, tables
  and the statements shared by the operations. The sums of lengths the code forms are sums of
  lengths of values it holds in memory, which do not overflow \<open>usize\<close>.
\<close>

section \<open>Limits\<close>

definition MAX_SCOPE_VALUE_BYTES :: nat where "MAX_SCOPE_VALUE_BYTES = 1024 * 1024"

definition MAX_SCOPE_REQUEST_VALUES :: nat where "MAX_SCOPE_REQUEST_VALUES = 128"

definition MAX_SCOPE_REQUEST_BYTES :: nat where "MAX_SCOPE_REQUEST_BYTES = 4 * 1024 * 1024"

definition MAX_SCOPE_ROWS :: nat where "MAX_SCOPE_ROWS = 4096"

definition MAX_SCOPE_BYTES :: nat where "MAX_SCOPE_BYTES = 64 * 1024 * 1024"

definition MAX_SCOPE_AGE_SECONDS :: int where "MAX_SCOPE_AGE_SECONDS = 30 * 24 * 60 * 60"

definition MAX_NAMESPACE_BYTES :: nat where "MAX_NAMESPACE_BYTES = 128"

definition MAX_RUN_ID_BYTES :: nat where "MAX_RUN_ID_BYTES = 256"

definition MAX_KEY_BYTES :: nat where "MAX_KEY_BYTES = 512"

definition TICKR_CTX_SCOPE_PROTOCOL_VERSION :: int where "TICKR_CTX_SCOPE_PROTOCOL_VERSION = 1"

lemmas scope_limits = MAX_SCOPE_VALUE_BYTES_def MAX_SCOPE_REQUEST_VALUES_def MAX_SCOPE_REQUEST_BYTES_def
  MAX_SCOPE_ROWS_def MAX_SCOPE_BYTES_def MAX_KEY_BYTES_def

section \<open>Requests and outcomes\<close>

record scope_value_input =
  vi_key :: string
  vi_envelope :: bytes

record create_scope_input =
  cs_scope_id :: uuid
  cs_namespace :: string
  cs_run_id :: string
  cs_claim_id :: uuid
  cs_values :: "scope_value_input list"
  cs_now :: datetime

record write_scope_input =
  ws_scope_id :: uuid
  ws_claim_id :: uuid
  ws_values :: "scope_value_input list"
  ws_now :: datetime

record delete_scope_input =
  ds_scope_id :: uuid
  ds_claim_id :: uuid
  ds_key :: string
  ds_now :: datetime

datatype scope_bound_violation =
    ValueBytes string nat nat
  | RequestValues nat nat
  | RequestBytes nat nat
  | ScopeRows nat nat
  | ScopeBytes nat nat
  | ScopeAgeSeconds int int

datatype scope_envelope_rejection =
    Malformed string
  | MissingVersion
  | UnknownVersion nat

datatype scope_mutation_rejection =
    EmptyRequest
  | Bound scope_bound_violation
  | Envelope string scope_envelope_rejection

text \<open>The values the CHECK constraint admits in the column \<open>state\<close>, which \<open>parse\<close> reads.\<close>

datatype scope_state = Active | Snapshotted | Cleaned | Quarantined

datatype scope_creation_outcome =
    Created
  | CreateIdempotent
  | Collision uuid
  | CreateClaimConflict
  | CreateRejected scope_mutation_rejection

datatype scope_write_outcome =
    Applied nat nat
  | WriteIdempotent
  | WriteMissing
  | WriteClaimConflict
  | WriteNotWritable scope_state
  | WriteRejected scope_mutation_rejection
  | WriteQuarantined uuid string

datatype scope_delete_outcome =
    Deleted
  | MissingKey
  | DeleteIdempotent
  | DeleteMissing
  | DeleteClaimConflict
  | DeleteNotWritable scope_state
  | DeleteBound scope_bound_violation
  | DeleteQuarantined uuid string

datatype scope_read_outcome =
    Present "stored_scope_value list"
  | Archived scope_snapshot
  | ReadMissing
  | ReadBound scope_bound_violation
  | ReadQuarantined uuid string

datatype scope_snapshot_outcome =
    SnapCommitted scope_snapshot
  | SnapIdempotent scope_snapshot
  | SnapMissing
  | SnapBound scope_bound_violation
  | SnapQuarantined uuid string

datatype scope_cleanup_outcome =
    CleanedUp
  | AlreadyCleaned
  | CleanupMissing
  | SnapshotRequired
  | CleanupQuarantined uuid string

section \<open>Validation\<close>

definition validate_scope_identity :: "string \<Rightarrow> string \<Rightarrow> unit scope_result" where
  "validate_scope_identity namespace run_id =
     (if namespace = [] \<or> length namespace > MAX_NAMESPACE_BYTES then Inl (scope_configuration_error InvalidNamespace)
      else if run_id = [] \<or> length run_id > MAX_RUN_ID_BYTES then Inl (scope_configuration_error InvalidRunId)
      else Inr ())"

text \<open>\<open>value.as_object().and_then(get("v")).and_then(as_u64)\<close>.\<close>

definition envelope_version :: "'n externals \<Rightarrow> 'n json \<Rightarrow> nat option" where
  "envelope_version X v = (case v of
      JObject kvs \<Rightarrow> (case map_of kvs ''v'' of
        Some (JNumber n) \<Rightarrow> number_as_u64 X n
      | _ \<Rightarrow> None)
    | _ \<Rightarrow> None)"

definition validate_envelope :: "'n externals \<Rightarrow> bytes \<Rightarrow> scope_envelope_rejection + unit" where
  "validate_envelope X bs =
     (case json_of_bytes X bs of
        Inl e \<Rightarrow> Inl (Malformed e)
      | Inr v \<Rightarrow> (case envelope_version X v of
          None \<Rightarrow> Inl MissingVersion
        | Some n \<Rightarrow> if n = 1 \<or> n = 2 then Inr () else Inl (UnknownVersion n)))"

fun validate_values :: "'n externals \<Rightarrow> scope_value_input list \<Rightarrow> scope_mutation_rejection option" where
  "validate_values X [] = None"
| "validate_values X (v # vs) =
     (if length (vi_envelope v) > MAX_SCOPE_VALUE_BYTES
      then Some (Bound (ValueBytes (vi_key v) (length (vi_envelope v)) MAX_SCOPE_VALUE_BYTES))
      else (case validate_envelope X (vi_envelope v) of
        Inl reason \<Rightarrow> Some (Envelope (vi_key v) reason)
      | Inr _ \<Rightarrow> validate_values X vs))"

definition sum_lengths :: "scope_value_input list \<Rightarrow> nat" where
  "sum_lengths vs = sum_list (map (\<lambda>v. length (vi_envelope v)) vs)"

definition validate_mutation ::
  "'n externals \<Rightarrow> scope_value_input list \<Rightarrow> nat \<Rightarrow> nat \<Rightarrow> scope_mutation_rejection option" where
  "validate_mutation X vs existing_rows existing_bytes =
     (if vs = [] then Some EmptyRequest
      else if length vs > MAX_SCOPE_REQUEST_VALUES
      then Some (Bound (RequestValues (length vs) MAX_SCOPE_REQUEST_VALUES))
      else
        let request_bytes = sum_list (map (\<lambda>v. saturating_add_usize (length (vi_key v)) (length (vi_envelope v))) vs) in
        if request_bytes > MAX_SCOPE_REQUEST_BYTES
        then Some (Bound (RequestBytes request_bytes MAX_SCOPE_REQUEST_BYTES))
        else (case validate_values X vs of
          Some r \<Rightarrow> Some r
        | None \<Rightarrow>
            let resulting_rows = saturating_add_usize existing_rows (length vs);
                resulting_bytes = saturating_add_usize existing_bytes (sum_lengths vs) in
            if resulting_rows > MAX_SCOPE_ROWS then Some (Bound (ScopeRows resulting_rows MAX_SCOPE_ROWS))
            else if resulting_bytes > MAX_SCOPE_BYTES then Some (Bound (ScopeBytes resulting_bytes MAX_SCOPE_BYTES))
            else None))"

text \<open>The map from the stored keys to their lengths is an association list.\<close>

definition resulting_scope_bound :: "(string \<times> nat) list \<Rightarrow> scope_value_input list \<Rightarrow> scope_bound_violation option" where
  "resulting_scope_bound existing vs =
     (let inserted = length (filter (\<lambda>v. map_of existing (vi_key v) = None) vs);
          resulting_rows = saturating_add_usize (length existing) inserted in
      if resulting_rows > MAX_SCOPE_ROWS then Some (ScopeRows resulting_rows MAX_SCOPE_ROWS)
      else
        let replaced_bytes = sum_list (List.map_filter (\<lambda>v. map_of existing (vi_key v)) vs);
            resulting_bytes = saturating_add_usize (sum_list (map snd existing) - replaced_bytes) (sum_lengths vs) in
        if resulting_bytes > MAX_SCOPE_BYTES then Some (ScopeBytes resulting_bytes MAX_SCOPE_BYTES) else None)"

definition valid_key :: "string \<Rightarrow> bool" where
  "valid_key k \<longleftrightarrow> k \<noteq> [] \<and> length k \<le> MAX_KEY_BYTES"

fun check_keys :: "string list \<Rightarrow> scope_value_input list \<Rightarrow> unit scope_result" where
  "check_keys seen [] = Inr ()"
| "check_keys seen (v # vs) =
     (if \<not> valid_key (vi_key v) then Inl (scope_configuration_error InvalidKey)
      else if vi_key v \<in> set seen then Inl (scope_configuration_error (DuplicateKey (vi_key v)))
      else check_keys (vi_key v # seen) vs)"

definition mutation_digest :: "'n externals \<Rightarrow> uuid \<Rightarrow> scope_value_input list \<Rightarrow> string scope_result" where
  "mutation_digest X i vs =
     (case check_keys [] vs of
        Inl e \<Rightarrow> Inl e
      | Inr _ \<Rightarrow> (case append_values (uuid_bytes X i)
            (map (\<lambda>v. (as_bytes (vi_key v), vi_envelope v)) (sort_key vi_key vs)) of
          None \<Rightarrow> Inl ScopePanic
        | Some bs \<Rightarrow> Inr (sha256_hex bs)))"

definition delete_digest :: "'n externals \<Rightarrow> uuid \<Rightarrow> string \<Rightarrow> string scope_result" where
  "delete_digest X i key =
     (if \<not> valid_key key then Inl (scope_configuration_error InvalidKey)
      else (case append_values (uuid_bytes X i) [(as_bytes ''delete'', as_bytes key)] of
          None \<Rightarrow> Inl ScopePanic
        | Some bs \<Rightarrow> Inr (sha256_hex bs)))"

text \<open>\<open>\{:?\}\<close> of a string of ASCII characters, as the messages of \<open>serde_json\<close> are.\<close>

definition debug_char :: "char \<Rightarrow> string" where
  "debug_char c =
     (if c = CHR 0x22 then [CHR 0x5C, CHR 0x22] else if c = CHR 0x5C then [CHR 0x5C, CHR 0x5C]
      else if c = CHR 0x09 then [CHR 0x5C] @ ''t'' else if c = CHR 0x0A then [CHR 0x5C] @ ''n''
      else if c = CHR 0x0D then [CHR 0x5C] @ ''r'' else if c = CHR 0x00 then [CHR 0x5C] @ ''0''
      else if of_char c < (32 :: nat) \<or> c = CHR 0x7F
      then [CHR 0x5C] @ ''u{'' @ (if of_char c < (16 :: nat) then [] else [hex_digit (of_nat (of_char c div 16))])
             @ [hex_digit (of_nat (of_char c mod 16))] @ ''}''
      else [c])"

definition rejection_debug :: "scope_envelope_rejection \<Rightarrow> string" where
  "rejection_debug r = (case r of
      Malformed m \<Rightarrow> ''Malformed('' @ [CHR 0x22] @ concat (map debug_char m) @ [CHR 0x22] @ '')''
    | MissingVersion \<Rightarrow> ''MissingVersion''
    | UnknownVersion n \<Rightarrow> ''UnknownVersion('' @ nat_text n @ '')'')"

fun first_invalid_stored_envelope :: "'n externals \<Rightarrow> stored_scope_value list \<Rightarrow> string option" where
  "first_invalid_stored_envelope X [] = None"
| "first_invalid_stored_envelope X (v # vs) =
     (case validate_envelope X (sv_envelope v) of
        Inl reason \<Rightarrow> Some (''value '' @ sv_identity v @ '' at key `'' @ sv_key v @ ''` has '' @ rejection_debug reason)
      | Inr _ \<Rightarrow> first_invalid_stored_envelope X vs)"

definition stored_bounds :: "stored_scope_value list \<Rightarrow> scope_bound_violation option" where
  "stored_bounds vs =
     (if length vs > MAX_SCOPE_ROWS then Some (ScopeRows (length vs) MAX_SCOPE_ROWS)
      else (case find (\<lambda>v. length (sv_envelope v) > MAX_SCOPE_VALUE_BYTES) vs of
        Some v \<Rightarrow> Some (ValueBytes (sv_key v) (length (sv_envelope v)) MAX_SCOPE_VALUE_BYTES)
      | None \<Rightarrow>
          let bs = sum_list (map (length \<circ> sv_envelope) vs) in
          if bs > MAX_SCOPE_BYTES then Some (ScopeBytes bs MAX_SCOPE_BYTES) else None))"

text \<open>\<open>num_seconds\<close> rounds towards zero; negative ages count as 0.\<close>

definition age_bound :: "datetime \<Rightarrow> datetime \<Rightarrow> scope_bound_violation option" where
  "age_bound created_at now =
     (let age = max 0 ((now - created_at) div 1000000000) in
      if age > MAX_SCOPE_AGE_SECONDS then Some (ScopeAgeSeconds age MAX_SCOPE_AGE_SECONDS) else None)"

section \<open>Tables\<close>

record scope_row =
  sc_id :: string
  sc_namespace :: string
  sc_run_id :: string
  sc_version :: int
  sc_claim :: string
  sc_request_digest :: string
  sc_state :: scope_state
  sc_created_at :: micros
  sc_updated_at :: micros
  sc_snapshot :: "bytes option"
  sc_digest :: "string option"
  sc_row_count :: "int option"
  sc_value_bytes :: "int option"
  sc_snapshotted_at :: "micros option"
  sc_cleaned_at :: "micros option"
  sc_reason :: "string option"

record value_row =
  v_scope :: string
  v_key :: string
  v_identity :: string
  v_envelope :: bytes
  v_created_at :: micros
  v_updated_at :: micros

record claim_row =
  cl_id :: string
  cl_scope :: string
  cl_digest :: string
  cl_committed_at :: micros

record scope_db =
  scopes :: "scope_row list"
  scope_values :: "value_row list"
  scope_claims :: "claim_row list"

type_synonym scope_pool = "scope_db backend_pool"

definition empty_scope_db :: scope_db where
  "empty_scope_db = \<lparr> scopes = [], scope_values = [], scope_claims = [] \<rparr>"

definition scope_check :: "scope_row \<Rightarrow> bool" where
  "scope_check s \<longleftrightarrow> sc_version s = 1 \<and>
     ((sc_snapshot s = None \<and> sc_digest s = None \<and> sc_row_count s = None \<and> sc_value_bytes s = None \<and> sc_snapshotted_at s = None)
      \<or> (sc_snapshot s \<noteq> None \<and> sc_digest s \<noteq> None \<and> sc_row_count s \<noteq> None \<and> sc_value_bytes s \<noteq> None \<and> sc_snapshotted_at s \<noteq> None))"

definition scopes_ok :: "scope_row constraint" where
  "scopes_ok t \<longleftrightarrow> distinct (map sc_id t) \<and> distinct (map sc_claim t)
     \<and> distinct (map (\<lambda>s. (sc_namespace s, sc_run_id s)) t) \<and> list_all scope_check t"

text \<open>The foreign keys refer to the scopes.\<close>

definition values_ok :: "scope_row list \<Rightarrow> value_row constraint" where
  "values_ok ss t \<longleftrightarrow> distinct (map (\<lambda>v. (v_scope v, v_key v)) t) \<and> distinct (map v_identity t)
     \<and> list_all (\<lambda>v. v_scope v \<in> sc_id ` set ss) t"

definition claims_ok :: "scope_row list \<Rightarrow> claim_row constraint" where
  "claims_ok ss t \<longleftrightarrow> distinct (map cl_id t) \<and> list_all (\<lambda>c. cl_scope c \<in> sc_id ` set ss) t"

end
