(* ===== verification/Scope_Ops.thy ===== *)
theory Scope_Ops
  imports Scope_Model
begin

text \<open>
  The operations of the scope store (\<^verbatim>\<open>src/src/migrations/src/scope_repository.rs\<close>): the statements
  shared by them, then one definition per method of \<open>WriterRepositoryBundle\<close>. A transaction is one
  step; an error or a panic before the commit leaves the tables as they were.
\<close>

section \<open>Reading\<close>

record scope_record =
  r_state :: scope_state
  r_created_at :: datetime
  r_snapshot :: "bytes option"
  r_digest :: "string option"
  r_row_count :: "int option"
  r_value_bytes :: "int option"
  r_reason :: "string option"

definition load_scope :: "'n externals \<Rightarrow> string \<Rightarrow> scope_db \<Rightarrow> scope_record option scope_result" where
  "load_scope X i db =
     (case find (\<lambda>s. sc_id s = i) (scopes db) of
        None \<Rightarrow> Inr None
      | Some s \<Rightarrow>
          if sc_version s \<noteq> TICKR_CTX_SCOPE_PROTOCOL_VERSION
          then Inl (scope_corrupt_value (''scope `'' @ i @ ''` uses unknown protocol version '' @ int_text (sc_version s)))
          else (case decode_timestamp X (sc_created_at s) of
            Inl e \<Rightarrow> Inl (scope_corrupt_value (''scope `'' @ i @ ''` has invalid creation time: '' @ timestamp_error_text e))
          | Inr t \<Rightarrow> Inr (Some \<lparr> r_state = sc_state s, r_created_at = t, r_snapshot = sc_snapshot s,
              r_digest = sc_digest s, r_row_count = sc_row_count s, r_value_bytes = sc_value_bytes s,
              r_reason = sc_reason s \<rparr>)))"

definition stored_value :: "'n externals \<Rightarrow> value_row \<Rightarrow> stored_scope_value scope_result" where
  "stored_value X v =
     (case decode_timestamp X (v_created_at v) of
        Inl e \<Rightarrow> Inl (scope_corrupt_value (timestamp_error_text e))
      | Inr c \<Rightarrow> (case decode_timestamp X (v_updated_at v) of
          Inl e \<Rightarrow> Inl (scope_corrupt_value (timestamp_error_text e))
        | Inr u \<Rightarrow> Inr \<lparr> sv_key = v_key v, sv_identity = v_identity v, sv_envelope = v_envelope v,
                     sv_created_at = c, sv_updated_at = u \<rparr>))"

text \<open>\<open>collect\<close> into a \<open>Result\<close>: the first error, or all the values.\<close>

fun collect_results :: "('a \<Rightarrow> 'e + 'b) \<Rightarrow> 'a list \<Rightarrow> 'e + 'b list" where
  "collect_results f [] = Inr []"
| "collect_results f (x # xs) =
     (case f x of
        Inl e \<Rightarrow> Inl e
      | Inr y \<Rightarrow> (case collect_results f xs of Inl e \<Rightarrow> Inl e | Inr ys \<Rightarrow> Inr (y # ys)))"

definition value_rows :: "string \<Rightarrow> scope_db \<Rightarrow> value_row list" where
  "value_rows i db = filter (\<lambda>v. v_scope v = i) (scope_values db)"

definition load_scope_values :: "'n externals \<Rightarrow> string \<Rightarrow> scope_db \<Rightarrow> stored_scope_value list scope_result" where
  "load_scope_values X i db = collect_results (stored_value X) (sort_key v_key (value_rows i db))"

definition snapshot_from_record :: "uuid \<Rightarrow> scope_record \<Rightarrow> string + scope_snapshot" where
  "snapshot_from_record i r =
     (case r_snapshot r of
        None \<Rightarrow> Inl ''snapshot state is missing snapshot bytes''
      | Some bs \<Rightarrow> (case r_digest r of
        None \<Rightarrow> Inl ''snapshot state is missing digest''
      | Some d \<Rightarrow> (case r_row_count r of
        None \<Rightarrow> Inl ''snapshot state has invalid row count''
      | Some rc \<Rightarrow> (if rc < 0 then Inl ''snapshot state has invalid row count''
        else (case r_value_bytes r of
          None \<Rightarrow> Inl ''snapshot state has invalid value-byte count''
        | Some vb \<Rightarrow> (if vb < 0 then Inl ''snapshot state has invalid value-byte count''
          else if \<not> starts_with bs SNAPSHOT_MAGIC then Inl ''snapshot uses an unknown format version''
          else if sha256_hex bs \<noteq> d then Inl ''snapshot digest does not match committed bytes''
          else Inr \<lparr> ss_scope_id = i, ss_bytes = bs, ss_digest = d, ss_row_count = nat rc, ss_value_bytes = nat vb \<rparr>))))))"

definition quarantine_diagnostic :: "scope_record \<Rightarrow> string" where
  "quarantine_diagnostic r = (case r_reason r of None \<Rightarrow> ''scope is quarantined'' | Some d \<Rightarrow> d)"

section \<open>Writing\<close>

definition scope_constraint_error :: scope_error where
  "scope_constraint_error = ScopeError ConstraintConflict ScopeConstraint"

text \<open>\<open>INSERT ... ON CONFLICT(scope_id, key) DO UPDATE\<close>: a clash of the identity alone is an error.\<close>

definition upsert_value :: "scope_row list \<Rightarrow> value_row \<Rightarrow> value_row list \<Rightarrow> value_row list option" where
  "upsert_value ss r t =
     (if v_identity r \<in> v_identity ` set t then None
      else if \<exists>v \<in> set t. v_scope v = v_scope r \<and> v_key v = v_key r
      then sql_update (values_ok ss) (\<lambda>v. v_scope v = v_scope r \<and> v_key v = v_key r)
             (\<lambda>v. v\<lparr> v_envelope := v_envelope r, v_updated_at := v_updated_at r \<rparr>) t
      else sql_insert (values_ok ss) r t)"

text \<open>\<open>fresh k\<close> is what \<open>Uuid::new_v4\<close> returns for the value number \<open>k\<close> of the request.\<close>

fun insert_scope_values ::
  "'n externals \<Rightarrow> (nat \<Rightarrow> uuid) \<Rightarrow> string \<Rightarrow> scope_value_input list \<Rightarrow> datetime \<Rightarrow> scope_row list
     \<Rightarrow> value_row list \<Rightarrow> value_row list option" where
  "insert_scope_values X fresh i [] now ss t = Some t"
| "insert_scope_values X fresh i (v # vs) now ss t =
     Option.bind
       (upsert_value ss \<lparr> v_scope = i, v_key = vi_key v, v_identity = encode_uuid X (fresh 0), v_envelope = vi_envelope v,
          v_created_at = encode_timestamp now, v_updated_at = encode_timestamp now \<rparr> t)
       (insert_scope_values X (fresh \<circ> Suc) i vs now ss)"

definition insert_claim :: "string \<Rightarrow> string \<Rightarrow> string \<Rightarrow> datetime \<Rightarrow> scope_row list \<Rightarrow> claim_row list \<Rightarrow> claim_row list option" where
  "insert_claim c i d now ss t =
     sql_insert (claims_ok ss) \<lparr> cl_id = c, cl_scope = i, cl_digest = d, cl_committed_at = encode_timestamp now \<rparr> t"

text \<open>The two statements that end every accepted mutation.\<close>

definition insert_values_and_claim ::
  "'n externals \<Rightarrow> (nat \<Rightarrow> uuid) \<Rightarrow> string \<Rightarrow> string \<Rightarrow> string \<Rightarrow> scope_value_input list \<Rightarrow> datetime \<Rightarrow> scope_db \<Rightarrow> scope_db option" where
  "insert_values_and_claim X fresh i c d vs now db =
     Option.bind (insert_scope_values X fresh i vs now (scopes db) (scope_values db))
       (\<lambda>t. map_option (\<lambda>cs. db\<lparr> scope_values := t, scope_claims := cs \<rparr>)
              (insert_claim c i d now (scopes db) (scope_claims db)))"

definition touch_scope :: "string \<Rightarrow> datetime \<Rightarrow> scope_db \<Rightarrow> scope_db option" where
  "touch_scope i now db =
     map_option (\<lambda>ss. db\<lparr> scopes := ss \<rparr>)
       (sql_update scopes_ok (\<lambda>s. sc_id s = i) (\<lambda>s. s\<lparr> sc_updated_at := encode_timestamp now \<rparr>) (scopes db))"

definition quarantine_scope :: "string \<Rightarrow> string \<Rightarrow> datetime \<Rightarrow> scope_db \<Rightarrow> scope_db option" where
  "quarantine_scope i diagnostic now db =
     map_option (\<lambda>ss. db\<lparr> scopes := ss \<rparr>)
       (sql_update scopes_ok (\<lambda>s. sc_id s = i)
          (\<lambda>s. s\<lparr> sc_state := Quarantined, sc_reason := Some diagnostic, sc_updated_at := encode_timestamp now \<rparr>) (scopes db))"

text \<open>The end of a transaction: the commit of the new tables, or the error of the statement that was
  refused.\<close>

definition commit_scope :: "scope_db \<Rightarrow> 'a \<Rightarrow> scope_db option \<Rightarrow> (scope_error, 'a, scope_db) outcome" where
  "commit_scope db a r = (case r of None \<Rightarrow> (Inl scope_constraint_error, db) | Some db' \<Rightarrow> (Inr a, db'))"

section \<open>create\_tickr\_ctx\_scope\<close>

definition create_scope_tx ::
  "'n externals \<Rightarrow> (nat \<Rightarrow> uuid) \<Rightarrow> create_scope_input \<Rightarrow> string \<Rightarrow> scope_db
     \<Rightarrow> (scope_error, scope_creation_outcome, scope_db) outcome" where
  "create_scope_tx X fresh inp request_digest db =
     (let claim_id = encode_uuid X (cs_claim_id inp); scope_id = encode_uuid X (cs_scope_id inp) in
      case find (\<lambda>s. sc_claim s = claim_id) (scopes db) of
        Some s \<Rightarrow>
          (Inr (if sc_id s = scope_id \<and> sc_namespace s = cs_namespace inp \<and> sc_run_id s = cs_run_id inp
                   \<and> sc_request_digest s = request_digest
                then CreateIdempotent else CreateClaimConflict), db)
      | None \<Rightarrow>
          (case find (\<lambda>s. sc_namespace s = cs_namespace inp \<and> sc_run_id s = cs_run_id inp) (scopes db) of
             Some s \<Rightarrow>
               (case parse_uuid X (sc_id s) of
                  None \<Rightarrow> (Inl (scope_corrupt_value (''scope id `'' @ sc_id s @ ''` is not a UUID'')), db)
                | Some u \<Rightarrow> (Inr (Collision u), db))
           | None \<Rightarrow>
               commit_scope db Created
                 (Option.bind
                   (sql_insert scopes_ok
                     \<lparr> sc_id = scope_id, sc_namespace = cs_namespace inp, sc_run_id = cs_run_id inp,
                       sc_version = TICKR_CTX_SCOPE_PROTOCOL_VERSION, sc_claim = claim_id,
                       sc_request_digest = request_digest, sc_state = Active,
                       sc_created_at = encode_timestamp (cs_now inp), sc_updated_at = encode_timestamp (cs_now inp),
                       sc_snapshot = None, sc_digest = None, sc_row_count = None, sc_value_bytes = None,
                       sc_snapshotted_at = None, sc_cleaned_at = None, sc_reason = None \<rparr> (scopes db))
                   (\<lambda>ss. insert_values_and_claim X fresh scope_id claim_id request_digest (cs_values inp) (cs_now inp)
                           (db\<lparr> scopes := ss \<rparr>)))))"

definition create_tickr_ctx_scope ::
  "'n externals \<Rightarrow> (nat \<Rightarrow> uuid) \<Rightarrow> create_scope_input \<Rightarrow> scope_pool
     \<Rightarrow> (scope_error, scope_creation_outcome, scope_pool) outcome" where
  "create_tickr_ctx_scope X fresh inp pool =
     (case validate_scope_identity (cs_namespace inp) (cs_run_id inp) of
        Inl e \<Rightarrow> (Inl e, pool)
      | Inr _ \<Rightarrow> (case mutation_digest X (cs_scope_id inp) (cs_values inp) of
          Inl e \<Rightarrow> (Inl e, pool)
        | Inr request_digest \<Rightarrow>
            (case validate_mutation X (cs_values inp) 0 0 of
               Some r \<Rightarrow>
                 if r \<noteq> EmptyRequest then (Inr (CreateRejected r), pool)
                 else on_sqlite (scope_configuration_error ScopeRequiresSqlite) (create_scope_tx X fresh inp request_digest) pool
             | None \<Rightarrow> on_sqlite (scope_configuration_error ScopeRequiresSqlite) (create_scope_tx X fresh inp request_digest) pool)))"

section \<open>write\_tickr\_ctx\_scope\<close>

definition existing_lengths :: "string \<Rightarrow> scope_db \<Rightarrow> (string \<times> nat) list" where
  "existing_lengths i db = map (\<lambda>v. (v_key v, length (v_envelope v))) (value_rows i db)"

definition write_scope_tx ::
  "'n externals \<Rightarrow> (nat \<Rightarrow> uuid) \<Rightarrow> write_scope_input \<Rightarrow> string \<Rightarrow> scope_db
     \<Rightarrow> (scope_error, scope_write_outcome, scope_db) outcome" where
  "write_scope_tx X fresh inp request_digest db =
     (let scope_id = encode_uuid X (ws_scope_id inp); claim_id = encode_uuid X (ws_claim_id inp) in
      case load_scope X scope_id db of
        Inl e \<Rightarrow> (Inl e, db)
      | Inr None \<Rightarrow> (Inr WriteMissing, db)
      | Inr (Some r) \<Rightarrow>
          if r_state r = Quarantined then (Inr (WriteQuarantined (ws_scope_id inp) (quarantine_diagnostic r)), db)
          else (case find (\<lambda>c. cl_id c = claim_id) (scope_claims db) of
            Some c \<Rightarrow>
              (Inr (if cl_scope c = scope_id \<and> cl_digest c = request_digest then WriteIdempotent else WriteClaimConflict), db)
          | None \<Rightarrow>
              if r_state r \<noteq> Active then (Inr (WriteNotWritable (r_state r)), db)
              else (case age_bound (r_created_at r) (ws_now inp) of
                Some b \<Rightarrow> (Inr (WriteRejected (Bound b)), db)
              | None \<Rightarrow>
                  let existing = existing_lengths scope_id db in
                  (case resulting_scope_bound existing (ws_values inp) of
                     Some b \<Rightarrow> (Inr (WriteRejected (Bound b)), db)
                   | None \<Rightarrow>
                       let updated = length (filter (\<lambda>v. map_of existing (vi_key v) \<noteq> None) (ws_values inp));
                           inserted = length (ws_values inp) - updated in
                       commit_scope db (Applied inserted updated)
                         (Option.bind
                            (insert_values_and_claim X fresh scope_id claim_id request_digest (ws_values inp) (ws_now inp) db)
                            (touch_scope scope_id (ws_now inp)))))))"

definition write_tickr_ctx_scope ::
  "'n externals \<Rightarrow> (nat \<Rightarrow> uuid) \<Rightarrow> write_scope_input \<Rightarrow> scope_pool
     \<Rightarrow> (scope_error, scope_write_outcome, scope_pool) outcome" where
  "write_tickr_ctx_scope X fresh inp pool =
     (case mutation_digest X (ws_scope_id inp) (ws_values inp) of
        Inl e \<Rightarrow> (Inl e, pool)
      | Inr request_digest \<Rightarrow>
          (case validate_mutation X (ws_values inp) 0 0 of
             Some r \<Rightarrow> (Inr (WriteRejected r), pool)
           | None \<Rightarrow> on_sqlite (scope_configuration_error ScopeRequiresSqlite) (write_scope_tx X fresh inp request_digest) pool))"

section \<open>delete\_tickr\_ctx\_scope\_value\<close>

definition delete_scope_tx ::
  "'n externals \<Rightarrow> delete_scope_input \<Rightarrow> string \<Rightarrow> scope_db \<Rightarrow> (scope_error, scope_delete_outcome, scope_db) outcome" where
  "delete_scope_tx X inp request_digest db =
     (let scope_id = encode_uuid X (ds_scope_id inp); claim_id = encode_uuid X (ds_claim_id inp) in
      case load_scope X scope_id db of
        Inl e \<Rightarrow> (Inl e, db)
      | Inr None \<Rightarrow> (Inr DeleteMissing, db)
      | Inr (Some r) \<Rightarrow>
          if r_state r = Quarantined then (Inr (DeleteQuarantined (ds_scope_id inp) (quarantine_diagnostic r)), db)
          else (case find (\<lambda>c. cl_id c = claim_id) (scope_claims db) of
            Some c \<Rightarrow>
              (Inr (if cl_scope c = scope_id \<and> cl_digest c = request_digest then DeleteIdempotent else DeleteClaimConflict), db)
          | None \<Rightarrow>
              if r_state r \<noteq> Active then (Inr (DeleteNotWritable (r_state r)), db)
              else (case age_bound (r_created_at r) (ds_now inp) of
                Some b \<Rightarrow> (Inr (DeleteBound b), db)
              | None \<Rightarrow>
                  let hit = (\<lambda>v. v_scope v = scope_id \<and> v_key v = ds_key inp);
                      deleted = rows_affected hit (scope_values db);
                      db1 = db\<lparr> scope_values := filter (Not \<circ> hit) (scope_values db) \<rparr> in
                  commit_scope db (if deleted = 0 then MissingKey else Deleted)
                    (Option.bind (insert_claim claim_id scope_id request_digest (ds_now inp) (scopes db1) (scope_claims db1))
                       (\<lambda>cs. touch_scope scope_id (ds_now inp) (db1\<lparr> scope_claims := cs \<rparr>))))))"

definition delete_tickr_ctx_scope_value ::
  "'n externals \<Rightarrow> delete_scope_input \<Rightarrow> scope_pool \<Rightarrow> (scope_error, scope_delete_outcome, scope_pool) outcome" where
  "delete_tickr_ctx_scope_value X inp pool =
     (case delete_digest X (ds_scope_id inp) (ds_key inp) of
        Inl e \<Rightarrow> (Inl e, pool)
      | Inr request_digest \<Rightarrow> on_sqlite (scope_configuration_error ScopeRequiresSqlite) (delete_scope_tx X inp request_digest) pool)"

section \<open>read\_tickr\_ctx\_scope\<close>

definition read_scope_tx ::
  "'n externals \<Rightarrow> uuid \<Rightarrow> datetime \<Rightarrow> scope_db \<Rightarrow> (scope_error, scope_read_outcome, scope_db) outcome" where
  "read_scope_tx X scope_id now db =
     (let i = encode_uuid X scope_id in
      case load_scope X i db of
        Inl e \<Rightarrow> (Inl e, db)
      | Inr None \<Rightarrow> (Inr ReadMissing, db)
      | Inr (Some r) \<Rightarrow>
          if r_state r = Quarantined then (Inr (ReadQuarantined scope_id (quarantine_diagnostic r)), db)
          else if r_state r = Snapshotted \<or> r_state r = Cleaned
          then (case snapshot_from_record scope_id r of
            Inr s \<Rightarrow> (Inr (Archived s), db)
          | Inl diagnostic \<Rightarrow> commit_scope db (ReadQuarantined scope_id diagnostic) (quarantine_scope i diagnostic now db))
          else (case age_bound (r_created_at r) now of
            Some b \<Rightarrow> (Inr (ReadBound b), db)
          | None \<Rightarrow> (case load_scope_values X i db of
              Inl e \<Rightarrow> (Inl e, db)
            | Inr vs \<Rightarrow> (case stored_bounds vs of
                Some b \<Rightarrow> (Inr (ReadBound b), db)
              | None \<Rightarrow> (case first_invalid_stored_envelope X vs of
                  Some diagnostic \<Rightarrow> commit_scope db (ReadQuarantined scope_id diagnostic) (quarantine_scope i diagnostic now db)
                | None \<Rightarrow> (Inr (Present vs), db))))))"

definition read_tickr_ctx_scope ::
  "'n externals \<Rightarrow> uuid \<Rightarrow> datetime \<Rightarrow> scope_pool \<Rightarrow> (scope_error, scope_read_outcome, scope_pool) outcome" where
  "read_tickr_ctx_scope X scope_id now = on_sqlite (scope_configuration_error ScopeRequiresSqlite) (read_scope_tx X scope_id now)"

section \<open>snapshot\_tickr\_ctx\_scope\<close>

definition store_snapshot :: "string \<Rightarrow> scope_snapshot \<Rightarrow> datetime \<Rightarrow> scope_db \<Rightarrow> scope_db option" where
  "store_snapshot i snap now db =
     map_option (\<lambda>ss. db\<lparr> scopes := ss \<rparr>)
       (sql_update scopes_ok (\<lambda>s. sc_id s = i \<and> sc_state s = Active)
          (\<lambda>s. s\<lparr> sc_state := Snapshotted, sc_snapshot := Some (ss_bytes snap), sc_digest := Some (ss_digest snap),
                  sc_row_count := Some (int (ss_row_count snap)), sc_value_bytes := Some (int (ss_value_bytes snap)),
                  sc_snapshotted_at := Some (encode_timestamp now), sc_updated_at := encode_timestamp now \<rparr>) (scopes db))"

definition fits_i64 :: "nat \<Rightarrow> bool" where
  "fits_i64 n \<longleftrightarrow> int n \<le> i64_max"

definition snapshot_scope_tx ::
  "'n externals \<Rightarrow> uuid \<Rightarrow> datetime \<Rightarrow> scope_db \<Rightarrow> (scope_error, scope_snapshot_outcome, scope_db) outcome" where
  "snapshot_scope_tx X scope_id now db =
     (let i = encode_uuid X scope_id in
      case load_scope X i db of
        Inl e \<Rightarrow> (Inl e, db)
      | Inr None \<Rightarrow> (Inr SnapMissing, db)
      | Inr (Some r) \<Rightarrow>
          if r_state r = Quarantined then (Inr (SnapQuarantined scope_id (quarantine_diagnostic r)), db)
          else if r_state r = Snapshotted \<or> r_state r = Cleaned
          then (case snapshot_from_record scope_id r of
            Inr s \<Rightarrow> (Inr (SnapIdempotent s), db)
          | Inl diagnostic \<Rightarrow> commit_scope db (SnapQuarantined scope_id diagnostic) (quarantine_scope i diagnostic now db))
          else (case age_bound (r_created_at r) now of
            Some b \<Rightarrow> (Inr (SnapBound b), db)
          | None \<Rightarrow> (case load_scope_values X i db of
              Inl e \<Rightarrow> (Inl e, db)
            | Inr vs \<Rightarrow> (case stored_bounds vs of
                Some b \<Rightarrow> (Inr (SnapBound b), db)
              | None \<Rightarrow> (case first_invalid_stored_envelope X vs of
                  Some diagnostic \<Rightarrow> commit_scope db (SnapQuarantined scope_id diagnostic) (quarantine_scope i diagnostic now db)
                | None \<Rightarrow> (case encode_snapshot vs of
                    None \<Rightarrow> (Inl ScopePanic, db)
                  | Some bs \<Rightarrow>
                      let snap = \<lparr> ss_scope_id = scope_id, ss_bytes = bs, ss_digest = sha256_hex bs, ss_row_count = length vs,
                                   ss_value_bytes = sum_list (map (length \<circ> sv_envelope) vs) \<rparr> in
                      if \<not> fits_i64 (ss_row_count snap) \<or> \<not> fits_i64 (ss_value_bytes snap) then (Inl ScopePanic, db)
                      else commit_scope db (SnapCommitted snap) (store_snapshot i snap now db)))))))"

definition snapshot_tickr_ctx_scope ::
  "'n externals \<Rightarrow> uuid \<Rightarrow> datetime \<Rightarrow> scope_pool \<Rightarrow> (scope_error, scope_snapshot_outcome, scope_pool) outcome" where
  "snapshot_tickr_ctx_scope X scope_id now =
     on_sqlite (scope_configuration_error ScopeRequiresSqlite) (snapshot_scope_tx X scope_id now)"

definition snapshot_tickr_ctx_scope_for_run ::
  "'n externals \<Rightarrow> string \<Rightarrow> string \<Rightarrow> datetime \<Rightarrow> scope_pool \<Rightarrow> (scope_error, scope_snapshot_outcome, scope_pool) outcome" where
  "snapshot_tickr_ctx_scope_for_run X namespace run_id now pool =
     (case validate_scope_identity namespace run_id of
        Inl e \<Rightarrow> (Inl e, pool)
      | Inr _ \<Rightarrow> (case pool of
          PostgresPool \<Rightarrow> (Inl (scope_configuration_error ScopeRequiresSqlite), pool)
        | SqlitePool db \<Rightarrow>
            (case find (\<lambda>s. sc_namespace s = namespace \<and> sc_run_id s = run_id) (scopes db) of
               None \<Rightarrow> (Inr SnapMissing, pool)
             | Some s \<Rightarrow> (case parse_uuid X (sc_id s) of
                 None \<Rightarrow> (Inl (scope_corrupt_value (''scope id `'' @ sc_id s @ ''` is not a UUID'')), pool)
               | Some u \<Rightarrow> snapshot_tickr_ctx_scope X u now pool))))"

section \<open>cleanup\_tickr\_ctx\_scope\<close>

definition clean_scope :: "string \<Rightarrow> datetime \<Rightarrow> scope_db \<Rightarrow> scope_db option" where
  "clean_scope i now db =
     map_option (\<lambda>ss. db\<lparr> scopes := ss, scope_values := filter (\<lambda>v. v_scope v \<noteq> i) (scope_values db),
                         scope_claims := filter (\<lambda>c. cl_scope c \<noteq> i) (scope_claims db) \<rparr>)
       (sql_update scopes_ok (\<lambda>s. sc_id s = i \<and> sc_state s = Snapshotted)
          (\<lambda>s. s\<lparr> sc_state := Cleaned, sc_cleaned_at := Some (encode_timestamp now), sc_updated_at := encode_timestamp now \<rparr>)
          (scopes db))"

definition cleanup_scope_tx ::
  "'n externals \<Rightarrow> uuid \<Rightarrow> datetime \<Rightarrow> scope_db \<Rightarrow> (scope_error, scope_cleanup_outcome, scope_db) outcome" where
  "cleanup_scope_tx X scope_id now db =
     (let i = encode_uuid X scope_id in
      case load_scope X i db of
        Inl e \<Rightarrow> (Inl e, db)
      | Inr None \<Rightarrow> (Inr CleanupMissing, db)
      | Inr (Some r) \<Rightarrow>
          if r_state r = Quarantined then (Inr (CleanupQuarantined scope_id (quarantine_diagnostic r)), db)
          else if r_state r = Active then (Inr SnapshotRequired, db)
          else (case snapshot_from_record scope_id r of
            Inl diagnostic \<Rightarrow> commit_scope db (CleanupQuarantined scope_id diagnostic) (quarantine_scope i diagnostic now db)
          | Inr _ \<Rightarrow>
              if r_state r = Cleaned then (Inr AlreadyCleaned, db)
              else commit_scope db CleanedUp (clean_scope i now db)))"

definition cleanup_tickr_ctx_scope ::
  "'n externals \<Rightarrow> uuid \<Rightarrow> datetime \<Rightarrow> scope_pool \<Rightarrow> (scope_error, scope_cleanup_outcome, scope_pool) outcome" where
  "cleanup_tickr_ctx_scope X scope_id now =
     on_sqlite (scope_configuration_error ScopeRequiresSqlite) (cleanup_scope_tx X scope_id now)"

section \<open>Sequences of operations\<close>

datatype scope_op =
    CreateScope "nat \<Rightarrow> uuid" create_scope_input
  | WriteScope "nat \<Rightarrow> uuid" write_scope_input
  | DeleteScopeValue delete_scope_input
  | ReadScope uuid datetime
  | SnapshotScope uuid datetime
  | SnapshotScopeForRun string string datetime
  | CleanupScope uuid datetime

fun exec_scope :: "'n externals \<Rightarrow> scope_op \<Rightarrow> scope_pool \<Rightarrow> scope_pool" where
  "exec_scope X (CreateScope fresh inp) pool = snd (create_tickr_ctx_scope X fresh inp pool)"
| "exec_scope X (WriteScope fresh inp) pool = snd (write_tickr_ctx_scope X fresh inp pool)"
| "exec_scope X (DeleteScopeValue inp) pool = snd (delete_tickr_ctx_scope_value X inp pool)"
| "exec_scope X (ReadScope i now) pool = snd (read_tickr_ctx_scope X i now pool)"
| "exec_scope X (SnapshotScope i now) pool = snd (snapshot_tickr_ctx_scope X i now pool)"
| "exec_scope X (SnapshotScopeForRun ns r now) pool = snd (snapshot_tickr_ctx_scope_for_run X ns r now pool)"
| "exec_scope X (CleanupScope i now) pool = snd (cleanup_tickr_ctx_scope X i now pool)"

definition run_scope :: "'n externals \<Rightarrow> scope_op list \<Rightarrow> scope_pool \<Rightarrow> scope_pool" where
  "run_scope X ops pool = fold (exec_scope X) ops pool"

end
