(* ===== verification/Scope_Invariant.thy ===== *)
theory Scope_Invariant
  imports Scope_Ops "HOL-Library.AList"
begin

text \<open>
  The invariant of the scope store and the order in which it grows. The values of a scope are an
  association list from keys to envelopes, on which an accepted write is \<open>AList.update\<close>; the limits
  are facts about that list. Both are proved for every operation, and interpret the locale
  \<open>op_monotone\<close> of the prelude.
\<close>

section \<open>The values of a scope\<close>

definition scope_entries :: "string \<Rightarrow> value_row list \<Rightarrow> (string \<times> bytes) list" where
  "scope_entries i t = map (\<lambda>v. (v_key v, v_envelope v)) (filter (\<lambda>v. v_scope v = i) t)"

definition put_values :: "scope_value_input list \<Rightarrow> (string \<times> bytes) list \<Rightarrow> (string \<times> bytes) list" where
  "put_values vs al = fold (\<lambda>v. AList.update (vi_key v) (vi_envelope v)) vs al"

definition entry_bytes :: "(string \<times> bytes) list \<Rightarrow> nat" where
  "entry_bytes al = sum_list (map (length \<circ> snd) al)"

lemma length_update:
  "length (AList.update k v al) = length al + (if map_of al k = None then 1 else 0)"
  by (induction al) auto

lemma entry_bytes_update:
  "entry_bytes (AList.update k v al) + (case map_of al k of None \<Rightarrow> 0 | Some e \<Rightarrow> length e) = entry_bytes al + length v"
  by (induction al) (auto simp: entry_bytes_def split: option.splits)

lemma put_values_simps [simp]:
  "put_values [] al = al"
  "put_values (v # vs) al = put_values vs (AList.update (vi_key v) (vi_envelope v) al)"
  by (simp_all add: put_values_def)

lemma map_of_put_values:
  "map_of (put_values vs al) = map_of al ++ map_of (rev (map (\<lambda>v. (vi_key v, vi_envelope v)) vs))"
  by (induction vs arbitrary: al) (simp_all add: update_conv' map_add_def fun_eq_iff split: option.splits)

lemma length_put_values:
  "distinct (map vi_key vs) \<Longrightarrow>
   length (put_values vs al) = length al + length (filter (\<lambda>v. map_of al (vi_key v) = None) vs)"
proof (induction vs arbitrary: al)
  case (Cons v vs)
  have "filter (\<lambda>w. map_of (AList.update (vi_key v) (vi_envelope v) al) (vi_key w) = None) vs
      = filter (\<lambda>w. map_of al (vi_key w) = None) vs"
    using Cons.prems by (intro filter_cong) (auto simp: update_conv' image_iff)
  then show ?case using Cons by (simp add: length_update)
qed simp

lemma entry_bytes_put_values:
  "distinct (map vi_key vs) \<Longrightarrow>
   entry_bytes (put_values vs al) + sum_list (List.map_filter (\<lambda>v. map_option length (map_of al (vi_key v))) vs)
     = entry_bytes al + sum_lengths vs"
proof (induction vs arbitrary: al)
  case Nil
  then show ?case by (simp add: sum_lengths_def)
next
  case (Cons v vs)
  let ?al = "AList.update (vi_key v) (vi_envelope v) al"
  have "List.map_filter (\<lambda>w. map_option length (map_of ?al (vi_key w))) vs
      = List.map_filter (\<lambda>w. map_option length (map_of al (vi_key w))) vs"
    using Cons.prems unfolding List.map_filter_def
    by (intro map_cong filter_cong) (auto simp: update_conv' image_iff)
  with Cons.IH [of ?al] Cons.prems entry_bytes_update [of "vi_key v" "vi_envelope v" al] show ?case
    by (simp add: sum_lengths_def split: option.splits)
qed

section \<open>Invariant\<close>

definition has_snapshot :: "scope_row \<Rightarrow> bool" where
  "has_snapshot s \<longleftrightarrow> (\<exists>bs rc vb. sc_snapshot s = Some bs \<and> starts_with bs SNAPSHOT_MAGIC
     \<and> sc_digest s = Some (sha256_hex bs) \<and> sc_row_count s = Some (int rc) \<and> sc_value_bytes s = Some (int vb))"

text \<open>A scope is never quarantined by the store's own doing; a snapshot stays valid; a cleaned scope has
  neither values nor claims.\<close>

definition scope_good :: "value_row list \<Rightarrow> claim_row list \<Rightarrow> scope_row \<Rightarrow> bool" where
  "scope_good vs cs s \<longleftrightarrow> (case sc_state s of
      Active \<Rightarrow> sc_snapshot s = None
    | Snapshotted \<Rightarrow> has_snapshot s
    | Cleaned \<Rightarrow> has_snapshot s \<and> (\<forall>v \<in> set vs. v_scope v \<noteq> sc_id s) \<and> (\<forall>c \<in> set cs. cl_scope c \<noteq> sc_id s)
    | Quarantined \<Rightarrow> False)"

definition value_good :: "'n externals \<Rightarrow> value_row \<Rightarrow> bool" where
  "value_good X v \<longleftrightarrow> valid_key (v_key v) \<and> validate_envelope X (v_envelope v) = Inr ()
     \<and> length (v_envelope v) \<le> MAX_SCOPE_VALUE_BYTES"

definition entries_bounded :: "(string \<times> bytes) list \<Rightarrow> bool" where
  "entries_bounded al \<longleftrightarrow> length al \<le> MAX_SCOPE_ROWS \<and> entry_bytes al \<le> MAX_SCOPE_BYTES"

definition values_inv :: "'n externals \<Rightarrow> value_row list \<Rightarrow> bool" where
  "values_inv X t \<longleftrightarrow> (\<forall>v \<in> set t. value_good X v) \<and> (\<forall>i. entries_bounded (scope_entries i t))"

definition scope_db_inv :: "'n externals \<Rightarrow> scope_db \<Rightarrow> bool" where
  "scope_db_inv X db \<longleftrightarrow> scopes_ok (scopes db) \<and> values_ok (scopes db) (scope_values db)
     \<and> claims_ok (scopes db) (scope_claims db)
     \<and> (\<forall>s \<in> set (scopes db). scope_good (scope_values db) (scope_claims db) s)
     \<and> values_inv X (scope_values db)"

definition scope_inv :: "'n externals \<Rightarrow> scope_pool \<Rightarrow> bool" where
  "scope_inv X pool = (case pool of PostgresPool \<Rightarrow> True | SqlitePool db \<Rightarrow> scope_db_inv X db)"

section \<open>Order\<close>

text \<open>The identity of a scope, its creation and its snapshot, once taken, never change; the state moves
  from active to snapshotted to cleaned.\<close>

fun state_rank :: "scope_state \<Rightarrow> nat" where
  "state_rank Active = 0"
| "state_rank Snapshotted = 1"
| "state_rank Cleaned = 2"
| "state_rank Quarantined = 3"

definition scope_row_le :: "scope_row \<Rightarrow> scope_row \<Rightarrow> bool" where
  "scope_row_le s s' \<longleftrightarrow>
     sc_id s' = sc_id s \<and> sc_namespace s' = sc_namespace s \<and> sc_run_id s' = sc_run_id s \<and> sc_version s' = sc_version s
     \<and> sc_claim s' = sc_claim s \<and> sc_request_digest s' = sc_request_digest s \<and> sc_created_at s' = sc_created_at s
     \<and> state_rank (sc_state s) \<le> state_rank (sc_state s')
     \<and> (sc_snapshot s \<noteq> None \<longrightarrow> sc_snapshot s' = sc_snapshot s \<and> sc_digest s' = sc_digest s
          \<and> sc_row_count s' = sc_row_count s \<and> sc_value_bytes s' = sc_value_bytes s)"

text \<open>A claim is kept until its scope is cleaned.\<close>

definition claims_le :: "scope_db \<Rightarrow> scope_db \<Rightarrow> bool" where
  "claims_le db db' \<longleftrightarrow> (\<forall>c \<in> set (scope_claims db). c \<in> set (scope_claims db')
     \<or> (\<exists>s \<in> set (scopes db'). sc_id s = cl_scope c \<and> sc_state s = Cleaned))"

definition scope_db_le :: "scope_db \<Rightarrow> scope_db \<Rightarrow> bool" where
  "scope_db_le db db' \<longleftrightarrow> rows_le scope_row_le (scopes db) (scopes db') \<and> claims_le db db'
     \<and> (\<forall>s \<in> set (scopes db). sc_state s = Cleaned \<longrightarrow> (\<exists>s' \<in> set (scopes db'). sc_id s' = sc_id s \<and> sc_state s' = Cleaned))"

definition scope_le :: "scope_pool \<Rightarrow> scope_pool \<Rightarrow> bool" where
  "scope_le s t = (case s of
      PostgresPool \<Rightarrow> t = PostgresPool
    | SqlitePool db \<Rightarrow> (case t of PostgresPool \<Rightarrow> False | SqlitePool db' \<Rightarrow> scope_db_le db db'))"

lemma scope_row_le_refl [simp, intro!]: "scope_row_le s s"
  by (simp add: scope_row_le_def)

lemma scope_row_le_trans: "scope_row_le a b \<Longrightarrow> scope_row_le b c \<Longrightarrow> scope_row_le a c"
  by (auto simp: scope_row_le_def)

lemma scope_db_le_refl [simp, intro!]: "scope_db_le db db"
  by (auto simp: scope_db_le_def claims_le_def)

lemma scope_db_le_trans:
  assumes "scope_db_le a b" and "scope_db_le b c"
  shows "scope_db_le a c"
proof -
  have "rows_le scope_row_le (scopes a) (scopes c)"
    using assms scope_row_le_trans by (auto simp: scope_db_le_def elim: rows_le_trans)
  moreover have "\<exists>s \<in> set (scopes c). sc_id s = sc_id r \<and> sc_state s = Cleaned"
    if "r \<in> set (scopes b)" "sc_state r = Cleaned" for r
    using assms(2) that by (auto simp: scope_db_le_def)
  ultimately show ?thesis
    using assms unfolding scope_db_le_def claims_le_def by metis
qed

section \<open>Consequences\<close>

lemma scope_invD:
  assumes "scope_db_inv X db"
  shows "distinct (map sc_id (scopes db))" "distinct (map sc_claim (scopes db))"
    "distinct (map (\<lambda>s. (sc_namespace s, sc_run_id s)) (scopes db))" "distinct (map cl_id (scope_claims db))"
    "distinct (map (\<lambda>v. (v_scope v, v_key v)) (scope_values db))"
    "s \<in> set (scopes db) \<Longrightarrow> scope_good (scope_values db) (scope_claims db) s"
    "s \<in> set (scopes db) \<Longrightarrow> sc_state s \<noteq> Quarantined"
  using assms by (auto simp: scope_db_inv_def scopes_ok_def claims_ok_def values_ok_def scope_good_def)

definition record_of :: "scope_row \<Rightarrow> datetime \<Rightarrow> scope_record" where
  "record_of s t = \<lparr> r_state = sc_state s, r_created_at = t, r_snapshot = sc_snapshot s,
     r_digest = sc_digest s, r_row_count = sc_row_count s, r_value_bytes = sc_value_bytes s, r_reason = sc_reason s \<rparr>"

lemma load_scope_SomeD:
  assumes "load_scope X i db = Inr (Some r)"
  obtains s t where "s \<in> set (scopes db)" "sc_id s = i" "decode_timestamp X (sc_created_at s) = Inr t" "r = record_of s t"
  using assms by (auto simp: load_scope_def record_of_def split: option.splits if_splits sum.splits dest: find_SomeD)

lemma load_scope_in:
  assumes "scope_db_inv X db" and "s \<in> set (scopes db)" and "decode_timestamp X (sc_created_at s) = Inr t"
  shows "load_scope X (sc_id s) db = Inr (Some (record_of s t))"
proof -
  have "find (\<lambda>r. sc_id r = sc_id s) (scopes db) = Some s"
    using assms(2) scope_invD(1) [OF assms(1)] by (subst find_Some_iff_key [where k = sc_id]) auto
  moreover have "sc_version s = 1"
    using assms(1,2) by (auto simp: scope_db_inv_def scopes_ok_def scope_check_def list_all_iff)
  ultimately show ?thesis
    using assms(3) by (simp add: load_scope_def TICKR_CTX_SCOPE_PROTOCOL_VERSION_def record_of_def)
qed

lemma snapshot_from_has_snapshot:
  "has_snapshot s \<Longrightarrow> \<exists>snap. snapshot_from_record i (record_of s t) = Inr snap"
  by (auto simp: has_snapshot_def snapshot_from_record_def record_of_def)

lemma collect_results_map:
  "collect_results f xs = Inr ys \<Longrightarrow> (\<And>x y. f x = Inr y \<Longrightarrow> h y = g x) \<Longrightarrow> map h ys = map g xs"
  by (induction xs arbitrary: ys) (auto split: sum.splits)

lemma insort_key_map_comp: "insort_key f (g x) (map g xs) = map g (insort_key (f \<circ> g) x xs)"
  by (induction xs) auto

lemma sort_key_map_comp: "sort_key f (map g xs) = map g (sort_key (f \<circ> g) xs)"
  by (induction xs) (auto simp: insort_key_map_comp comp_def)

lemma load_scope_values_entries:
  assumes "load_scope_values X i db = Inr vs"
  shows "map (\<lambda>v. (sv_key v, sv_envelope v)) vs = sort_key fst (scope_entries i (scope_values db))"
proof -
  have "map (\<lambda>v. (sv_key v, sv_envelope v)) vs = map (\<lambda>v. (v_key v, v_envelope v)) (sort_key v_key (value_rows i db))"
    using assms unfolding load_scope_values_def
    by (rule collect_results_map) (auto simp: stored_value_def split: sum.splits)
  also have "\<dots> = sort_key fst (scope_entries i (scope_values db))"
    by (simp add: scope_entries_def value_rows_def sort_key_map_comp comp_def)
  finally show ?thesis .
qed

end
