(* ===== verification/Scope_Steps.thy ===== *)
theory Scope_Steps
  imports Scope_Invariant
begin

text \<open>
  Every operation of the scope store keeps the invariant and moves the store upwards. The effect of
  each transaction is first put in a normal form (\<open>*_cases\<close>): it leaves the tables as they were, or it
  is one accepted mutation.
\<close>

section \<open>Requests that pass validation\<close>

lemma check_keys_InrD:
  "check_keys seen vs = Inr u \<Longrightarrow> distinct (map vi_key vs) \<and> vi_key ` set vs \<inter> set seen = {} \<and> (\<forall>v \<in> set vs. valid_key (vi_key v))"
  by (induction seen vs rule: check_keys.induct) (auto split: if_splits)

lemma mutation_digest_InrD:
  assumes "mutation_digest X i vs = Inr d"
  shows "distinct (map vi_key vs)" "\<forall>v \<in> set vs. valid_key (vi_key v)"
  using assms by (auto simp: mutation_digest_def split: sum.splits dest: check_keys_InrD)

lemma validate_values_None:
  "validate_values X vs = None \<Longrightarrow> v \<in> set vs \<Longrightarrow>
   length (vi_envelope v) \<le> MAX_SCOPE_VALUE_BYTES \<and> validate_envelope X (vi_envelope v) = Inr ()"
  by (induction X vs rule: validate_values.induct) (auto split: if_splits sum.splits)

definition good_request :: "'n externals \<Rightarrow> scope_value_input list \<Rightarrow> bool" where
  "good_request X vs \<longleftrightarrow> distinct (map vi_key vs) \<and> (\<forall>v \<in> set vs. valid_key (vi_key v)
     \<and> length (vi_envelope v) \<le> MAX_SCOPE_VALUE_BYTES \<and> validate_envelope X (vi_envelope v) = Inr ())"

lemma sum_lengths_le_request:
  "sum_list (map (\<lambda>v. saturating_add_usize (length (vi_key v)) (length (vi_envelope v))) vs) \<le> m \<Longrightarrow> m < u64_max
   \<Longrightarrow> sum_lengths vs \<le> m"
proof (induction vs arbitrary: m)
  case (Cons v vs)
  from Cons.prems have "sum_lengths vs \<le> m - saturating_add_usize (length (vi_key v)) (length (vi_envelope v))"
    by (intro Cons.IH) auto
  moreover have "length (vi_envelope v) \<le> saturating_add_usize (length (vi_key v)) (length (vi_envelope v))"
    using Cons.prems by (auto simp: saturating_add_usize_def)
  ultimately show ?case using Cons.prems by (simp add: sum_lengths_def)
qed (simp add: sum_lengths_def)

lemma validated_request:
  assumes "mutation_digest X i vs = Inr d" and "validate_mutation X vs 0 0 = None \<or> vs = []"
  shows "good_request X vs" "length vs \<le> MAX_SCOPE_REQUEST_VALUES" "sum_lengths vs \<le> MAX_SCOPE_REQUEST_BYTES"
proof -
  have "vs \<noteq> [] \<Longrightarrow> validate_values X vs = None \<and> length vs \<le> MAX_SCOPE_REQUEST_VALUES \<and> sum_lengths vs \<le> MAX_SCOPE_REQUEST_BYTES"
    using assms(2) sum_lengths_le_request [of vs MAX_SCOPE_REQUEST_BYTES]
    by (auto simp: validate_mutation_def Let_def scope_limits u64_max_def split: if_splits option.splits)
  then show "good_request X vs" "length vs \<le> MAX_SCOPE_REQUEST_VALUES" "sum_lengths vs \<le> MAX_SCOPE_REQUEST_BYTES"
    using mutation_digest_InrD [OF assms(1)] validate_values_None [of X vs]
    by (cases "vs = []"; simp add: good_request_def sum_lengths_def)+
qed

lemma validate_mutation_Empty: "validate_mutation X vs r b = Some EmptyRequest \<Longrightarrow> vs = []"
proof -
  have "validate_values X vs \<noteq> Some EmptyRequest" for vs
    by (induction X vs rule: validate_values.induct) (auto split: sum.splits)
  then show "validate_mutation X vs r b = Some EmptyRequest \<Longrightarrow> vs = []"
    by (auto simp: validate_mutation_def Let_def split: if_splits option.splits)
qed

section \<open>Inserting values\<close>

lemma entries_update_where:
  assumes "distinct (map (\<lambda>v. (v_scope v, v_key v)) t)" and "\<exists>v \<in> set t. v_scope v = i \<and> v_key v = k"
    and "\<And>v. v_scope (f v) = v_scope v \<and> v_key (f v) = v_key v \<and> v_envelope (f v) = e"
  shows "scope_entries i (update_where (\<lambda>v. v_scope v = i \<and> v_key v = k) f t) = AList.update k e (scope_entries i t)"
  using assms(1,2)
proof (induction t)
  case (Cons v t)
  show ?case
  proof (cases "v_scope v = i \<and> v_key v = k")
    case True
    with Cons.prems have "update_where (\<lambda>v. v_scope v = i \<and> v_key v = k) f t = t"
      by (intro update_where_none) (auto simp: image_iff)
    with True show ?thesis by (simp add: update_where_def scope_entries_def assms(3))
  next
    case False
    with Cons show ?thesis by (auto simp: update_where_def scope_entries_def)
  qed
qed simp

lemma entries_other_update_where:
  assumes "\<And>v. v_scope (f v) = v_scope v" and "j \<noteq> i"
  shows "scope_entries j (update_where (\<lambda>v. v_scope v = i \<and> P v) f t) = scope_entries j t"
  using assms by (induction t) (auto simp: update_where_def scope_entries_def)

lemma entries_snoc:
  "scope_entries i (t @ [r]) = (if v_scope r = i then scope_entries i t @ [(v_key r, v_envelope r)] else scope_entries i t)"
  by (simp add: scope_entries_def)

lemma update_new: "k \<notin> fst ` set al \<Longrightarrow> AList.update k v al = al @ [(k, v)]"
  by (induction al) auto

lemma upsert_entries:
  assumes "values_ok ss t" and "upsert_value ss r t = Some t'"
  shows "values_ok ss t'"
    "scope_entries i t' = (if i = v_scope r then AList.update (v_key r) (v_envelope r) (scope_entries i t) else scope_entries i t)"
proof -
  have d: "distinct (map (\<lambda>v. (v_scope v, v_key v)) t)" using assms(1) by (simp add: values_ok_def)
  show "values_ok ss t'"
    using assms(2) by (auto simp: upsert_value_def sql_update_Some sql_insert_Some split: if_splits)
  show "scope_entries i t' = (if i = v_scope r then AList.update (v_key r) (v_envelope r) (scope_entries i t) else scope_entries i t)"
  proof (cases "\<exists>v \<in> set t. v_scope v = v_scope r \<and> v_key v = v_key r")
    case True
    then have "t' = update_where (\<lambda>v. v_scope v = v_scope r \<and> v_key v = v_key r)
        (\<lambda>v. v\<lparr> v_envelope := v_envelope r, v_updated_at := v_updated_at r \<rparr>) t"
      using assms(2) by (auto simp: upsert_value_def sql_update_Some split: if_splits)
    then show ?thesis
      using True d by (auto simp: entries_update_where entries_other_update_where)
  next
    case False
    then have "t' = t @ [r]" using assms(2) by (auto simp: upsert_value_def sql_insert_Some split: if_splits)
    moreover have "v_key r \<notin> fst ` set (scope_entries (v_scope r) t)"
      using False by (auto simp: scope_entries_def)
    ultimately show ?thesis by (auto simp: entries_snoc update_new)
  qed
qed

lemma upsert_rows:
  assumes "upsert_value ss r t = Some t'" and "v \<in> set t'"
  shows "v_scope v \<in> insert (v_scope r) (v_scope ` set t)"
    "(v \<in> set t \<or> (v_key v = v_key r \<and> v_envelope v = v_envelope r))"
  using assms by (auto simp: upsert_value_def sql_update_Some sql_insert_Some split: if_splits elim!: in_update_whereE)

lemma insert_scope_values_effect:
  assumes "insert_scope_values X fresh i vs now ss t = Some t'" and "values_ok ss t"
  shows "values_ok ss t' \<and> scope_entries i t' = put_values vs (scope_entries i t)
    \<and> (\<forall>j. j \<noteq> i \<longrightarrow> scope_entries j t' = scope_entries j t)
    \<and> (\<forall>v \<in> set t'. v_scope v \<in> insert i (v_scope ` set t)
         \<and> (v \<in> set t \<or> (\<exists>w \<in> set vs. v_key v = vi_key w \<and> v_envelope v = vi_envelope w)))"
  using assms
proof (induction X fresh i vs now ss t rule: insert_scope_values.induct)
  case (2 X fresh i v vs now ss t)
  let ?r = "\<lparr> v_scope = i, v_key = vi_key v, v_identity = encode_uuid X (fresh 0), v_envelope = vi_envelope v,
          v_created_at = encode_timestamp now, v_updated_at = encode_timestamp now \<rparr>"
  from 2(2) obtain u where u: "upsert_value ss ?r t = Some u"
    and t': "insert_scope_values X (fresh \<circ> Suc) i vs now ss u = Some t'"
    by (auto split: Option.bind_splits)
  note ue = upsert_entries [OF 2(3) u] and ur = upsert_rows [OF u]
  note IH = 2(1) [OF u t' ue(1)]
  have rows: "v_scope w \<in> insert i (v_scope ` set t) \<and>
      (w \<in> set t \<or> (\<exists>x \<in> set (v # vs). v_key w = vi_key x \<and> v_envelope w = vi_envelope x))"
    if w: "w \<in> set t'" for w
  proof -
    have w1: "v_scope w \<in> insert i (v_scope ` set u)"
      and w2: "w \<in> set u \<or> (\<exists>x \<in> set vs. v_key w = vi_key x \<and> v_envelope w = vi_envelope x)"
      using IH w by simp_all
    have "v_scope ` set u \<subseteq> insert i (v_scope ` set t)" using ur(1) by auto
    with w1 have "v_scope w \<in> insert i (v_scope ` set t)" by blast
    moreover have "w \<in> set t \<or> (\<exists>x \<in> set (v # vs). v_key w = vi_key x \<and> v_envelope w = vi_envelope x)"
      using w2 ur(2) [of w] by auto
    ultimately show ?thesis by blast
  qed
  show ?case using IH ue(2) rows by simp
qed auto

section \<open>Steps that keep the invariant and move upwards\<close>

definition scope_step_ok :: "'n externals \<Rightarrow> scope_db \<Rightarrow> scope_db \<Rightarrow> bool" where
  "scope_step_ok X db db' \<longleftrightarrow> scope_db_inv X db' \<and> scope_db_le db db'"

lemma scope_step_refl: "scope_db_inv X db \<Longrightarrow> scope_step_ok X db db"
  by (simp add: scope_step_ok_def)

lemma scope_step_trans: "scope_step_ok X a b \<Longrightarrow> scope_step_ok X b c \<Longrightarrow> scope_step_ok X a c"
  by (auto simp: scope_step_ok_def intro: scope_db_le_trans)

lemma commit_scope_step:
  "scope_db_inv X db \<Longrightarrow> (\<And>db'. r = Some db' \<Longrightarrow> scope_step_ok X db db') \<Longrightarrow> scope_step_ok X db (snd (commit_scope db a r))"
  by (auto simp: commit_scope_def scope_step_refl split: option.splits)

lemma values_ok_cong: "sc_id ` set ss = sc_id ` set ss' \<Longrightarrow> values_ok ss t \<longleftrightarrow> values_ok ss' t"
  by (simp add: values_ok_def)

lemma claims_ok_cong: "sc_id ` set ss = sc_id ` set ss' \<Longrightarrow> claims_ok ss t \<longleftrightarrow> claims_ok ss' t"
  by (simp add: claims_ok_def)

text \<open>An update of scope rows that keeps their identity.\<close>

lemma update_scopes_step:
  assumes inv: "scope_db_inv X db" and u: "sql_update scopes_ok P f (scopes db) = Some ss"
    and f: "\<And>s. s \<in> set (scopes db) \<Longrightarrow> P s \<Longrightarrow> scope_row_le s (f s) \<and> scope_good (scope_values db) (scope_claims db) (f s)
              \<and> (sc_state s = Cleaned \<longrightarrow> sc_state (f s) = Cleaned)"
  shows "scope_step_ok X db (db\<lparr> scopes := ss \<rparr>)"
proof -
  have ss: "ss = update_where P f (scopes db)" "scopes_ok ss" using u by (auto simp: sql_update_Some)
  have "map sc_id ss = map sc_id (scopes db)"
    unfolding ss by (rule map_update_where) (use f in \<open>auto simp: scope_row_le_def\<close>)
  then have ids: "sc_id ` set ss = sc_id ` set (scopes db)" by (metis list.set_map)
  have "\<forall>s \<in> set ss. scope_good (scope_values db) (scope_claims db) s"
    using f scope_invD(6) [OF inv] by (auto simp: ss table_simps)
  then have "scope_db_inv X (db\<lparr> scopes := ss \<rparr>)"
    using inv ss values_ok_cong [OF ids] claims_ok_cong [OF ids] by (simp add: scope_db_inv_def)
  moreover have "rows_le scope_row_le (scopes db) ss"
    unfolding ss by (rule rows_le_update_where) (use f in auto)
  moreover have "\<exists>s' \<in> set ss. sc_id s' = sc_id s \<and> sc_state s' = Cleaned" if "s \<in> set (scopes db)" "sc_state s = Cleaned" for s
    using f [OF that(1)] that update_where_in [OF that(1), of P f] by (auto simp: ss scope_row_le_def split: if_splits)
  ultimately show ?thesis by (auto simp: scope_step_ok_def scope_db_le_def claims_le_def)
qed

lemma touch_scope_step:
  assumes "scope_db_inv X db" and "touch_scope i now db = Some db'"
  shows "scope_step_ok X db db'"
proof -
  from assms(2) obtain ss where u: "sql_update scopes_ok (\<lambda>s. sc_id s = i) (\<lambda>s. s\<lparr> sc_updated_at := encode_timestamp now \<rparr>) (scopes db) = Some ss"
    and db': "db' = db\<lparr> scopes := ss \<rparr>" by (auto simp: touch_scope_def)
  show ?thesis unfolding db'
    by (rule update_scopes_step [OF assms(1) u], drule scope_invD(6) [OF assms(1)])
      (simp add: scope_row_le_def scope_good_def has_snapshot_def split: scope_state.splits)
qed

lemma entries_filter_le:
  "length (scope_entries i (filter Q t)) \<le> length (scope_entries i t)"
  "entry_bytes (scope_entries i (filter Q t)) \<le> entry_bytes (scope_entries i t)"
  by (induction t) (auto simp: scope_entries_def entry_bytes_def)

lemma filter_values_inv: "values_inv X t \<Longrightarrow> values_inv X (filter Q t)"
  unfolding values_inv_def entries_bounded_def
  by (auto intro: order_trans [OF entries_filter_le(1)] order_trans [OF entries_filter_le(2)])

lemma distinct_map_filter': "distinct (map f xs) \<Longrightarrow> distinct (map f (filter P xs))"
  by (induction xs) auto

lemma filter_values_ok: "values_ok ss t \<Longrightarrow> values_ok ss (filter Q t)"
  by (auto simp: values_ok_def distinct_map_filter' list_all_iff)

lemma filter_claims_ok: "claims_ok ss t \<Longrightarrow> claims_ok ss (filter Q t)"
  by (auto simp: claims_ok_def distinct_map_filter' list_all_iff)

lemma scope_good_filter:
  "scope_good vs cs s \<Longrightarrow> scope_good (filter P vs) (filter Q cs) s"
  by (auto simp: scope_good_def split: scope_state.splits)

lemma filter_values_step:
  assumes "scope_db_inv X db"
  shows "scope_step_ok X db (db\<lparr> scope_values := filter Q (scope_values db) \<rparr>)"
  using assms scope_good_filter [of _ _ _ Q "\<lambda>_. True"]
  by (auto simp: scope_step_ok_def scope_db_inv_def scope_db_le_def claims_le_def filter_values_inv filter_values_ok)

text \<open>A claim on a scope that is not cleaned.\<close>

lemma insert_claim_step:
  assumes "scope_db_inv X db" and "insert_claim c i d now (scopes db) (scope_claims db) = Some cs"
    and "\<forall>s \<in> set (scopes db). sc_id s = i \<longrightarrow> sc_state s = Active"
  shows "scope_step_ok X db (db\<lparr> scope_claims := cs \<rparr>)"
  using assms
  by (auto simp: scope_step_ok_def scope_db_inv_def scope_db_le_def claims_le_def insert_claim_def sql_insert_Some
      scope_good_def split: scope_state.splits)

lemma insert_values_step:
  assumes inv: "scope_db_inv X db" and t: "insert_scope_values X fresh i vs now (scopes db) (scope_values db) = Some t"
    and act: "\<forall>s \<in> set (scopes db). sc_id s = i \<longrightarrow> sc_state s = Active"
    and req: "good_request X vs" and bnd: "entries_bounded (put_values vs (scope_entries i (scope_values db)))"
  shows "scope_step_ok X db (db\<lparr> scope_values := t \<rparr>)"
proof -
  have "values_ok (scopes db) (scope_values db)" using inv by (simp add: scope_db_inv_def)
  note eff = insert_scope_values_effect [OF t this]
  have rows: "\<forall>v \<in> set t. v_scope v \<in> insert i (v_scope ` set (scope_values db))"
      "\<forall>v \<in> set t. v \<in> set (scope_values db) \<or> (\<exists>w \<in> set vs. v_key v = vi_key w \<and> v_envelope v = vi_envelope w)"
    and ok: "values_ok (scopes db) t" using eff by simp_all
  have "entries_bounded (scope_entries j t)" for j
    using eff bnd inv by (cases "j = i") (auto simp: scope_db_inv_def values_inv_def)
  moreover have "value_good X v" if v: "v \<in> set t" for v
  proof -
    consider "v \<in> set (scope_values db)" | w where "w \<in> set vs" "v_key v = vi_key w" "v_envelope v = vi_envelope w"
      using rows(2) v by auto
    then show ?thesis
      using inv req by cases (auto simp: scope_db_inv_def values_inv_def good_request_def value_good_def)
  qed
  moreover have "scope_good t (scope_claims db) s" if s: "s \<in> set (scopes db)" for s
  proof -
    have "v_scope v \<noteq> sc_id s" if "sc_state s = Cleaned" "v \<in> set t" for v
    proof -
      have "v_scope v \<in> insert i (v_scope ` set (scope_values db))" using rows(1) that(2) by blast
      moreover have "sc_id s \<noteq> i" using act s that(1) by auto
      moreover have "\<forall>w \<in> set (scope_values db). v_scope w \<noteq> sc_id s"
        using scope_invD(6) [OF inv s] that(1) by (simp add: scope_good_def)
      ultimately show ?thesis by auto
    qed
    with scope_invD(6) [OF inv s] show ?thesis by (auto simp: scope_good_def split: scope_state.splits)
  qed
  ultimately have "scope_db_inv X (db\<lparr> scope_values := t \<rparr>)"
    using inv ok by (simp add: scope_db_inv_def values_inv_def)
  then show ?thesis by (auto simp: scope_step_ok_def scope_db_le_def claims_le_def)
qed

section \<open>The operations\<close>

lemma insert_values_and_claim_step:
  assumes inv: "scope_db_inv X db" and r: "insert_values_and_claim X fresh i c d vs now db = Some db'"
    and act: "\<forall>s \<in> set (scopes db). sc_id s = i \<longrightarrow> sc_state s = Active"
    and req: "good_request X vs" and bnd: "entries_bounded (put_values vs (scope_entries i (scope_values db)))"
  shows "scope_step_ok X db db'"
proof -
  from r obtain t cs where t: "insert_scope_values X fresh i vs now (scopes db) (scope_values db) = Some t"
    and cs: "insert_claim c i d now (scopes db) (scope_claims db) = Some cs"
    and db': "db' = db\<lparr> scope_values := t, scope_claims := cs \<rparr>"
    by (auto simp: insert_values_and_claim_def split: Option.bind_splits)
  have 1: "scope_step_ok X db (db\<lparr> scope_values := t \<rparr>)"
    using inv t act req bnd by (rule insert_values_step)
  have "scope_step_ok X (db\<lparr> scope_values := t \<rparr>) (db\<lparr> scope_values := t \<rparr>\<lparr> scope_claims := cs \<rparr>)"
    using 1 cs act by (intro insert_claim_step) (auto simp: scope_step_ok_def)
  with 1 show ?thesis unfolding db' by (auto intro: scope_step_trans)
qed

lemma new_scope_step:
  assumes "scope_db_inv X db" and "sql_insert scopes_ok s (scopes db) = Some ss"
    and "sc_state s = Active" and "sc_snapshot s = None"
  shows "scope_step_ok X db (db\<lparr> scopes := ss \<rparr>)"
  using assms
  by (auto simp: scope_step_ok_def scope_db_inv_def sql_insert_Some values_ok_def claims_ok_def list_all_iff scope_good_def
      scope_db_le_def rows_le_def claims_le_def)

lemma entries_of_new_scope:
  assumes "scope_db_inv X db" and "\<forall>s \<in> set (scopes db). sc_id s \<noteq> i"
  shows "scope_entries i (scope_values db) = []"
proof -
  have "\<forall>v \<in> set (scope_values db). v_scope v \<in> sc_id ` set (scopes db)"
    using assms(1) by (simp add: scope_db_inv_def values_ok_def list_all_iff)
  moreover have "i \<notin> sc_id ` set (scopes db)" using assms(2) by auto
  ultimately show ?thesis by (auto simp: scope_entries_def filter_empty_conv)
qed

lemma put_values_bounded_empty:
  assumes "good_request X vs" and "length vs \<le> MAX_SCOPE_REQUEST_VALUES" and "sum_lengths vs \<le> MAX_SCOPE_REQUEST_BYTES"
  shows "entries_bounded (put_values vs [])"
  using assms length_put_values [of vs "[]"] entry_bytes_put_values [of vs "[]"] length_filter_le [of _ vs]
  by (auto simp: entries_bounded_def good_request_def scope_limits entry_bytes_def)

lemma create_scope_step:
  assumes inv: "scope_db_inv X db" and req: "good_request X (cs_values inp)" "length (cs_values inp) \<le> MAX_SCOPE_REQUEST_VALUES"
      "sum_lengths (cs_values inp) \<le> MAX_SCOPE_REQUEST_BYTES"
  shows "scope_step_ok X db (snd (create_scope_tx X fresh inp d db))"
proof -
  let ?i = "encode_uuid X (cs_scope_id inp)" and ?c = "encode_uuid X (cs_claim_id inp)"
  have new: "scope_step_ok X db db'" if ss: "sql_insert scopes_ok s (scopes db) = Some ss"
      and s: "sc_id s = ?i" "sc_state s = Active" "sc_snapshot s = None"
      and r: "insert_values_and_claim X fresh ?i ?c d (cs_values inp) (cs_now inp) (db\<lparr> scopes := ss \<rparr>) = Some db'" for s ss db'
  proof -
    have 1: "scope_step_ok X db (db\<lparr> scopes := ss \<rparr>)" using inv ss s by (intro new_scope_step)
    have "?i \<notin> sc_id ` set (scopes db)" using ss s(1) [symmetric] by (auto simp: sql_insert_Some scopes_ok_def)
    then have fresh: "\<forall>r \<in> set (scopes db). sc_id r \<noteq> ?i" by (auto simp: image_iff)
    have act: "\<forall>r \<in> set ss. sc_id r = ?i \<longrightarrow> sc_state r = Active"
      using ss s fresh by (auto simp: sql_insert_Some)
    have "scope_step_ok X (db\<lparr> scopes := ss \<rparr>) db'"
      using 1 r act req entries_of_new_scope [OF inv fresh] put_values_bounded_empty [OF req]
      by (intro insert_values_and_claim_step [OF _ r]) (auto simp: scope_step_ok_def)
    with 1 show ?thesis by (rule scope_step_trans)
  qed
  show ?thesis
    unfolding create_scope_tx_def Let_def
    by (auto simp: scope_step_refl [OF inv] split: option.splits Option.bind_splits
        intro!: commit_scope_step [OF inv] elim!: new [rotated -1])
qed

lemma map_of_map': "map_of (map (\<lambda>(k, e). (k, f e)) al) k = map_option f (map_of al k)"
  by (induction al) auto

text \<open>The write is within the limits exactly as they were computed.\<close>

lemma resulting_bound_None:
  assumes "resulting_scope_bound (existing_lengths i db) vs = None" and "distinct (map vi_key vs)"
  shows "entries_bounded (put_values vs (scope_entries i (scope_values db)))"
proof -
  let ?al = "scope_entries i (scope_values db)" and ?m = "existing_lengths i db"
  have m: "?m = map (\<lambda>(k, e). (k, length e)) ?al"
    by (simp add: existing_lengths_def value_rows_def scope_entries_def)
  have mo: "map_of ?m k = map_option length (map_of ?al k)" for k
    unfolding m by (rule map_of_map')
  have sm: "sum_list (map snd ?m) = entry_bytes ?al"
    unfolding m by (simp add: entry_bytes_def comp_def case_prod_unfold)
  have lm: "length ?m = length ?al" by (simp add: m)
  show ?thesis
    using assms length_put_values [of vs ?al] entry_bytes_put_values [of vs ?al]
    by (auto simp: resulting_scope_bound_def Let_def mo sm entries_bounded_def saturating_add_usize_def
        scope_limits u64_max_def min_def lm split: if_splits)
qed

lemma load_scope_state:
  assumes "scope_db_inv X db" and "load_scope X i db = Inr (Some r)"
  shows "\<forall>s \<in> set (scopes db). sc_id s = i \<longrightarrow> sc_state s = r_state r" "r_state r \<noteq> Quarantined"
proof -
  from assms(2) obtain s t where s: "s \<in> set (scopes db)" "sc_id s = i" and r: "r = record_of s t"
    by (rule load_scope_SomeD)
  have "s' = s" if "s' \<in> set (scopes db)" "sc_id s' = i" for s'
    using distinct_map_inj [OF scope_invD(1) [OF assms(1)] that(1) s(1)] that s by simp
  then show "\<forall>s \<in> set (scopes db). sc_id s = i \<longrightarrow> sc_state s = r_state r"
    by (auto simp: r record_of_def)
  show "r_state r \<noteq> Quarantined" using scope_invD(7) [OF assms(1) s(1)] by (simp add: r record_of_def)
qed

lemma write_scope_step:
  assumes inv: "scope_db_inv X db" and req: "good_request X (ws_values inp)"
  shows "scope_step_ok X db (snd (write_scope_tx X fresh inp d db))"
proof -
  have wr: "scope_step_ok X db db'"
    if r: "load_scope X i db = Inr (Some r)" "r_state r = Active"
      and b: "resulting_scope_bound (existing_lengths i db) (ws_values inp) = None"
      and w: "Option.bind (insert_values_and_claim X fresh i c d (ws_values inp) (ws_now inp) db) (touch_scope i (ws_now inp)) = Some db'"
    for i c r db'
  proof -
    from w obtain db1 where 1: "insert_values_and_claim X fresh i c d (ws_values inp) (ws_now inp) db = Some db1"
      and 2: "touch_scope i (ws_now inp) db1 = Some db'" by (auto split: Option.bind_splits)
    have "scope_step_ok X db db1"
      using load_scope_state [OF inv r(1)] r(2) req resulting_bound_None [OF b]
      by (intro insert_values_and_claim_step [OF inv 1]) (auto simp: good_request_def)
    moreover from this 2 have "scope_step_ok X db1 db'"
      by (intro touch_scope_step) (auto simp: scope_step_ok_def)
    ultimately show ?thesis by (rule scope_step_trans)
  qed
  show ?thesis
    unfolding write_scope_tx_def Let_def
    by (auto simp: scope_step_refl [OF inv] split: option.splits sum.splits intro!: commit_scope_step [OF inv] elim!: wr)
qed

lemma delete_scope_step:
  assumes inv: "scope_db_inv X db"
  shows "scope_step_ok X db (snd (delete_scope_tx X inp d db))"
proof -
  have del: "scope_step_ok X db db'"
    if r: "load_scope X i db = Inr (Some r)" "r_state r = Active"
      and w: "Option.bind (insert_claim c i d now (scopes db) (scope_claims db))
        (\<lambda>cs. touch_scope i now (db\<lparr> scope_values := filter Q (scope_values db), scope_claims := cs \<rparr>)) = Some db'"
    for i c r now Q db'
  proof -
    let ?db1 = "db\<lparr> scope_values := filter Q (scope_values db) \<rparr>"
    from w obtain cs where 1: "insert_claim c i d now (scopes ?db1) (scope_claims ?db1) = Some cs"
      and 2: "touch_scope i now (?db1\<lparr> scope_claims := cs \<rparr>) = Some db'" by (auto split: Option.bind_splits)
    have a: "scope_step_ok X db ?db1" using inv by (rule filter_values_step)
    have b: "scope_step_ok X ?db1 (?db1\<lparr> scope_claims := cs \<rparr>)"
      using a load_scope_state [OF inv r(1)] r(2) by (intro insert_claim_step [OF _ 1]) (auto simp: scope_step_ok_def)
    then have "scope_step_ok X (?db1\<lparr> scope_claims := cs \<rparr>) db'"
      using 2 by (intro touch_scope_step) (auto simp: scope_step_ok_def)
    with a b show ?thesis by (blast intro: scope_step_trans)
  qed
  show ?thesis
    unfolding delete_scope_tx_def Let_def
    by (auto simp: scope_step_refl [OF inv] split: option.splits sum.splits intro!: commit_scope_step [OF inv] elim!: del)
qed

section \<open>Stored values are always readable\<close>

lemma sum_list_sort_key: "sum_list (map f (sort_key k xs)) = sum_list (map (f :: 'a \<Rightarrow> nat) xs)"
  by (metis mset_map mset_sort sum_mset_sum_list)

lemma loaded_values:
  assumes inv: "scope_db_inv X db" and vs: "load_scope_values X i db = Inr vs"
  shows "length vs \<le> MAX_SCOPE_ROWS" "sum_list (map (length \<circ> sv_envelope) vs) \<le> MAX_SCOPE_BYTES"
    "\<forall>v \<in> set vs. valid_key (sv_key v) \<and> validate_envelope X (sv_envelope v) = Inr () \<and> length (sv_envelope v) \<le> MAX_SCOPE_VALUE_BYTES"
proof -
  let ?al = "scope_entries i (scope_values db)"
  note e = load_scope_values_entries [OF vs]
  have b: "entries_bounded ?al" and g: "\<forall>v \<in> set (scope_values db). value_good X v"
    using inv by (auto simp: scope_db_inv_def values_inv_def)
  show "length vs \<le> MAX_SCOPE_ROWS"
    using b arg_cong [OF e, of length] by (simp add: entries_bounded_def)
  have "map (length \<circ> sv_envelope) vs = map (length \<circ> snd) (sort_key fst ?al)"
    using arg_cong [OF e, of "map (length \<circ> snd)"] by (simp add: comp_def)
  then show "sum_list (map (length \<circ> sv_envelope) vs) \<le> MAX_SCOPE_BYTES"
    using b by (simp add: entries_bounded_def entry_bytes_def sum_list_sort_key)
  have "(sv_key v, sv_envelope v) \<in> set ?al" if "v \<in> set vs" for v
    using arg_cong [OF e, of set] that by auto
  then show "\<forall>v \<in> set vs. valid_key (sv_key v) \<and> validate_envelope X (sv_envelope v) = Inr () \<and> length (sv_envelope v) \<le> MAX_SCOPE_VALUE_BYTES"
    using g by (fastforce simp: scope_entries_def value_good_def)
qed

lemma first_invalid_None:
  "\<forall>v \<in> set vs. validate_envelope X (sv_envelope v) = Inr () \<Longrightarrow> first_invalid_stored_envelope X vs = None"
  by (induction X vs rule: first_invalid_stored_envelope.induct) auto

lemma loaded_values_ok:
  assumes "scope_db_inv X db" and "load_scope_values X i db = Inr vs"
  shows "stored_bounds vs = None" "first_invalid_stored_envelope X vs = None"
    "encode_snapshot vs \<noteq> None" "fits_i64 (length vs)" "fits_i64 (sum_list (map (length \<circ> sv_envelope) vs))"
proof -
  note l = loaded_values [OF assms]
  have "find (\<lambda>v. length (sv_envelope v) > MAX_SCOPE_VALUE_BYTES) vs = None"
    using l(3) by (auto simp: find_None_iff)
  then show "stored_bounds vs = None" using l by (simp add: stored_bounds_def)
  show "first_invalid_stored_envelope X vs = None" using l(3) by (intro first_invalid_None) auto
  have "u32_sized (map (\<lambda>v. (as_bytes (sv_key v), sv_envelope v)) vs)"
    using l(3) by (fastforce simp: u32_sized_def valid_key_def scope_limits as_bytes_def)
  then show "encode_snapshot vs \<noteq> None"
    using l(1) by (simp add: encode_snapshot_eq scope_limits)
  show "fits_i64 (length vs)" "fits_i64 (sum_list (map (length \<circ> sv_envelope) vs))"
    using l(1,2) by (simp_all add: fits_i64_def i64_max_def scope_limits)
qed

text \<open>The snapshot a row holds.\<close>

definition row_snapshot :: "uuid \<Rightarrow> scope_row \<Rightarrow> scope_snapshot" where
  "row_snapshot i s = \<lparr> ss_scope_id = i, ss_bytes = the (sc_snapshot s), ss_digest = the (sc_digest s),
     ss_row_count = nat (the (sc_row_count s)), ss_value_bytes = nat (the (sc_value_bytes s)) \<rparr>"

lemma snapshot_from_row:
  "has_snapshot s \<Longrightarrow> snapshot_from_record i (record_of s t) = Inr (row_snapshot i s)"
  by (auto simp: has_snapshot_def snapshot_from_record_def record_of_def row_snapshot_def)

lemma archived_has_snapshot:
  assumes "scope_db_inv X db" and "s \<in> set (scopes db)" and "sc_state s \<noteq> Active"
  shows "has_snapshot s"
  using scope_invD(6) [OF assms(1,2)] assms(3) by (auto simp: scope_good_def split: scope_state.splits)

text \<open>The three operations on a loaded scope, as they behave under the invariant.\<close>

lemma read_scope_eq:
  assumes inv: "scope_db_inv X db" and l: "load_scope X (encode_uuid X i) db = Inr (Some (record_of s t))" and s: "s \<in> set (scopes db)"
  shows "read_scope_tx X i now db =
    (if sc_state s \<noteq> Active then (Inr (Archived (row_snapshot i s)), db)
     else case age_bound t now of Some b \<Rightarrow> (Inr (ReadBound b), db)
     | None \<Rightarrow> (case load_scope_values X (encode_uuid X i) db of Inl e \<Rightarrow> (Inl e, db) | Inr vs \<Rightarrow> (Inr (Present vs), db)))"
proof -
  have st: "r_state (record_of s t) = sc_state s" "r_created_at (record_of s t) = t" by (simp_all add: record_of_def)
  show ?thesis
    using scope_invD(7) [OF inv s] loaded_values_ok [OF inv] archived_has_snapshot [OF inv s]
    by (cases "sc_state s") (auto simp: read_scope_tx_def l st snapshot_from_row split: option.splits sum.splits)
qed

lemma snapshot_scope_eq:
  assumes inv: "scope_db_inv X db" and l: "load_scope X (encode_uuid X i) db = Inr (Some (record_of s t))" and s: "s \<in> set (scopes db)"
  shows "snapshot_scope_tx X i now db =
    (if sc_state s \<noteq> Active then (Inr (SnapIdempotent (row_snapshot i s)), db)
     else case age_bound t now of Some b \<Rightarrow> (Inr (SnapBound b), db)
     | None \<Rightarrow> (case load_scope_values X (encode_uuid X i) db of Inl e \<Rightarrow> (Inl e, db)
       | Inr vs \<Rightarrow> let snap = snapshot_of i vs (the (encode_snapshot vs)) in
           commit_scope db (SnapCommitted snap) (store_snapshot (encode_uuid X i) snap now db)))"
proof -
  have st: "r_state (record_of s t) = sc_state s" "r_created_at (record_of s t) = t" by (simp_all add: record_of_def)
  show ?thesis
    using scope_invD(7) [OF inv s] loaded_values_ok [OF inv] archived_has_snapshot [OF inv s]
    by (cases "sc_state s") (auto simp: snapshot_scope_tx_def l st snapshot_from_row snapshot_of_def Let_def
        split: option.splits sum.splits dest: loaded_values_ok(3) [OF inv])
qed

lemma cleanup_scope_eq:
  assumes inv: "scope_db_inv X db" and l: "load_scope X (encode_uuid X i) db = Inr (Some (record_of s t))" and s: "s \<in> set (scopes db)"
  shows "cleanup_scope_tx X i now db =
    (case sc_state s of
       Active \<Rightarrow> (Inr SnapshotRequired, db)
     | Snapshotted \<Rightarrow> commit_scope db CleanedUp (clean_scope (encode_uuid X i) now db)
     | _ \<Rightarrow> (Inr AlreadyCleaned, db))"
proof -
  have st: "r_state (record_of s t) = sc_state s" by (simp add: record_of_def)
  show ?thesis
    using scope_invD(7) [OF inv s] archived_has_snapshot [OF inv s]
    by (cases "sc_state s") (auto simp: cleanup_scope_tx_def l st snapshot_from_row)
qed

section \<open>Reading, taking snapshots and cleaning up\<close>

lemma load_scope_cases:
  assumes "scope_db_inv X db"
  obtains e where "load_scope X i db = Inl e" | "load_scope X i db = Inr None"
  | s t where "load_scope X i db = Inr (Some (record_of s t))" "s \<in> set (scopes db)" "sc_id s = i"
      "decode_timestamp X (sc_created_at s) = Inr t"
proof (cases "load_scope X i db")
  case (Inr ro)
  then show ?thesis using that(2,3) by (cases ro) (auto elim: load_scope_SomeD)
qed (use that(1) in blast)

lemma read_scope_unchanged:
  assumes "scope_db_inv X db"
  shows "snd (read_scope_tx X i now db) = db"
proof (rule load_scope_cases [OF assms, of "encode_uuid X i"])
  fix s t assume "load_scope X (encode_uuid X i) db = Inr (Some (record_of s t))" "s \<in> set (scopes db)"
  then show ?thesis using read_scope_eq [OF assms] by (simp split: option.split sum.split)
qed (simp_all add: read_scope_tx_def)

lemma store_snapshot_step:
  assumes inv: "scope_db_inv X db" and st: "store_snapshot i (snapshot_of u vs bs) now db = Some db'"
    and bs: "encode_snapshot vs = Some bs"
  shows "scope_step_ok X db db'"
proof -
  have m: "starts_with bs SNAPSHOT_MAGIC" using bs by (auto simp: encode_snapshot_eq split: if_splits)
  from st obtain ss where u: "sql_update scopes_ok (\<lambda>s. sc_id s = i \<and> sc_state s = Active)
      (\<lambda>s. s\<lparr> sc_state := Snapshotted, sc_snapshot := Some bs, sc_digest := Some (sha256_hex bs),
              sc_row_count := Some (int (length vs)), sc_value_bytes := Some (int (sum_list (map (length \<circ> sv_envelope) vs))),
              sc_snapshotted_at := Some (encode_timestamp now), sc_updated_at := encode_timestamp now \<rparr>) (scopes db) = Some ss"
    and db': "db' = db\<lparr> scopes := ss \<rparr>"
    by (auto simp: store_snapshot_def snapshot_of_def)
  show ?thesis unfolding db'
    by (rule update_scopes_step [OF inv u], drule scope_invD(6) [OF inv])
      (simp add: scope_row_le_def scope_good_def has_snapshot_def m)
qed

lemma snapshot_scope_step:
  assumes inv: "scope_db_inv X db"
  shows "scope_step_ok X db (snd (snapshot_scope_tx X i now db))"
proof (rule load_scope_cases [OF inv, of "encode_uuid X i"])
  fix s t assume l: "load_scope X (encode_uuid X i) db = Inr (Some (record_of s t))" and s: "s \<in> set (scopes db)"
  have "scope_step_ok X db db'"
    if "load_scope_values X (encode_uuid X i) db = Inr vs"
      and "store_snapshot (encode_uuid X i) (snapshot_of i vs (the (encode_snapshot vs))) now db = Some db'" for vs db'
    using store_snapshot_step [OF inv that(2)] loaded_values_ok(3) [OF inv that(1)] by auto
  then show ?thesis
    using scope_step_refl [OF inv]
    by (auto simp: snapshot_scope_eq [OF inv l s] Let_def split: option.split sum.split intro!: commit_scope_step [OF inv])
qed (simp_all add: snapshot_scope_tx_def scope_step_refl inv)

lemma clean_scope_step:
  assumes inv: "scope_db_inv X db" and s: "s \<in> set (scopes db)" "sc_id s = i" "sc_state s = Snapshotted"
    and c: "clean_scope i now db = Some db'"
  shows "scope_step_ok X db db'"
proof -
  let ?vs = "filter (\<lambda>v. v_scope v \<noteq> i) (scope_values db)" and ?cs = "filter (\<lambda>c. cl_scope c \<noteq> i) (scope_claims db)"
  let ?f = "\<lambda>s. s\<lparr> sc_state := Cleaned, sc_cleaned_at := Some (encode_timestamp now), sc_updated_at := encode_timestamp now \<rparr>"
  from c obtain ss where ss: "ss = update_where (\<lambda>s. sc_id s = i \<and> sc_state s = Snapshotted) ?f (scopes db)" "scopes_ok ss"
    and db': "db' = db\<lparr> scopes := ss, scope_values := ?vs, scope_claims := ?cs \<rparr>"
    by (auto simp: clean_scope_def sql_update_Some)
  have "map sc_id ss = map sc_id (scopes db)" unfolding ss by (rule map_update_where) simp
  then have ids: "sc_id ` set ss = sc_id ` set (scopes db)" by (metis list.set_map)
  have "scope_good ?vs ?cs (if sc_id r = i \<and> sc_state r = Snapshotted then ?f r else r)" if "r \<in> set (scopes db)" for r
    using scope_invD(6) [OF inv that] scope_good_filter [OF scope_invD(6) [OF inv that]]
    by (auto simp: scope_good_def has_snapshot_def)
  then have "scope_db_inv X db'"
    using inv ss(2) values_ok_cong [OF ids] claims_ok_cong [OF ids]
    by (auto simp: db' scope_db_inv_def filter_values_ok filter_claims_ok filter_values_inv ss(1) table_simps)
  moreover have "rows_le scope_row_le (scopes db) ss"
    unfolding ss by (rule rows_le_update_where) (auto simp: scope_row_le_def)
  moreover have cl: "?f s \<in> set ss" using update_where_in [OF s(1), of "\<lambda>s. sc_id s = i \<and> sc_state s = Snapshotted" ?f] s by (auto simp: ss)
  then have "claims_le db db'" using s(2) by (auto simp: claims_le_def db' intro!: bexI [of _ "?f s"])
  moreover have "\<exists>r' \<in> set ss. sc_id r' = sc_id r \<and> sc_state r' = Cleaned" if "r \<in> set (scopes db)" "sc_state r = Cleaned" for r
    using update_where_in [OF that(1), of "\<lambda>s. sc_id s = i \<and> sc_state s = Snapshotted" ?f] that(2) by (auto simp: ss)
  ultimately show ?thesis by (simp add: scope_step_ok_def scope_db_le_def db')
qed

lemma cleanup_scope_step:
  assumes inv: "scope_db_inv X db"
  shows "scope_step_ok X db (snd (cleanup_scope_tx X i now db))"
proof (rule load_scope_cases [OF inv, of "encode_uuid X i"])
  fix s t assume l: "load_scope X (encode_uuid X i) db = Inr (Some (record_of s t))"
    and s: "s \<in> set (scopes db)" "sc_id s = encode_uuid X i"
  show ?thesis
    using scope_step_refl [OF inv] clean_scope_step [OF inv s]
    by (cases "sc_state s") (auto simp: cleanup_scope_eq [OF inv l s(1)] intro!: commit_scope_step [OF inv])
qed (simp_all add: cleanup_scope_tx_def scope_step_refl inv)

section \<open>The store as a monotone system\<close>

lemma exec_scope_cases:
  assumes inv: "scope_db_inv X db"
  shows "\<exists>db'. exec_scope X a (SqlitePool db) = SqlitePool db' \<and> scope_step_ok X db db'"
proof (cases a)
  case (CreateScope fresh inp)
  then show ?thesis
    using create_scope_step [OF inv, of inp fresh] validated_request [of X "cs_scope_id inp" "cs_values inp"] scope_step_refl [OF inv]
      validate_mutation_Empty [of X "cs_values inp" 0 0]
    by (auto simp: create_tickr_ctx_scope_def split: sum.split option.split)
next
  case (WriteScope fresh inp)
  then show ?thesis
    using write_scope_step [OF inv, of inp fresh] validated_request(1) [of X "ws_scope_id inp" "ws_values inp"] scope_step_refl [OF inv]
    by (auto simp: write_tickr_ctx_scope_def split: sum.split option.split)
next
  case (DeleteScopeValue inp)
  then show ?thesis
    using delete_scope_step [OF inv] scope_step_refl [OF inv] by (auto simp: delete_tickr_ctx_scope_value_def split: sum.split)
next
  case (ReadScope i now)
  then show ?thesis
    using read_scope_unchanged [OF inv] scope_step_refl [OF inv] by (auto simp: read_tickr_ctx_scope_def)
next
  case (SnapshotScope i now)
  then show ?thesis using snapshot_scope_step [OF inv] by (auto simp: snapshot_tickr_ctx_scope_def)
next
  case (SnapshotScopeForRun ns r now)
  then show ?thesis
    using snapshot_scope_step [OF inv] scope_step_refl [OF inv]
    by (auto simp: snapshot_tickr_ctx_scope_for_run_def snapshot_tickr_ctx_scope_def split: sum.split option.split)
next
  case (CleanupScope i now)
  then show ?thesis using cleanup_scope_step [OF inv] by (auto simp: cleanup_tickr_ctx_scope_def)
qed

lemma exec_scope_postgres [simp]: "exec_scope X a PostgresPool = PostgresPool"
  by (cases a) (auto simp: create_tickr_ctx_scope_def write_tickr_ctx_scope_def delete_tickr_ctx_scope_value_def read_tickr_ctx_scope_def
      snapshot_tickr_ctx_scope_def snapshot_tickr_ctx_scope_for_run_def cleanup_tickr_ctx_scope_def split: sum.split option.split)

interpretation scope: op_monotone "exec_scope X" "scope_inv X" scope_le for X :: "'n externals"
proof
  fix s t u :: scope_pool and a
  show "scope_inv X s \<Longrightarrow> scope_inv X (exec_scope X a s)"
    using exec_scope_cases [of X _ a] by (cases s) (force simp: scope_inv_def scope_step_ok_def)+
  show "scope_le s s" by (auto simp: scope_le_def split: backend_pool.split)
  show "scope_le s t \<Longrightarrow> scope_le t u \<Longrightarrow> scope_le s u"
    by (auto simp: scope_le_def split: backend_pool.splits intro: scope_db_le_trans)
  show "scope_inv X s \<Longrightarrow> scope_le s (exec_scope X a s)"
    using exec_scope_cases [of X _ a] by (cases s) (force simp: scope_inv_def scope_le_def scope_step_ok_def)+
qed

lemma run_scope_sqlite:
  assumes "scope_db_inv X db"
  obtains db' where "run_scope X ops (SqlitePool db) = SqlitePool db'" "scope_db_inv X db'" "scope_db_le db db'"
proof -
  have "scope_inv X (run_scope X ops (SqlitePool db))" "scope_le (SqlitePool db) (run_scope X ops (SqlitePool db))"
    using scope.run_inv [of X] scope.run_le [of X] assms by (simp_all add: run_scope_def scope_inv_def)
  then show ?thesis using that by (cases "run_scope X ops (SqlitePool db)") (simp_all add: scope_inv_def scope_le_def)
qed

lemma empty_scope_inv: "scope_db_inv X empty_scope_db"
  by (simp add: scope_db_inv_def empty_scope_db_def scopes_ok_def values_ok_def claims_ok_def values_inv_def scope_entries_def
      entries_bounded_def entry_bytes_def)

end
