(* ===== verification/Scope_Properties.thy ===== *)
theory Scope_Properties
  imports Scope_Steps
begin

text \<open>
  What the scope store promises: its invariant along every run, the finality and the content of
  snapshots, writes that apply once, a store that behaves as one finite map per scope, one scope per
  run, and the limits on what is read back.
\<close>

section \<open>Accepted mutations\<close>

lemma write_AppliedD:
  assumes "write_scope_tx X fresh inp d db = (Inr (Applied ins upd), db')"
  obtains s t u cs ss where
    "s \<in> set (scopes db)" "sc_id s = encode_uuid X (ws_scope_id inp)" "sc_state s = Active"
    "decode_timestamp X (sc_created_at s) = Inr t"
    "insert_scope_values X fresh (sc_id s) (ws_values inp) (ws_now inp) (scopes db) (scope_values db) = Some u"
    "insert_claim (encode_uuid X (ws_claim_id inp)) (sc_id s) d (ws_now inp) (scopes db) (scope_claims db) = Some cs"
    "sql_update scopes_ok (\<lambda>r. sc_id r = sc_id s) (\<lambda>r. r\<lparr> sc_updated_at := encode_timestamp (ws_now inp) \<rparr>) (scopes db) = Some ss"
    "db' = \<lparr> scopes = ss, scope_values = u, scope_claims = cs \<rparr>"
    "upd = length (filter (\<lambda>v. map_of (existing_lengths (sc_id s) db) (vi_key v) \<noteq> None) (ws_values inp))"
    "ins = length (ws_values inp) - upd"
proof -
  from assms obtain r where l: "load_scope X (encode_uuid X (ws_scope_id inp)) db = Inr (Some r)" and a: "r_state r = Active"
    and w: "Option.bind (insert_values_and_claim X fresh (encode_uuid X (ws_scope_id inp)) (encode_uuid X (ws_claim_id inp)) d
        (ws_values inp) (ws_now inp) db) (touch_scope (encode_uuid X (ws_scope_id inp)) (ws_now inp)) = Some db'"
    and u: "upd = length (filter (\<lambda>v. map_of (existing_lengths (encode_uuid X (ws_scope_id inp)) db) (vi_key v) \<noteq> None) (ws_values inp))"
      "ins = length (ws_values inp) - upd"
    by (auto simp: write_scope_tx_def Let_def commit_scope_def split: sum.splits option.splits if_splits)
  from l obtain s t where s: "s \<in> set (scopes db)" "sc_id s = encode_uuid X (ws_scope_id inp)"
      "decode_timestamp X (sc_created_at s) = Inr t" "r = record_of s t" by (rule load_scope_SomeD)
  from w s(2) obtain v cs ss where
    "insert_scope_values X fresh (sc_id s) (ws_values inp) (ws_now inp) (scopes db) (scope_values db) = Some v"
    "insert_claim (encode_uuid X (ws_claim_id inp)) (sc_id s) d (ws_now inp) (scopes db) (scope_claims db) = Some cs"
    "sql_update scopes_ok (\<lambda>r. sc_id r = sc_id s) (\<lambda>r. r\<lparr> sc_updated_at := encode_timestamp (ws_now inp) \<rparr>) (scopes db) = Some ss"
    "db' = \<lparr> scopes = ss, scope_values = v, scope_claims = cs \<rparr>"
    by (auto simp: insert_values_and_claim_def touch_scope_def split: Option.bind_splits)
  then show ?thesis using that s a u by (simp add: record_of_def)
qed

text \<open>A request is accepted by the pool when it is by the transaction, after validation.\<close>

lemma write_pool_AppliedD:
  assumes "write_tickr_ctx_scope X fresh inp (SqlitePool db) = (Inr (Applied ins upd), pool')"
  obtains d db' where "mutation_digest X (ws_scope_id inp) (ws_values inp) = Inr d" "validate_mutation X (ws_values inp) 0 0 = None"
    "write_scope_tx X fresh inp d db = (Inr (Applied ins upd), db')" "pool' = SqlitePool db'"
  using assms
  by (cases "mutation_digest X (ws_scope_id inp) (ws_values inp)"; cases "validate_mutation X (ws_values inp) 0 0")
    (auto simp: write_tickr_ctx_scope_def prod_eq_iff)

section \<open>The store as finite maps\<close>

text \<open>The abstract state of a scope: a finite map from keys to envelopes.\<close>

definition scope_map :: "'n externals \<Rightarrow> uuid \<Rightarrow> scope_db \<Rightarrow> (string \<rightharpoonup> bytes)" where
  "scope_map X i db = map_of (scope_entries (encode_uuid X i) (scope_values db))"

definition input_map :: "scope_value_input list \<Rightarrow> (string \<rightharpoonup> bytes)" where
  "input_map vs = map_of (map (\<lambda>v. (vi_key v, vi_envelope v)) vs)"

lemma map_of_rev_input:
  "distinct (map vi_key vs) \<Longrightarrow> map_of (rev (map (\<lambda>v. (vi_key v, vi_envelope v)) vs)) = input_map vs"
  unfolding input_map_def by (subst map_of_inject_set) (simp_all add: rev_map [symmetric] comp_def)

lemma delete_DeletedD:
  assumes "delete_scope_tx X inp d db = (Inr out, db')" and "out = Deleted \<or> out = MissingKey"
  shows "scope_values db' = filter (\<lambda>v. v_scope v = encode_uuid X (ds_scope_id inp) \<longrightarrow> v_key v \<noteq> ds_key inp) (scope_values db)"
    "out = Deleted \<longleftrightarrow> (\<exists>v \<in> set (scope_values db). v_scope v = encode_uuid X (ds_scope_id inp) \<and> v_key v = ds_key inp)"
  using assms
  by (auto simp: delete_scope_tx_def Let_def commit_scope_def touch_scope_def rows_affected_def filter_empty_conv comp_def
      split: sum.splits option.splits if_splits Option.bind_splits)

lemma map_of_filter_entries:
  "map_of (scope_entries i (filter (\<lambda>v. v_scope v = j \<longrightarrow> v_key v \<noteq> k) t)) =
     (if i = j then (map_of (scope_entries i t))(k := None) else map_of (scope_entries i t))"
  by (induction t) (auto simp: scope_entries_def fun_eq_iff)

lemma write_map_effect:
  assumes "scope_db_inv X db" and "mutation_digest X (ws_scope_id inp) (ws_values inp) = Inr d"
    and "write_scope_tx X fresh inp d db = (Inr (Applied ins upd), db')"
  shows "scope_map X (ws_scope_id inp) db' = scope_map X (ws_scope_id inp) db ++ input_map (ws_values inp)"
    "encode_uuid X j \<noteq> encode_uuid X (ws_scope_id inp) \<Longrightarrow> scope_map X j db' = scope_map X j db"
proof -
  let ?i = "encode_uuid X (ws_scope_id inp)" and ?vs = "ws_values inp"
  have dist: "distinct (map vi_key ?vs)" using mutation_digest_InrD [OF assms(2)] by blast
  from assms(3) obtain u where u: "insert_scope_values X fresh ?i ?vs (ws_now inp) (scopes db) (scope_values db) = Some u"
    and db': "scope_values db' = u" by (rule write_AppliedD) auto
  have eff: "scope_entries ?i u = put_values ?vs (scope_entries ?i (scope_values db))"
    "j \<noteq> ?i \<Longrightarrow> scope_entries j u = scope_entries j (scope_values db)" for j
    using insert_scope_values_effect [OF u] assms(1) by (simp_all add: scope_db_inv_def)
  show "scope_map X (ws_scope_id inp) db' = scope_map X (ws_scope_id inp) db ++ input_map (ws_values inp)"
    using eff(1) by (simp add: scope_map_def db' map_of_put_values map_of_rev_input [OF dist])
  show "encode_uuid X j \<noteq> ?i \<Longrightarrow> scope_map X j db' = scope_map X j db"
    using eff(2) by (simp add: scope_map_def db')
qed

text \<open>C25. Refinement of a write: an accepted write updates the map of its scope with the request, leaves
  every other scope alone, and counts as updated the keys that were there.\<close>

theorem write_refines_map:
  assumes "scope_db_inv X db" and "inj (uuid_text X)"
    and "write_tickr_ctx_scope X fresh inp (SqlitePool db) = (Inr (Applied ins upd), SqlitePool db')"
  shows "scope_map X (ws_scope_id inp) db' = scope_map X (ws_scope_id inp) db ++ input_map (ws_values inp)
    \<and> (\<forall>j. j \<noteq> ws_scope_id inp \<longrightarrow> scope_map X j db' = scope_map X j db)
    \<and> upd = card (dom (scope_map X (ws_scope_id inp) db) \<inter> dom (input_map (ws_values inp)))
    \<and> ins + upd = card (dom (input_map (ws_values inp)))"
proof -
  let ?i = "encode_uuid X (ws_scope_id inp)" and ?vs = "ws_values inp"
  from assms(3) obtain d where d: "mutation_digest X (ws_scope_id inp) ?vs = Inr d"
    and w: "write_scope_tx X fresh inp d db = (Inr (Applied ins upd), db')" by (rule write_pool_AppliedD) auto
  have dist: "distinct (map vi_key ?vs)" using mutation_digest_InrD [OF d] by blast
  from w have n: "upd = length (filter (\<lambda>v. map_of (existing_lengths ?i db) (vi_key v) \<noteq> None) ?vs)"
      "ins = length ?vs - upd"
    by (auto elim: write_AppliedD)
  have mo: "map_of (existing_lengths ?i db) k = map_option length (scope_map X (ws_scope_id inp) db k)" for k
    using map_of_map' [of length "scope_entries ?i (scope_values db)" k]
    by (simp add: existing_lengths_def value_rows_def scope_entries_def scope_map_def comp_def)
  have dom: "dom (input_map ?vs) = vi_key ` set ?vs"
    by (simp add: input_map_def dom_map_of_conv_image_fst image_comp comp_def)
  have cm: "card (vi_key ` set xs) = length xs" if "distinct (map vi_key xs)" for xs
    using distinct_card [OF that] by simp
  have "upd = card (vi_key ` set (filter (\<lambda>v. vi_key v \<in> dom (scope_map X (ws_scope_id inp) db)) ?vs))"
    using cm [OF distinct_map_filter' [OF dist]] by (simp add: n(1) mo domIff)
  moreover have "vi_key ` set (filter (\<lambda>v. vi_key v \<in> dom (scope_map X (ws_scope_id inp) db)) ?vs)
      = dom (scope_map X (ws_scope_id inp) db) \<inter> dom (input_map ?vs)" by (auto simp: dom)
  moreover have "card (dom (input_map ?vs)) = length ?vs" using cm [OF dist] by (simp add: dom)
  moreover have "upd \<le> length ?vs" by (simp add: n(1))
  ultimately show ?thesis
    using write_map_effect [OF assms(1) d w] by (auto simp: n(2) encode_uuid_def inj_eq [OF assms(2)])
qed

text \<open>C26. Refinement of a deletion: an accepted deletion removes the key from the map of its scope and
  from no other, and reports whether it was there.\<close>

theorem delete_refines_map:
  assumes "inj (uuid_text X)"
    and "delete_tickr_ctx_scope_value X inp (SqlitePool db) = (Inr out, SqlitePool db')" and "out = Deleted \<or> out = MissingKey"
  shows "scope_map X (ds_scope_id inp) db' = (scope_map X (ds_scope_id inp) db)(ds_key inp := None)
    \<and> (\<forall>j. j \<noteq> ds_scope_id inp \<longrightarrow> scope_map X j db' = scope_map X j db)
    \<and> (out = Deleted \<longleftrightarrow> ds_key inp \<in> dom (scope_map X (ds_scope_id inp) db))"
proof -
  from assms(2) obtain d where "delete_scope_tx X inp d db = (Inr out, db')"
    by (auto simp: delete_tickr_ctx_scope_value_def prod_eq_iff split: sum.splits)
  note D = delete_DeletedD [OF this assms(3)]
  have "ds_key inp \<in> dom (scope_map X (ds_scope_id inp) db) \<longleftrightarrow>
      (\<exists>v \<in> set (scope_values db). v_scope v = encode_uuid X (ds_scope_id inp) \<and> v_key v = ds_key inp)"
    by (auto simp: scope_map_def dom_map_of_conv_image_fst scope_entries_def image_iff)
  then show ?thesis
    using D by (auto simp: scope_map_def map_of_filter_entries encode_uuid_def inj_eq [OF assms(1)])
qed

section \<open>Reading back\<close>

text \<open>C27. A read of an open scope returns exactly the entries of its map, each key once and in ascending
  order, and everything it returns is within the limits and carries a known envelope version.\<close>

theorem read_returns_map:
  assumes "scope_db_inv X db" and "read_tickr_ctx_scope X i now (SqlitePool db) = (Inr (Present vs), pool')"
  shows "map_of (map (\<lambda>v. (sv_key v, sv_envelope v)) vs) = scope_map X i db
    \<and> sorted (map sv_key vs) \<and> distinct (map sv_key vs)
    \<and> length vs \<le> MAX_SCOPE_ROWS \<and> sum_list (map (length \<circ> sv_envelope) vs) \<le> MAX_SCOPE_BYTES
    \<and> (\<forall>v \<in> set vs. length (sv_envelope v) \<le> MAX_SCOPE_VALUE_BYTES \<and> validate_envelope X (sv_envelope v) = Inr ())"
proof -
  let ?al = "scope_entries (encode_uuid X i) (scope_values db)"
  have vs: "load_scope_values X (encode_uuid X i) db = Inr vs"
    using assms(2)
    by (auto simp: read_tickr_ctx_scope_def read_scope_tx_def Let_def commit_scope_def
        split: sum.splits option.splits if_splits)
  note e = load_scope_values_entries [OF vs]
  have "distinct (map fst ?al)"
  proof -
    have "distinct (map (\<lambda>v. (v_scope v, v_key v)) (filter (\<lambda>v. v_scope v = encode_uuid X i) (scope_values db)))"
      using scope_invD(5) [OF assms(1)] by (rule distinct_map_filter')
    then show ?thesis by (auto simp: scope_entries_def comp_def distinct_map inj_on_def)
  qed
  then have d: "distinct (map fst (sort_key fst ?al))" by (simp add: distinct_map inj_on_def)
  have k: "map sv_key vs = map fst (sort_key fst ?al)" using arg_cong [OF e, of "map fst"] by (simp add: comp_def)
  have "map_of (sort_key fst ?al) = map_of ?al"
    using d \<open>distinct (map fst ?al)\<close> by (subst map_of_inject_set) simp_all
  then show ?thesis
    using loaded_values [OF assms(1) vs] d by (simp add: e scope_map_def k)
qed

section \<open>Snapshots\<close>

lemma store_snapshot_Some:
  assumes "scope_db_inv X db"
  shows "\<exists>ss. store_snapshot i snap now db = Some (db\<lparr> scopes := ss \<rparr>)
    \<and> ss = update_where (\<lambda>s. sc_id s = i \<and> sc_state s = Active)
          (\<lambda>s. s\<lparr> sc_state := Snapshotted, sc_snapshot := Some (ss_bytes snap), sc_digest := Some (ss_digest snap),
                  sc_row_count := Some (int (ss_row_count snap)), sc_value_bytes := Some (int (ss_value_bytes snap)),
                  sc_snapshotted_at := Some (encode_timestamp now), sc_updated_at := encode_timestamp now \<rparr>) (scopes db)"
proof -
  have ok: "scopes_ok (scopes db)" using assms by (simp add: scope_db_inv_def)
  then have "\<forall>s \<in> set (scopes db). scope_check s" by (simp add: scopes_ok_def list_all_iff)
  then show ?thesis
    using ok by (simp add: store_snapshot_def sql_update_def Let_def scopes_ok_def map_update_where list_all_iff table_simps scope_check_def)
qed

lemma encode_snapshot_small:
  assumes "encode_snapshot vs = Some bs" and "length vs \<le> MAX_SCOPE_ROWS"
    and "\<forall>v \<in> set vs. valid_key (sv_key v) \<and> length (sv_envelope v) \<le> MAX_SCOPE_VALUE_BYTES"
  shows "length bs \<le> u64_max"
proof -
  let ?ks = "map (\<lambda>v. (as_bytes (sv_key v), sv_envelope v)) vs"
  have "length (laid_out (map (\<lambda>v. (as_bytes (sv_key v), sv_envelope v)) ws)) \<le> length ws * (8 + 512 + 1048576)"
    if "set ws \<subseteq> set vs" for ws
    using that assms(3)
  proof (induction ws)
    case (Cons w ws)
    then show ?case by (auto simp: laid_out_def valid_key_def scope_limits as_bytes_def)
  qed simp
  from this [of vs] show ?thesis
    using assms(1,2) by (auto simp: encode_snapshot_eq SNAPSHOT_MAGIC_def as_bytes_def scope_limits u64_max_def split: if_splits)
qed

text \<open>C24. The snapshot of an open scope contains what a read at that moment returns: its bytes decode to
  the same keys and envelopes.\<close>

theorem snapshot_contains_values:
  assumes "scope_db_inv X db" and "read_tickr_ctx_scope X i now (SqlitePool db) = (Inr (Present vs), pool')"
    and "\<forall>v \<in> set vs. utf8_valid (as_bytes (sv_key v))"
  shows "\<exists>snap. fst (snapshot_tickr_ctx_scope X i now (SqlitePool db)) = Inr (SnapCommitted snap)
    \<and> decode_tickr_ctx_scope_snapshot snap = Inr (map (\<lambda>v. (sv_key v, sv_envelope v)) vs)"
proof -
  note inv = assms(1)
  have rd: "fst (read_scope_tx X i now db) = Inr (Present vs)"
    using assms(2) by (auto simp: read_tickr_ctx_scope_def)
  then obtain s t where l: "load_scope X (encode_uuid X i) db = Inr (Some (record_of s t))" and s: "s \<in> set (scopes db)"
    by - (rule load_scope_cases [OF inv, of "encode_uuid X i"], auto simp: read_scope_tx_def)
  from rd have a: "sc_state s = Active" "age_bound t now = None" and vs: "load_scope_values X (encode_uuid X i) db = Inr vs"
    by (auto simp: read_scope_eq [OF inv l s] split: if_splits option.splits sum.splits)
  from loaded_values_ok(3) [OF inv vs] obtain bs where bs: "encode_snapshot vs = Some bs" by blast
  have "length bs \<le> u64_max"
    using loaded_values [OF inv vs] by (intro encode_snapshot_small [OF bs]) auto
  then have "decode_tickr_ctx_scope_snapshot (snapshot_of i vs bs) = Inr (map (\<lambda>v. (sv_key v, sv_envelope v)) vs)"
    using bs assms(3) by (intro decode_encode_snapshot)
  moreover obtain ss where "store_snapshot (encode_uuid X i) (snapshot_of i vs bs) now db = Some (db\<lparr> scopes := ss \<rparr>)"
    using store_snapshot_Some [OF inv] by blast
  ultimately show ?thesis
    using a vs bs by (auto simp: snapshot_tickr_ctx_scope_def snapshot_scope_eq [OF inv l s] Let_def commit_scope_def)
qed

text \<open>A row that holds a snapshot is what every later read and snapshot of its scope returns.\<close>

lemma archived_row_answers:
  assumes inv: "scope_db_inv X db" and s: "s \<in> set (scopes db)" "sc_id s = encode_uuid X i" "sc_state s \<noteq> Active"
    and t: "decode_timestamp X (sc_created_at s) = Inr t"
  shows "snapshot_tickr_ctx_scope X i now (SqlitePool db) = (Inr (SnapIdempotent (row_snapshot i s)), SqlitePool db)"
    "read_tickr_ctx_scope X i now (SqlitePool db) = (Inr (Archived (row_snapshot i s)), SqlitePool db)"
  using load_scope_in [OF inv s(1) t] s
  by (simp_all add: snapshot_tickr_ctx_scope_def read_tickr_ctx_scope_def snapshot_scope_eq [OF inv _ s(1)] read_scope_eq [OF inv _ s(1)])

lemma snapshot_taken:
  assumes inv: "scope_db_inv X db" and out: "fst (snapshot_scope_tx X i now db) = Inr out" "out = SnapCommitted snap \<or> out = SnapIdempotent snap"
  shows "\<exists>s \<in> set (scopes (snd (snapshot_scope_tx X i now db))). \<exists>t. sc_id s = encode_uuid X i \<and> sc_state s \<noteq> Active
    \<and> decode_timestamp X (sc_created_at s) = Inr t \<and> row_snapshot i s = snap"
proof -
  from out obtain s t where l: "load_scope X (encode_uuid X i) db = Inr (Some (record_of s t))" and s: "s \<in> set (scopes db)"
    and i: "sc_id s = encode_uuid X i" "decode_timestamp X (sc_created_at s) = Inr t"
    by - (rule load_scope_cases [OF inv, of "encode_uuid X i"], auto simp: snapshot_scope_tx_def)
  show ?thesis
  proof (cases "sc_state s = Active")
    case False
    then show ?thesis using out s i by (auto simp: snapshot_scope_eq [OF inv l s])
  next
    case True
    let ?f = "\<lambda>s. s\<lparr> sc_state := Snapshotted, sc_snapshot := Some (ss_bytes snap), sc_digest := Some (ss_digest snap),
                  sc_row_count := Some (int (ss_row_count snap)), sc_value_bytes := Some (int (ss_value_bytes snap)),
                  sc_snapshotted_at := Some (encode_timestamp now), sc_updated_at := encode_timestamp now \<rparr>"
    obtain ss where st: "store_snapshot (encode_uuid X i) snap now db = Some (db\<lparr> scopes := ss \<rparr>)"
      and ss: "ss = update_where (\<lambda>s. sc_id s = encode_uuid X i \<and> sc_state s = Active) ?f (scopes db)"
      using store_snapshot_Some [OF inv] by blast
    from out True obtain vs where sn: "snap = snapshot_of i vs (the (encode_snapshot vs))"
      and tx: "snapshot_scope_tx X i now db = commit_scope db (SnapCommitted snap) (store_snapshot (encode_uuid X i) snap now db)"
      by (auto simp: snapshot_scope_eq [OF inv l s] commit_scope_def Let_def split: option.splits sum.splits)
    have "snd (snapshot_scope_tx X i now db) = db\<lparr> scopes := ss \<rparr>" by (simp add: tx st commit_scope_def)
    moreover have id: "ss_scope_id snap = i" by (simp add: sn snapshot_of_def)
    moreover have "?f s \<in> set ss"
      using update_where_in [OF s, of "\<lambda>s. sc_id s = encode_uuid X i \<and> sc_state s = Active" ?f] True i by (simp add: ss)
    ultimately show ?thesis using i id by (auto simp: row_snapshot_def intro!: bexI [of _ "?f s"])
  qed
qed

text \<open>C13. A snapshot is final: once it was taken, every later read and every later snapshot of the scope
  returns it unchanged, whatever operations run in between, cleaning up included.\<close>

theorem snapshot_is_final:
  assumes "scope_inv X pool" and "snapshot_tickr_ctx_scope X i now pool = (Inr out, pool')"
    and "out = SnapCommitted snap \<or> out = SnapIdempotent snap"
  shows "fst (snapshot_tickr_ctx_scope X i now' (run_scope X ops pool')) = Inr (SnapIdempotent snap)
    \<and> fst (read_tickr_ctx_scope X i now' (run_scope X ops pool')) = Inr (Archived snap)"
proof -
  from assms(2,3) obtain db where [simp]: "pool = SqlitePool db"
    by (cases pool) (auto simp: snapshot_tickr_ctx_scope_def)
  let ?db1 = "snd (snapshot_scope_tx X i now db)"
  have inv: "scope_db_inv X db" using assms(1) by (simp add: scope_inv_def)
  have out: "fst (snapshot_scope_tx X i now db) = Inr out" and pool': "pool' = SqlitePool ?db1"
    using assms(2) by (simp_all add: snapshot_tickr_ctx_scope_def)
  from snapshot_taken [OF inv out assms(3)] obtain s t where s: "s \<in> set (scopes ?db1)" "sc_id s = encode_uuid X i"
    "sc_state s \<noteq> Active" "decode_timestamp X (sc_created_at s) = Inr t" "row_snapshot i s = snap" by blast
  have inv1: "scope_db_inv X ?db1" using snapshot_scope_step [OF inv] by (simp add: scope_step_ok_def)
  then obtain db2 where db2: "run_scope X ops pool' = SqlitePool db2" "scope_db_inv X db2" "scope_db_le ?db1 db2"
    unfolding pool' by (rule run_scope_sqlite)
  from db2(3) s(1) obtain r where r: "r \<in> set (scopes db2)" "scope_row_le s r" by (auto simp: scope_db_le_def rows_le_def)
  have "sc_snapshot s \<noteq> None" using archived_has_snapshot [OF inv1 s(1,3)] by (auto simp: has_snapshot_def)
  with r(2) s have r': "sc_id r = encode_uuid X i" "decode_timestamp X (sc_created_at r) = Inr t" "row_snapshot i r = snap" "sc_state r \<noteq> Active"
    by (cases "sc_state s"; auto simp: scope_row_le_def row_snapshot_def)+
  show ?thesis using archived_row_answers [OF db2(2) r(1) r'(1,4,2)] r'(3) db2(1) by simp
qed

section \<open>Invariant along every run\<close>


end
