(* ===== verification/Scope_Contracts.thy ===== *)
theory Scope_Contracts
  imports Scope_Properties
begin

text \<open>
  Further promises of the scope store: a write applies once per claim, a run has one scope, and what
  the request digests do not tell apart. The second half exhibits concrete stores and requests on
  which the theorems of this theory and of \<open>Scope_Properties\<close> apply.
\<close>

section \<open>A write applies once\<close>

lemma claim_after_write:
  assumes inv: "scope_db_inv X db" and w: "write_scope_tx X fresh inp d db = (Inr (Applied ins upd), db')"
  obtains s t c where "s \<in> set (scopes db')" "sc_id s = encode_uuid X (ws_scope_id inp)" "decode_timestamp X (sc_created_at s) = Inr t"
    "c \<in> set (scope_claims db')" "cl_id c = encode_uuid X (ws_claim_id inp)" "cl_scope c = sc_id s" "cl_digest c = d"
  using w
proof (rule write_AppliedD)
  fix s t u cs ss assume s: "s \<in> set (scopes db)" "sc_id s = encode_uuid X (ws_scope_id inp)" "decode_timestamp X (sc_created_at s) = Inr t"
    and c: "insert_claim (encode_uuid X (ws_claim_id inp)) (sc_id s) d (ws_now inp) (scopes db) (scope_claims db) = Some cs"
    and ss: "sql_update scopes_ok (\<lambda>r. sc_id r = sc_id s) (\<lambda>r. r\<lparr> sc_updated_at := encode_timestamp (ws_now inp) \<rparr>) (scopes db) = Some ss"
    and db': "db' = \<lparr> scopes = ss, scope_values = u, scope_claims = cs \<rparr>"
  let ?s = "s\<lparr> sc_updated_at := encode_timestamp (ws_now inp) \<rparr>"
  have "?s \<in> set ss"
    using update_where_in [OF s(1), of "\<lambda>r. sc_id r = sc_id s" "\<lambda>r. r\<lparr> sc_updated_at := encode_timestamp (ws_now inp) \<rparr>"] ss
    by (simp add: sql_update_Some)
  with s c show thesis
    by (intro that [of ?s t "\<lparr> cl_id = encode_uuid X (ws_claim_id inp), cl_scope = sc_id s, cl_digest = d,
          cl_committed_at = encode_timestamp (ws_now inp) \<rparr>"]) (auto simp: db' insert_claim_def sql_insert_Some)
qed

lemma write_with_claim:
  assumes inv: "scope_db_inv X db" and s: "s \<in> set (scopes db)" "sc_id s = encode_uuid X (ws_scope_id inp)"
      "decode_timestamp X (sc_created_at s) = Inr t"
    and c: "c \<in> set (scope_claims db)" "cl_id c = encode_uuid X (ws_claim_id inp)" "cl_scope c = sc_id s" "cl_digest c = d"
  shows "write_scope_tx X fresh inp d db = (Inr WriteIdempotent, db)"
proof -
  have "find (\<lambda>r. cl_id r = encode_uuid X (ws_claim_id inp)) (scope_claims db) = Some c"
    using c scope_invD(4) [OF inv] by (subst find_Some_iff_key [where k = cl_id]) auto
  then show ?thesis
    using load_scope_in [OF inv s(1,3)] scope_invD(7) [OF inv s(1)] s c
    by (simp add: write_scope_tx_def Let_def record_of_def)
qed

lemma write_cleaned:
  assumes inv: "scope_db_inv X db" and s: "s \<in> set (scopes db)" "sc_id s = encode_uuid X (ws_scope_id inp)"
      "decode_timestamp X (sc_created_at s) = Inr t" "sc_state s = Cleaned"
  shows "write_scope_tx X fresh inp d db \<in> {(Inr (WriteNotWritable Cleaned), db), (Inr WriteClaimConflict, db)}"
proof -
  have "cl_scope c \<noteq> encode_uuid X (ws_scope_id inp)" if "c \<in> set (scope_claims db)" for c
    using scope_invD(6) [OF inv s(1)] s that by (auto simp: scope_good_def)
  then show ?thesis
    using load_scope_in [OF inv s(1,3)] s
    by (auto simp: write_scope_tx_def Let_def record_of_def split: option.split dest: find_SomeD)
qed

lemma write_pool_success:
  assumes "write_tickr_ctx_scope X fresh inp pool = (Inr out, pool')" and "out = Applied ins upd \<or> out = WriteIdempotent"
  obtains d db db' where "pool = SqlitePool db" "mutation_digest X (ws_scope_id inp) (ws_values inp) = Inr d"
    "validate_mutation X (ws_values inp) 0 0 = None" "write_scope_tx X fresh inp d db = (Inr out, db')" "pool' = SqlitePool db'"
  using assms
  by (cases pool) (auto simp: write_tickr_ctx_scope_def prod_eq_iff split: sum.splits option.splits prod.splits)

lemma claim_after_success:
  assumes inv: "scope_db_inv X db" and w: "write_scope_tx X fresh inp d db = (Inr out, db')"
    and out: "out = Applied ins upd \<or> out = WriteIdempotent"
  shows "\<exists>s t c. s \<in> set (scopes db') \<and> sc_id s = encode_uuid X (ws_scope_id inp) \<and> decode_timestamp X (sc_created_at s) = Inr t
    \<and> c \<in> set (scope_claims db') \<and> cl_id c = encode_uuid X (ws_claim_id inp) \<and> cl_scope c = sc_id s \<and> cl_digest c = d"
proof (cases "out = WriteIdempotent")
  case True
  from w obtain r where l: "load_scope X (encode_uuid X (ws_scope_id inp)) db = Inr (Some r)"
    by (cases "load_scope X (encode_uuid X (ws_scope_id inp)) db") (auto simp: True write_scope_tx_def Let_def split: option.splits)
  with w True obtain c where c: "find (\<lambda>c. cl_id c = encode_uuid X (ws_claim_id inp)) (scope_claims db) = Some c"
      "cl_scope c = encode_uuid X (ws_scope_id inp)" "cl_digest c = d" and "db' = db"
    by (auto simp: write_scope_tx_def Let_def commit_scope_def split: option.splits if_splits)
  from l obtain s t where "s \<in> set (scopes db)" "sc_id s = encode_uuid X (ws_scope_id inp)" "decode_timestamp X (sc_created_at s) = Inr t"
    by (rule load_scope_SomeD)
  with c \<open>db' = db\<close> show ?thesis by (fastforce dest: find_SomeD)
next
  case False
  with w out have "write_scope_tx X fresh inp d db = (Inr (Applied ins upd), db')" by simp
  from inv this show ?thesis by (rule claim_after_write) blast
qed

text \<open>After a write under a claim, and whatever ran since, the same request changes nothing.\<close>

lemma write_later:
  assumes "scope_inv X pool" and "write_tickr_ctx_scope X fresh inp pool = (Inr wout, pool')"
    and "wout = Applied ins upd \<or> wout = WriteIdempotent"
  shows "\<exists>out. write_tickr_ctx_scope X fresh' (inp\<lparr> ws_now := now' \<rparr>) (run_scope X ops pool') = (Inr out, run_scope X ops pool')
    \<and> (out = WriteIdempotent
       \<or> fst (cleanup_tickr_ctx_scope X (ws_scope_id inp) now' (run_scope X ops pool')) = Inr AlreadyCleaned
         \<and> out \<in> {WriteNotWritable Cleaned, WriteClaimConflict})"
proof -
  let ?inp = "inp\<lparr> ws_now := now' \<rparr>" and ?i = "encode_uuid X (ws_scope_id inp)"
  from assms(2,3) obtain d db db1 where pool: "pool = SqlitePool db" and d: "mutation_digest X (ws_scope_id inp) (ws_values inp) = Inr d"
    "validate_mutation X (ws_values inp) 0 0 = None" and w: "write_scope_tx X fresh inp d db = (Inr wout, db1)"
    and pool': "pool' = SqlitePool db1" by (rule write_pool_success)
  have inv: "scope_db_inv X db" using assms(1) by (simp add: scope_inv_def pool)
  have inv1: "scope_db_inv X db1"
    using write_scope_step [OF inv validated_request(1) [OF d(1)], of fresh d] d(2) w by (simp add: scope_step_ok_def)
  from claim_after_success [OF inv w assms(3)] obtain s t c where s: "s \<in> set (scopes db1)" "sc_id s = ?i" "decode_timestamp X (sc_created_at s) = Inr t"
    and c: "c \<in> set (scope_claims db1)" "cl_id c = encode_uuid X (ws_claim_id inp)" "cl_scope c = sc_id s" "cl_digest c = d" by blast
  from inv1 obtain db2 where db2: "run_scope X ops pool' = SqlitePool db2" "scope_db_inv X db2" "scope_db_le db1 db2"
    unfolding pool' by (rule run_scope_sqlite)
  from db2(3) s(1) obtain r where r: "r \<in> set (scopes db2)" "scope_row_le s r" by (auto simp: scope_db_le_def rows_le_def)
  then have r': "sc_id r = ?i" "decode_timestamp X (sc_created_at r) = Inr t" using s by (simp_all add: scope_row_le_def)
  have eq: "write_tickr_ctx_scope X fresh' ?inp (SqlitePool db2) =
      (let (a, b) = write_scope_tx X fresh' ?inp d db2 in (a, SqlitePool b))"
    using d by (simp add: write_tickr_ctx_scope_def split: prod.split)
  from db2(3) c(1) consider "c \<in> set (scope_claims db2)" | r0 where "r0 \<in> set (scopes db2)" "sc_id r0 = ?i" "sc_state r0 = Cleaned"
    using c(3) s(2) by (auto simp: scope_db_le_def claims_le_def)
  then show ?thesis
  proof cases
    case 1
    then have "write_scope_tx X fresh' ?inp d db2 = (Inr WriteIdempotent, db2)"
      using r' c s by (intro write_with_claim [OF db2(2) r(1), of _ t c]) simp_all
    then show ?thesis by (simp add: db2(1) eq)
  next
    case 2
    then have cl: "sc_state r = Cleaned"
      using distinct_map_inj [OF scope_invD(1) [OF db2(2)] r(1) 2(1)] r' by simp
    then have "write_scope_tx X fresh' ?inp d db2 \<in> {(Inr (WriteNotWritable Cleaned), db2), (Inr WriteClaimConflict, db2)}"
      using r' by (intro write_cleaned [OF db2(2) r(1)]) simp_all
    moreover have "fst (cleanup_tickr_ctx_scope X (ws_scope_id inp) now' (SqlitePool db2)) = Inr AlreadyCleaned"
      using load_scope_in [OF db2(2) r(1) r'(2)] r' cl
      by (simp add: cleanup_tickr_ctx_scope_def cleanup_scope_eq [OF db2(2) _ r(1)])
    ultimately show ?thesis by (auto simp: db2(1) eq)
  qed
qed

text \<open>C7. A write applies at most once: after it was applied, and whatever ran since, the same request under
  the same claim changes nothing. It is answered \<open>Idempotent\<close>, unless the scope was cleaned up,
  when it is refused.\<close>

theorem write_applies_once:
  assumes "scope_inv X pool" and "write_tickr_ctx_scope X fresh inp pool = (Inr (Applied ins upd), pool')"
  shows "\<exists>out. write_tickr_ctx_scope X fresh' (inp\<lparr> ws_now := now' \<rparr>) (run_scope X ops pool') = (Inr out, run_scope X ops pool')
    \<and> (out = WriteIdempotent
       \<or> fst (cleanup_tickr_ctx_scope X (ws_scope_id inp) now' (run_scope X ops pool')) = Inr AlreadyCleaned
         \<and> out \<in> {WriteNotWritable Cleaned, WriteClaimConflict})"
  using write_later [OF assms] by simp

section \<open>One scope per run\<close>

lemma create_CreatedD:
  assumes "create_tickr_ctx_scope X fresh inp (SqlitePool db) = (Inr Created, pool')"
  obtains d db' where "validate_scope_identity (cs_namespace inp) (cs_run_id inp) = Inr ()"
    "create_scope_tx X fresh inp d db = (Inr Created, db')" "pool' = SqlitePool db'"
  using assms
  by (auto simp: create_tickr_ctx_scope_def prod_eq_iff split: sum.splits option.splits if_splits)

lemma create_tx_Created:
  assumes "create_scope_tx X fresh inp d db = (Inr Created, db')"
  shows "\<exists>s \<in> set (scopes db'). sc_id s = encode_uuid X (cs_scope_id inp) \<and> sc_namespace s = cs_namespace inp \<and> sc_run_id s = cs_run_id inp"
  using assms
  by (auto simp: create_scope_tx_def Let_def commit_scope_def insert_values_and_claim_def sql_insert_Some
      split: option.splits if_splits Option.bind_splits)

text \<open>C28. A run keeps the scope it was created with: no later creation for the same namespace and run makes
  another one (a collision names the existing scope), and the snapshot for the run is the snapshot
  of that scope. The identifiers parse back (\<open>uuid\<close>).\<close>

theorem run_has_one_scope:
  assumes "scope_inv X pool" and "create_tickr_ctx_scope X fresh inp pool = (Inr Created, pool')"
    and "\<forall>u. parse_uuid X (uuid_text X u) = Some u"
    and "later = run_scope X ops pool'"
  shows "(\<forall>fresh' inp' out. cs_namespace inp' = cs_namespace inp \<longrightarrow> cs_run_id inp' = cs_run_id inp \<longrightarrow>
            fst (create_tickr_ctx_scope X fresh' inp' later) = Inr out \<longrightarrow>
            out \<noteq> Created \<and> snd (create_tickr_ctx_scope X fresh' inp' later) = later
            \<and> (\<forall>j. out = Collision j \<longrightarrow> j = cs_scope_id inp))
    \<and> snapshot_tickr_ctx_scope_for_run X (cs_namespace inp) (cs_run_id inp) now later
        = snapshot_tickr_ctx_scope X (cs_scope_id inp) now later"
proof -
  have "pool \<noteq> PostgresPool"
    using assms(2) by (auto simp: create_tickr_ctx_scope_def split: sum.splits option.splits if_splits)
  then obtain db where [simp]: "pool = SqlitePool db" by (cases pool) auto
  from assms(2) obtain d db1 where v: "validate_scope_identity (cs_namespace inp) (cs_run_id inp) = Inr ()"
    and c: "create_scope_tx X fresh inp d db = (Inr Created, db1)" and pool': "pool' = SqlitePool db1" by (auto elim: create_CreatedD)
  have "pool' = exec_scope X (CreateScope fresh inp) pool" using assms(2) by simp
  then have "scope_inv X pool'" using assms(1) scope.exec_inv by metis
  then have "scope_db_inv X db1" by (simp add: pool' scope_inv_def)
  then obtain db2 where later: "later = SqlitePool db2" and inv: "scope_db_inv X db2" and le: "scope_db_le db1 db2"
    unfolding assms(4) pool' by (rule run_scope_sqlite)
  from create_tx_Created [OF c] le obtain s where s: "s \<in> set (scopes db2)" "sc_id s = encode_uuid X (cs_scope_id inp)"
    "sc_namespace s = cs_namespace inp" "sc_run_id s = cs_run_id inp"
    by (fastforce simp: scope_db_le_def rows_le_def scope_row_le_def)
  have f: "find (\<lambda>r. sc_namespace r = cs_namespace inp \<and> sc_run_id r = cs_run_id inp) (scopes db2) = Some s"
    using s scope_invD(3) [OF inv] by (subst find_Some_iff_key [where k = "\<lambda>s. (sc_namespace s, sc_run_id s)"]) auto
  have p: "parse_uuid X (sc_id s) = Some (cs_scope_id inp)" using assms(3) s(2) by (simp add: encode_uuid_def)
  have "out \<noteq> Created \<and> snd (create_tickr_ctx_scope X fresh' inp' later) = later \<and> (\<forall>j. out = Collision j \<longrightarrow> j = cs_scope_id inp)"
    if same: "cs_namespace inp' = cs_namespace inp" "cs_run_id inp' = cs_run_id inp"
      and out: "fst (create_tickr_ctx_scope X fresh' inp' later) = Inr out" for fresh' inp' out
  proof -
    have tx: "create_scope_tx X fresh' inp' d' db2 \<in>
        {(Inr CreateIdempotent, db2), (Inr CreateClaimConflict, db2), (Inr (Collision (cs_scope_id inp)), db2)}" for d'
      using f p same by (simp add: create_scope_tx_def Let_def split: option.split)
    show ?thesis
    proof (cases "mutation_digest X (cs_scope_id inp') (cs_values inp')")
      case (Inr d')
      show ?thesis
        using out tx [of d'] Inr v same unfolding later create_tickr_ctx_scope_def
        by (cases "validate_mutation X (cs_values inp') 0 0") (auto split: if_splits)
    qed (use out v same in \<open>simp add: create_tickr_ctx_scope_def\<close>)
  qed
  moreover have "snapshot_tickr_ctx_scope_for_run X (cs_namespace inp) (cs_run_id inp) now later
      = snapshot_tickr_ctx_scope X (cs_scope_id inp) now later"
    using f p v by (simp add: snapshot_tickr_ctx_scope_for_run_def later)
  ultimately show ?thesis by blast
qed

section \<open>What the request digest does not distinguish\<close>

lemma delete_digest_is_write_digest:
  "valid_key k \<Longrightarrow> delete_digest X i k = mutation_digest X i [\<lparr> vi_key = ''delete'', vi_envelope = as_bytes k \<rparr>]"
  by (simp add: delete_digest_def mutation_digest_def valid_key_def MAX_KEY_BYTES_def)

text \<open>C29. A deletion has the request digest of a write of the one key \<open>delete\<close> whose envelope is the deleted
  key. So after such a write, a deletion under the same claim is not refused as another request: it
  is answered \<open>Idempotent\<close> and deletes nothing.\<close>

theorem delete_taken_for_write:
  assumes "scope_inv X pool" and "valid_key k"
    and "write_tickr_ctx_scope X fresh \<lparr> ws_scope_id = i, ws_claim_id = c,
           ws_values = [\<lparr> vi_key = ''delete'', vi_envelope = as_bytes k \<rparr>], ws_now = now \<rparr> pool = (Inr (Applied ins upd), pool')"
  shows "delete_tickr_ctx_scope_value X \<lparr> ds_scope_id = i, ds_claim_id = c, ds_key = k, ds_now = now' \<rparr> pool'
    = (Inr DeleteIdempotent, pool')"
proof -
  let ?inp = "\<lparr> ws_scope_id = i, ws_claim_id = c, ws_values = [\<lparr> vi_key = ''delete'', vi_envelope = as_bytes k \<rparr>], ws_now = now \<rparr>"
  have "pool \<noteq> PostgresPool"
    using assms(3) by (auto simp: write_tickr_ctx_scope_def split: sum.splits option.splits)
  then obtain db where [simp]: "pool = SqlitePool db" by (cases pool) auto
  from assms(3) obtain d db1 where d: "mutation_digest X i (ws_values ?inp) = Inr d" "validate_mutation X (ws_values ?inp) 0 0 = None"
    and w: "write_scope_tx X fresh ?inp d db = (Inr (Applied ins upd), db1)" and pool': "pool' = SqlitePool db1"
    by (auto elim: write_pool_AppliedD)
  have inv: "scope_db_inv X db" using assms(1) by (simp add: scope_inv_def)
  have inv1: "scope_db_inv X db1"
    using write_scope_step [OF inv, of ?inp fresh d] validated_request(1) [OF d(1)] d(2) w by (simp add: scope_step_ok_def)
  from inv w obtain s t cl where s: "s \<in> set (scopes db1)" "sc_id s = encode_uuid X i" "decode_timestamp X (sc_created_at s) = Inr t"
    and cl: "cl \<in> set (scope_claims db1)" "cl_id cl = encode_uuid X c" "cl_scope cl = sc_id s" "cl_digest cl = d"
    by (rule claim_after_write) simp
  have "find (\<lambda>r. cl_id r = encode_uuid X c) (scope_claims db1) = Some cl"
    using cl scope_invD(4) [OF inv1] by (subst find_Some_iff_key [where k = cl_id]) auto
  then have "delete_scope_tx X \<lparr> ds_scope_id = i, ds_claim_id = c, ds_key = k, ds_now = now' \<rparr> d db1 = (Inr DeleteIdempotent, db1)"
    using load_scope_in [OF inv1 s(1,3)] scope_invD(7) [OF inv1 s(1)] s cl
    by (simp add: delete_scope_tx_def Let_def record_of_def)
  then show ?thesis
    using d(1) delete_digest_is_write_digest [OF assms(2), of X i] by (simp add: delete_tickr_ctx_scope_value_def pool')
qed

end
