(* ===== verification/Event_Captures.thy ===== *)
theory Event_Captures
  imports Scope_Contracts
begin

text \<open>
  The conductor's writer of event captures (\<^verbatim>\<open>src/src/conductor/src/scope_working_set.rs\<close>), a client of
  the trait \<open>ScopeStore\<close>. The trait is the locale \<open>scope_store\<close>: the two operations the writer
  calls and what it relies on. The scope repository interprets it. The operations take the clock and
  the random identifiers of a call as arguments.
\<close>

section \<open>Keys\<close>

text \<open>A \<open>char\<close> of the model is one byte of the UTF-8 text: the bytes that continue a character carry no
  character of their own.\<close>

definition legal_segment_char :: "char \<Rightarrow> bool" where
  "legal_segment_char c \<longleftrightarrow>
     (CHR ''A'' \<le> c \<and> c \<le> CHR ''Z'') \<or> (CHR ''a'' \<le> c \<and> c \<le> CHR ''z'') \<or> (CHR ''0'' \<le> c \<and> c \<le> CHR ''9'')
     \<or> c \<in> {CHR ''_'', CHR ''='', CHR ''.'', CHR ''-''}"

definition sanitize_segment :: "string \<Rightarrow> string" where
  "sanitize_segment s =
     concat (map (\<lambda>c. if legal_segment_char c then [c] else if utf8_cont (of_nat (of_char c)) then [] else ''_'') s)"

lemma sanitize_segment_legal: "c \<in> set (sanitize_segment s) \<Longrightarrow> legal_segment_char c"
  by (auto simp: sanitize_segment_def legal_segment_char_def split: if_splits)

lemma sanitize_segment_id: "\<forall>c \<in> set s. legal_segment_char c \<Longrightarrow> sanitize_segment s = s"
  by (induction s) (auto simp: sanitize_segment_def)

section \<open>write\_event\_captures\<close>

record 'e named_envelope =
  ne_name :: string
  ne_envelope :: 'e

text \<open>\<open>serde_json::to_vec\<close>, the \<open>sha2\<close> hash and \<open>Uuid::new_v5\<close>.\<close>

record 'e capture_externals =
  envelope_to_vec :: "'e \<Rightarrow> string + bytes"
  sha2_digest :: "bytes \<Rightarrow> bytes"
  new_v5 :: "uuid \<Rightarrow> bytes \<Rightarrow> uuid"

datatype 'err capture_error =
    SerializeEnvelope string
  | CreateScopeFailed 'err
  | CreateScopeOutcome scope_creation_outcome
  | WriteCapturesFailed 'err
  | WriteCapturesOutcome scope_write_outcome

definition capture_claim_id :: "'e capture_externals \<Rightarrow> uuid \<Rightarrow> string list \<Rightarrow> uuid" where
  "capture_claim_id C owner keys =
     new_v5 C owner (sha2_digest C (as_bytes ''tickr-scope-event-capture-v1'' @ [0]
       @ concat (map (\<lambda>k. u64_to_be_bytes (of_nat (length k)) @ as_bytes k) keys)))"

definition capture_value :: "'e capture_externals \<Rightarrow> string \<Rightarrow> 'e named_envelope \<Rightarrow> 'err capture_error + scope_value_input" where
  "capture_value C owner c =
     (case envelope_to_vec C (ne_envelope c) of
        Inl e \<Rightarrow> Inl (SerializeEnvelope e)
      | Inr bs \<Rightarrow> Inr \<lparr> vi_key = owner @ ''/'' @ sanitize_segment (ne_name c), vi_envelope = bs \<rparr>)"

definition write_event_captures ::
  "('f \<Rightarrow> create_scope_input \<Rightarrow> 's \<Rightarrow> ('err, scope_creation_outcome, 's) outcome)
   \<Rightarrow> ('f \<Rightarrow> write_scope_input \<Rightarrow> 's \<Rightarrow> ('err, scope_write_outcome, 's) outcome)
   \<Rightarrow> 'e capture_externals \<Rightarrow> 'f \<Rightarrow> datetime \<Rightarrow> string \<Rightarrow> uuid \<Rightarrow> string \<Rightarrow> uuid \<Rightarrow> 'e named_envelope list
   \<Rightarrow> 's \<Rightarrow> ('err capture_error, unit, 's) outcome" where
  "write_event_captures create_op write_op C f now namespace scope_id run_id operation_owner captures s =
     (if captures = [] then (Inr (), s)
      else (case collect_results (capture_value C (sanitize_segment run_id)) captures of
        Inl e \<Rightarrow> (Inl e, s)
      | Inr vals \<Rightarrow>
          let inputs = sort_key vi_key vals;
              claim_id = capture_claim_id C operation_owner (map vi_key inputs) in
          (case create_op f \<lparr> cs_scope_id = scope_id, cs_namespace = namespace, cs_run_id = run_id, cs_claim_id = claim_id,
                           cs_values = inputs, cs_now = now \<rparr> s of
             (Inl e, s) \<Rightarrow> (Inl (CreateScopeFailed e), s)
           | (Inr out, s) \<Rightarrow>
               if out = Created \<or> out = CreateIdempotent then (Inr (), s)
               else if out = Collision scope_id
               then (case write_op f \<lparr> ws_scope_id = scope_id, ws_claim_id = claim_id, ws_values = inputs, ws_now = now \<rparr> s of
                  (Inl e, s) \<Rightarrow> (Inl (WriteCapturesFailed e), s)
                | (Inr w, s) \<Rightarrow>
                    (case w of
                       Applied _ _ \<Rightarrow> (Inr (), s)
                     | WriteIdempotent \<Rightarrow> (Inr (), s)
                     | _ \<Rightarrow> (Inl (WriteCapturesOutcome w), s)))
               else (Inl (CreateScopeOutcome out), s))))"

section \<open>The ScopeStore contract\<close>

locale scope_store =
  fixes create_op :: "'f \<Rightarrow> create_scope_input \<Rightarrow> 's \<Rightarrow> ('err, scope_creation_outcome, 's) outcome"
    and write_op :: "'f \<Rightarrow> write_scope_input \<Rightarrow> 's \<Rightarrow> ('err, scope_write_outcome, 's) outcome"
    and inv :: "'s \<Rightarrow> bool"
    and entries :: "uuid \<Rightarrow> 's \<Rightarrow> (string \<rightharpoonup> bytes)"
  assumes create_keeps: "inv s \<Longrightarrow> create_op f c s = (r, s') \<Longrightarrow> r \<noteq> Inr Created \<Longrightarrow> s' = s"
    and create_stores: "inv s \<Longrightarrow> create_op f c s = (Inr Created, s') \<Longrightarrow> entries (cs_scope_id c) s' = input_map (cs_values c)"
    and create_again: "inv s \<Longrightarrow> create_op f c s = (Inr out, s') \<Longrightarrow> out = Created \<or> out = CreateIdempotent
      \<Longrightarrow> create_op f' (c\<lparr> cs_now := now \<rparr>) s' = (Inr CreateIdempotent, s')"
    and collision_again: "inv s \<Longrightarrow> create_op f c s = (Inr (Collision j), s) \<Longrightarrow> write_op g w s = (Inr (Applied m n), s')
      \<Longrightarrow> create_op f' (c\<lparr> cs_now := now \<rparr>) s' = (Inr (Collision j), s')"
    and collision_still: "inv s \<Longrightarrow> create_op f c s = (Inr (Collision j), s) \<Longrightarrow> create_op f' (c\<lparr> cs_now := now \<rparr>) s = (Inr (Collision j), s)"
    and write_keeps: "inv s \<Longrightarrow> write_op f w s = (q, s') \<Longrightarrow> (\<And>m n. q \<noteq> Inr (Applied m n)) \<Longrightarrow> s' = s"
    and write_stores: "inv s \<Longrightarrow> write_op f w s = (Inr (Applied m n), s') \<Longrightarrow>
      entries (ws_scope_id w) s' = entries (ws_scope_id w) s ++ input_map (ws_values w)"
    and write_again: "inv s \<Longrightarrow> write_op f w s = (Inr wout, s') \<Longrightarrow> wout = Applied m n \<or> wout = WriteIdempotent
      \<Longrightarrow> write_op f' (w\<lparr> ws_now := now \<rparr>) s' = (Inr WriteIdempotent, s')"
begin

text \<open>The ways in which the writer succeeds.\<close>

lemma captures_Inr_cases:
  assumes "inv s" and "write_event_captures create_op write_op C f now ns i run owner captures s = (Inr (), s')" and "captures \<noteq> []"
  obtains vals c w where "collect_results (capture_value C (sanitize_segment run) :: _ \<Rightarrow> 'err capture_error + _) captures = Inr vals"
    "c = \<lparr> cs_scope_id = i, cs_namespace = ns, cs_run_id = run,
           cs_claim_id = capture_claim_id C owner (map vi_key (sort_key vi_key vals)), cs_values = sort_key vi_key vals, cs_now = now \<rparr>"
    "w = \<lparr> ws_scope_id = i, ws_claim_id = cs_claim_id c, ws_values = cs_values c, ws_now = now \<rparr>"
    "create_op f c s = (Inr Created, s') \<or> (create_op f c s = (Inr CreateIdempotent, s') \<and> s' = s)
     \<or> (create_op f c s = (Inr (Collision i), s) \<and> (\<exists>out. write_op f w s = (Inr out, s') \<and> (out = WriteIdempotent \<and> s' = s \<or> (\<exists>m n. out = Applied m n))))"
proof -
  from assms(2,3) obtain vals where v: "collect_results (capture_value C (sanitize_segment run) :: _ \<Rightarrow> 'err capture_error + _) captures = Inr vals"
    by (auto simp: write_event_captures_def split: sum.splits)
  let ?c = "\<lparr> cs_scope_id = i, cs_namespace = ns, cs_run_id = run,
     cs_claim_id = capture_claim_id C owner (map vi_key (sort_key vi_key vals)), cs_values = sort_key vi_key vals, cs_now = now \<rparr>"
  let ?w = "\<lparr> ws_scope_id = i, ws_claim_id = cs_claim_id ?c, ws_values = cs_values ?c, ws_now = now \<rparr>"
  obtain r s1 where c: "create_op f ?c s = (r, s1)" by (cases "create_op f ?c s")
  from assms(2,3) v c consider "r = Inr Created" "s' = s1" | "r = Inr CreateIdempotent" "s' = s1"
    | out where "r = Inr (Collision i)" "write_op f ?w s1 = (Inr out, s')" "out = WriteIdempotent \<or> (\<exists>m n. out = Applied m n)"
    by (auto simp: write_event_captures_def Let_def split: sum.splits if_splits prod.splits scope_write_outcome.splits)
  then show ?thesis
  proof cases
    case 3
    then have "s1 = s" using create_keeps [OF assms(1) c] by simp
    with 3 write_keeps [OF assms(1), of f ?w "Inr out" s'] c show ?thesis by (intro that [OF v refl refl]) auto
  qed (use create_keeps [OF assms(1) c] c in \<open>auto intro: that [OF v refl refl]\<close>)
qed

lemma captures_stored:
  assumes "inv s" and "write_event_captures create_op write_op C f now ns i run owner captures s = (Inr (), s')" and "s' \<noteq> s"
  shows "\<exists>vals. collect_results (capture_value C (sanitize_segment run) :: _ \<Rightarrow> 'err capture_error + _) captures = Inr vals
    \<and> input_map (sort_key vi_key vals) \<subseteq>\<^sub>m entries i s'"
proof -
  have "captures \<noteq> []" using assms by (auto simp: write_event_captures_def)
  with assms(1,2) show ?thesis
  proof (rule captures_Inr_cases)
    fix vals c w
    assume v: "collect_results (capture_value C (sanitize_segment run) :: _ \<Rightarrow> 'err capture_error + _) captures = Inr vals"
      and c: "c = \<lparr> cs_scope_id = i, cs_namespace = ns, cs_run_id = run,
           cs_claim_id = capture_claim_id C owner (map vi_key (sort_key vi_key vals)), cs_values = sort_key vi_key vals, cs_now = now \<rparr>"
      and w: "w = \<lparr> ws_scope_id = i, ws_claim_id = cs_claim_id c, ws_values = cs_values c, ws_now = now \<rparr>"
      and how: "create_op f c s = (Inr Created, s') \<or> (create_op f c s = (Inr CreateIdempotent, s') \<and> s' = s)
        \<or> (create_op f c s = (Inr (Collision i), s) \<and> (\<exists>out. write_op f w s = (Inr out, s') \<and> (out = WriteIdempotent \<and> s' = s \<or> (\<exists>m n. out = Applied m n))))"
    from how assms(3) consider "create_op f c s = (Inr Created, s')" | m n where "write_op f w s = (Inr (Applied m n), s')" by auto
    then have "input_map (sort_key vi_key vals) \<subseteq>\<^sub>m entries i s'"
      by cases (use create_stores [OF assms(1), of f c s'] write_stores [OF assms(1), of f w _ _ s'] in \<open>auto simp: c w\<close>)
    with v show ?thesis by blast
  qed
qed

lemma captures_retry:
  assumes "inv s" and "write_event_captures create_op write_op C f now ns i run owner captures s = (Inr (), s')"
  shows "write_event_captures create_op write_op C f' now' ns i run owner captures s' = (Inr (), s')"
proof (cases "captures = []")
  case False
  with assms show ?thesis
  proof (rule captures_Inr_cases)
    fix vals c w
    assume v: "collect_results (capture_value C (sanitize_segment run) :: _ \<Rightarrow> 'err capture_error + _) captures = Inr vals"
      and c: "c = \<lparr> cs_scope_id = i, cs_namespace = ns, cs_run_id = run,
           cs_claim_id = capture_claim_id C owner (map vi_key (sort_key vi_key vals)), cs_values = sort_key vi_key vals, cs_now = now \<rparr>"
      and w: "w = \<lparr> ws_scope_id = i, ws_claim_id = cs_claim_id c, ws_values = cs_values c, ws_now = now \<rparr>"
      and how: "create_op f c s = (Inr Created, s') \<or> (create_op f c s = (Inr CreateIdempotent, s') \<and> s' = s)
        \<or> (create_op f c s = (Inr (Collision i), s) \<and> (\<exists>out. write_op f w s = (Inr out, s') \<and> (out = WriteIdempotent \<and> s' = s \<or> (\<exists>m n. out = Applied m n))))"
    have "create_op f' (c\<lparr> cs_now := now' \<rparr>) s' = (Inr CreateIdempotent, s')
        \<or> create_op f' (c\<lparr> cs_now := now' \<rparr>) s' = (Inr (Collision i), s') \<and> write_op f' (w\<lparr> ws_now := now' \<rparr>) s' = (Inr WriteIdempotent, s')"
      using how create_again [OF assms(1), of f c _ s' f' now'] collision_again [OF assms(1), of f c i f w _ _ s' f' now']
        collision_still [OF assms(1), of f c i f' now'] write_again [OF assms(1), of f w _ s' _ _ f' now'] by blast
    then show ?thesis using False v by (auto simp: write_event_captures_def Let_def c w)
  qed
qed (simp add: write_event_captures_def)

lemma captures_error_keeps:
  assumes "inv s" and "write_event_captures create_op write_op C f now ns i run owner captures s = (Inl e, s')"
  shows "s' = s"
proof -
  have "captures \<noteq> []" using assms(2) by (auto simp: write_event_captures_def)
  show ?thesis
  proof (cases "collect_results (capture_value C (sanitize_segment run) :: _ \<Rightarrow> 'err capture_error + _) captures")
    case (Inl e)
    then show ?thesis using assms(2) \<open>captures \<noteq> []\<close> by (simp add: write_event_captures_def)
  next
    case (Inr vals)
    let ?c = "\<lparr> cs_scope_id = i, cs_namespace = ns, cs_run_id = run,
       cs_claim_id = capture_claim_id C owner (map vi_key (sort_key vi_key vals)), cs_values = sort_key vi_key vals, cs_now = now \<rparr>"
    let ?w = "\<lparr> ws_scope_id = i, ws_claim_id = cs_claim_id ?c, ws_values = cs_values ?c, ws_now = now \<rparr>"
    obtain r s1 where c: "create_op f ?c s = (r, s1)" by (cases "create_op f ?c s")
    obtain q s2 where w: "write_op f ?w s = (q, s2)" by (cases "write_op f ?w s")
    have "r \<noteq> Inr Created" using assms(2) Inr c \<open>captures \<noteq> []\<close> by (auto simp: write_event_captures_def Let_def)
    then have "s1 = s" using create_keeps [OF assms(1) c] by simp
    with assms(2) Inr c w \<open>captures \<noteq> []\<close> write_keeps [OF assms(1) w] show ?thesis
      by (auto simp: write_event_captures_def Let_def split: sum.splits if_splits scope_write_outcome.splits)
  qed
qed

end

section \<open>The scope repository is a ScopeStore\<close>

definition pool_entries :: "'n externals \<Rightarrow> uuid \<Rightarrow> scope_pool \<Rightarrow> (string \<rightharpoonup> bytes)" where
  "pool_entries X i pool = (case pool of PostgresPool \<Rightarrow> Map.empty | SqlitePool db \<Rightarrow> scope_map X i db)"

definition lift_tx :: "('e, 'a, scope_db) outcome \<Rightarrow> ('e, 'a, scope_pool) outcome" where
  "lift_tx r = (fst r, SqlitePool (snd r))"

text \<open>Requests that reach the database do so whatever the clock says.\<close>

lemma create_reaches_db:
  assumes "create_tickr_ctx_scope X f c pool = (Inr out, pool')" and "\<And>r. out \<noteq> CreateRejected r"
  obtains d db where "pool = SqlitePool db" "(Inr out, pool') = lift_tx (create_scope_tx X f c d db)"
    "mutation_digest X (cs_scope_id c) (cs_values c) = Inr d" "validate_mutation X (cs_values c) 0 0 = None \<or> cs_values c = []"
    "\<And>f' now db'. create_tickr_ctx_scope X f' (c\<lparr> cs_now := now \<rparr>) (SqlitePool db') = lift_tx (create_scope_tx X f' (c\<lparr> cs_now := now \<rparr>) d db')"
proof -
  from assms obtain db d where p: "pool = SqlitePool db" "mutation_digest X (cs_scope_id c) (cs_values c) = Inr d"
      "validate_scope_identity (cs_namespace c) (cs_run_id c) = Inr ()"
    and m: "validate_mutation X (cs_values c) 0 0 = None \<or> validate_mutation X (cs_values c) 0 0 = Some EmptyRequest"
    by (cases pool; cases "validate_mutation X (cs_values c) 0 0")
      (auto simp: create_tickr_ctx_scope_def split: sum.splits if_splits)
  have eq: "create_tickr_ctx_scope X f' c' (SqlitePool db') = lift_tx (create_scope_tx X f' c' d db')"
    if "cs_scope_id c' = cs_scope_id c" "cs_namespace c' = cs_namespace c" "cs_run_id c' = cs_run_id c" "cs_values c' = cs_values c" for f' c' db'
    using p(2,3) m that by (auto simp: create_tickr_ctx_scope_def lift_tx_def)
  show ?thesis
    using p m assms(1) eq [of c f db] by (intro that [of db d] eq) (auto dest: validate_mutation_Empty)
qed

lemma write_reaches_db:
  assumes "write_tickr_ctx_scope X f w pool = (Inr out, pool')" and "\<And>r. out \<noteq> WriteRejected r"
  obtains d db where "pool = SqlitePool db" "(Inr out, pool') = lift_tx (write_scope_tx X f w d db)"
    "mutation_digest X (ws_scope_id w) (ws_values w) = Inr d" "validate_mutation X (ws_values w) 0 0 = None"
    "\<And>f' now db'. write_tickr_ctx_scope X f' (w\<lparr> ws_now := now \<rparr>) (SqlitePool db') = lift_tx (write_scope_tx X f' (w\<lparr> ws_now := now \<rparr>) d db')"
proof -
  from assms obtain db d where p: "pool = SqlitePool db" "mutation_digest X (ws_scope_id w) (ws_values w) = Inr d"
      "validate_mutation X (ws_values w) 0 0 = None"
    by (cases pool) (auto simp: write_tickr_ctx_scope_def split: sum.splits option.splits)
  have eq: "write_tickr_ctx_scope X f' w' (SqlitePool db') = lift_tx (write_scope_tx X f' w' d db')"
    if "ws_scope_id w' = ws_scope_id w" "ws_values w' = ws_values w" for f' w' db'
    using p(2,3) that by (simp add: write_tickr_ctx_scope_def lift_tx_def)
  show ?thesis using p assms(1) eq [of w f db] by (intro that [of db d] eq) auto
qed

lemma create_tx_keeps: "fst (create_scope_tx X f c d db) \<noteq> Inr Created \<Longrightarrow> snd (create_scope_tx X f c d db) = db"
  by (auto simp: create_scope_tx_def Let_def commit_scope_def split: option.splits)

lemma create_keeps_pool:
  assumes "create_tickr_ctx_scope X f c pool = (r, pool')" and "r \<noteq> Inr Created"
  shows "pool' = pool"
  using assms create_tx_keeps [of X f c]
  by (cases pool; cases "mutation_digest X (cs_scope_id c) (cs_values c)"; cases "validate_mutation X (cs_values c) 0 0")
    (auto simp: create_tickr_ctx_scope_def split: sum.splits if_splits)

lemma create_tx_row:
  assumes "fst (create_scope_tx X f c d db) = Inr out" and "out = Created \<or> out = CreateIdempotent"
  shows "\<exists>s \<in> set (scopes (snd (create_scope_tx X f c d db))). sc_claim s = encode_uuid X (cs_claim_id c)
    \<and> sc_id s = encode_uuid X (cs_scope_id c) \<and> sc_namespace s = cs_namespace c \<and> sc_run_id s = cs_run_id c \<and> sc_request_digest s = d"
  using assms
  by (auto simp: create_scope_tx_def Let_def commit_scope_def insert_values_and_claim_def sql_insert_Some
      split: option.splits if_splits Option.bind_splits dest!: find_SomeD)

lemma create_tx_idempotent:
  assumes "scope_db_inv X db" and "s \<in> set (scopes db)" "sc_claim s = encode_uuid X (cs_claim_id c)"
    "sc_id s = encode_uuid X (cs_scope_id c)" "sc_namespace s = cs_namespace c" "sc_run_id s = cs_run_id c" "sc_request_digest s = d"
  shows "create_scope_tx X f c d db = (Inr CreateIdempotent, db)"
proof -
  have "find (\<lambda>r. sc_claim r = encode_uuid X (cs_claim_id c)) (scopes db) = Some s"
    using assms scope_invD(2) [OF assms(1)] by (subst find_Some_iff_key [where k = sc_claim]) auto
  then show ?thesis using assms by (simp add: create_scope_tx_def Let_def)
qed

lemma create_stores_map:
  assumes inv: "scope_db_inv X db" and c: "create_scope_tx X f c d db = (Inr Created, db')" and d: "mutation_digest X (cs_scope_id c) (cs_values c) = Inr d"
  shows "scope_map X (cs_scope_id c) db' = input_map (cs_values c)"
proof -
  let ?i = "encode_uuid X (cs_scope_id c)"
  from c obtain s ss t where ss: "sql_insert scopes_ok s (scopes db) = Some ss" "sc_id s = ?i"
    and t: "insert_scope_values X f ?i (cs_values c) (cs_now c) ss (scope_values db) = Some t" and db': "scope_values db' = t"
    by (auto simp: create_scope_tx_def Let_def commit_scope_def insert_values_and_claim_def split: option.splits if_splits Option.bind_splits)
  have ok: "values_ok ss (scope_values db)"
    using inv ss by (auto simp: scope_db_inv_def values_ok_def sql_insert_Some list_all_iff)
  have "?i \<notin> sc_id ` set (scopes db)" using ss(1) ss(2) [symmetric] by (auto simp: sql_insert_Some scopes_ok_def)
  then have "scope_entries ?i (scope_values db) = []" by (intro entries_of_new_scope [OF inv]) (auto simp: image_iff)
  then have "scope_entries ?i t = put_values (cs_values c) []" using insert_scope_values_effect [OF t ok] by simp
  then show ?thesis
    by (simp add: scope_map_def db' map_of_put_values map_of_rev_input [OF mutation_digest_InrD(1) [OF d]])
qed

lemma collision_after_write:
  assumes c: "create_scope_tx X f c d db = (Inr (Collision j), db)" and w: "write_scope_tx X g w e db = (Inr (Applied m n), db')"
  shows "create_scope_tx X f' (c\<lparr> cs_now := now \<rparr>) d db' = (Inr (Collision j), db')"
  using w
proof (rule write_AppliedD)
  fix s t u cs ss
  assume ss: "sql_update scopes_ok (\<lambda>r. sc_id r = sc_id s) (\<lambda>r. r\<lparr> sc_updated_at := encode_timestamp (ws_now w) \<rparr>) (scopes db) = Some ss"
    and db': "db' = \<lparr> scopes = ss, scope_values = u, scope_claims = cs \<rparr>"
  let ?f = "\<lambda>r. r\<lparr> sc_updated_at := encode_timestamp (ws_now w) \<rparr>"
  have ss': "ss = update_where (\<lambda>r. sc_id r = sc_id s) ?f (scopes db)" using ss by (simp add: sql_update_Some)
  have f1: "find (\<lambda>r. sc_claim r = k) ss = map_option (\<lambda>r. if sc_id r = sc_id s then ?f r else r) (find (\<lambda>r. sc_claim r = k) (scopes db))" for k
    unfolding ss' by (rule find_update_where) simp
  have f2: "find (\<lambda>r. sc_namespace r = k \<and> sc_run_id r = l) ss = map_option (\<lambda>r. if sc_id r = sc_id s then ?f r else r)
      (find (\<lambda>r. sc_namespace r = k \<and> sc_run_id r = l) (scopes db))" for k l
    unfolding ss' by (rule find_update_where) simp
  show ?thesis
    using c by (auto simp: create_scope_tx_def Let_def db' f1 f2 commit_scope_def split: option.splits if_splits)
qed

lemma write_tx_keeps: "(\<exists>m n. fst (write_scope_tx X f w d db) = Inr (Applied m n)) \<or> snd (write_scope_tx X f w d db) = db"
  by (simp add: write_scope_tx_def Let_def commit_scope_def split: option.split sum.split)

lemma write_keeps_pool:
  assumes "write_tickr_ctx_scope X f w pool = (r, pool')" and "\<And>m n. r \<noteq> Inr (Applied m n)"
  shows "pool' = pool"
  using assms write_tx_keeps [of X f w]
  by (cases pool; cases "mutation_digest X (ws_scope_id w) (ws_values w)"; cases "validate_mutation X (ws_values w) 0 0")
    (fastforce simp: write_tickr_ctx_scope_def)+

lemma write_tx_idempotent_again:
  "write_scope_tx X f w d db = (Inr WriteIdempotent, db') \<Longrightarrow> write_scope_tx X f' (w\<lparr> ws_now := now \<rparr>) d db' = (Inr WriteIdempotent, db')"
  by (auto simp: write_scope_tx_def Let_def commit_scope_def split: option.splits sum.splits if_splits)

lemma create_again_pool:
  assumes inv: "scope_inv X s" and cr: "create_tickr_ctx_scope X f c s = (Inr out, s')" and out: "out = Created \<or> out = CreateIdempotent"
  shows "create_tickr_ctx_scope X f' (c\<lparr> cs_now := now \<rparr>) s' = (Inr CreateIdempotent, s')"
proof (rule create_reaches_db [OF cr])
  fix db d assume s: "s = SqlitePool db" and tx: "(Inr out, s') = lift_tx (create_scope_tx X f c d db)"
    and eq: "\<And>f' now db'. create_tickr_ctx_scope X f' (c\<lparr> cs_now := now \<rparr>) (SqlitePool db') = lift_tx (create_scope_tx X f' (c\<lparr> cs_now := now \<rparr>) d db')"
  let ?db' = "snd (create_scope_tx X f c d db)"
  have "exec_scope X (CreateScope f c) s = s'" using cr by simp
  then have "scope_inv X s'" using scope.exec_inv [OF inv] by metis
  then have inv': "scope_db_inv X ?db'" using tx by (simp add: lift_tx_def scope_inv_def)
  from tx have "fst (create_scope_tx X f c d db) = Inr out" by (simp add: lift_tx_def)
  from create_tx_row [OF this out] obtain r where "r \<in> set (scopes ?db')" "sc_claim r = encode_uuid X (cs_claim_id c)"
    "sc_id r = encode_uuid X (cs_scope_id c)" "sc_namespace r = cs_namespace c" "sc_run_id r = cs_run_id c" "sc_request_digest r = d" by blast
  then have "create_scope_tx X f' (c\<lparr> cs_now := now \<rparr>) d ?db' = (Inr CreateIdempotent, ?db')"
    by (intro create_tx_idempotent [OF inv']) simp_all
  with tx eq show ?thesis by (simp add: lift_tx_def)
qed (use out in auto)

lemma collision_still_pool:
  assumes inv: "scope_inv X s" and cr: "create_tickr_ctx_scope X f c s = (Inr (Collision j), s)"
  shows "create_tickr_ctx_scope X f' (c\<lparr> cs_now := now \<rparr>) s = (Inr (Collision j), s)"
proof (rule create_reaches_db [OF cr])
  fix db d assume s: "s = SqlitePool db" and tx: "(Inr (Collision j), s) = lift_tx (create_scope_tx X f c d db)"
    and eq: "\<And>f' now db'. create_tickr_ctx_scope X f' (c\<lparr> cs_now := now \<rparr>) (SqlitePool db') = lift_tx (create_scope_tx X f' (c\<lparr> cs_now := now \<rparr>) d db')"
  have "create_scope_tx X f' (c\<lparr> cs_now := now \<rparr>) d db = (Inr (Collision j), db)"
    using tx by (auto simp: lift_tx_def s create_scope_tx_def Let_def commit_scope_def split: option.splits if_splits)
  with eq s show ?thesis by (simp add: lift_tx_def)
qed auto

lemma collision_again_pool:
  assumes inv: "scope_inv X s" and cr: "create_tickr_ctx_scope X f c s = (Inr (Collision j), s)" and wr: "write_tickr_ctx_scope X g w s = (Inr (Applied m n), s')"
  shows "create_tickr_ctx_scope X f' (c\<lparr> cs_now := now \<rparr>) s' = (Inr (Collision j), s')"
proof (rule create_reaches_db [OF cr])
  fix db d assume s: "s = SqlitePool db" and tx: "(Inr (Collision j), s) = lift_tx (create_scope_tx X f c d db)"
    and eq: "\<And>f' now db'. create_tickr_ctx_scope X f' (c\<lparr> cs_now := now \<rparr>) (SqlitePool db') = lift_tx (create_scope_tx X f' (c\<lparr> cs_now := now \<rparr>) d db')"
  from wr obtain e db' where w: "write_scope_tx X g w e db = (Inr (Applied m n), db')" "s' = SqlitePool db'"
    unfolding s by (auto elim: write_pool_AppliedD)
  have "create_scope_tx X f c d db = (Inr (Collision j), db)" using tx by (simp add: lift_tx_def s prod_eq_iff)
  from collision_after_write [OF this w(1)] eq w(2) show ?thesis by (simp add: lift_tx_def)
qed auto

lemma write_again_pool:
  assumes inv: "scope_inv X s" and wr: "write_tickr_ctx_scope X f w s = (Inr wout, s')" and out: "wout = Applied m n \<or> wout = WriteIdempotent"
  shows "write_tickr_ctx_scope X f' (w\<lparr> ws_now := now \<rparr>) s' = (Inr WriteIdempotent, s')"
proof (rule write_reaches_db [OF wr])
  fix db d assume s: "s = SqlitePool db" and tx: "(Inr wout, s') = lift_tx (write_scope_tx X f w d db)"
    and eq: "\<And>f' now db'. write_tickr_ctx_scope X f' (w\<lparr> ws_now := now \<rparr>) (SqlitePool db') = lift_tx (write_scope_tx X f' (w\<lparr> ws_now := now \<rparr>) d db')"
  let ?db' = "snd (write_scope_tx X f w d db)"
  have "exec_scope X (WriteScope f w) s = s'" using wr by simp
  then have "scope_inv X s'" using scope.exec_inv [OF inv] by metis
  then have inv': "scope_db_inv X ?db'" using tx by (simp add: lift_tx_def scope_inv_def)
  have txw: "write_scope_tx X f w d db = (Inr wout, ?db')" using tx by (simp add: lift_tx_def prod_eq_iff)
  have "write_scope_tx X f' (w\<lparr> ws_now := now \<rparr>) d ?db' = (Inr WriteIdempotent, ?db')"
  proof (cases "wout = WriteIdempotent")
    case True
    then show ?thesis using txw by (intro write_tx_idempotent_again) simp
  next
    case False
    then have w: "write_scope_tx X f w d db = (Inr (Applied m n), ?db')" using txw out by simp
    have "scope_db_inv X db" using inv by (simp add: s scope_inv_def)
    from this w show ?thesis
      by (rule claim_after_write) (rule write_with_claim [OF inv'], auto)
  qed
  with tx eq show ?thesis by (simp add: lift_tx_def)
qed (use out in auto)

lemma create_stores_pool:
  assumes inv: "scope_inv X s" and cr: "create_tickr_ctx_scope X f c s = (Inr Created, s')"
  shows "pool_entries X (cs_scope_id c) s' = input_map (cs_values c)"
proof (rule create_reaches_db [OF cr])
  fix db d assume s: "s = SqlitePool db" and tx: "(Inr Created, s') = lift_tx (create_scope_tx X f c d db)"
    and d: "mutation_digest X (cs_scope_id c) (cs_values c) = Inr d"
  have "create_scope_tx X f c d db = (Inr Created, snd (create_scope_tx X f c d db))"
    using tx by (simp add: lift_tx_def prod_eq_iff)
  from create_stores_map [OF _ this d] tx inv show ?thesis by (simp add: s scope_inv_def pool_entries_def lift_tx_def)
qed simp

lemma write_stores_pool:
  assumes inv: "scope_inv X s" and wr: "write_tickr_ctx_scope X f w s = (Inr (Applied m n), s')"
  shows "pool_entries X (ws_scope_id w) s' = pool_entries X (ws_scope_id w) s ++ input_map (ws_values w)"
proof (rule write_reaches_db [OF wr])
  fix db d assume s: "s = SqlitePool db" and tx: "(Inr (Applied m n), s') = lift_tx (write_scope_tx X f w d db)"
    and d: "mutation_digest X (ws_scope_id w) (ws_values w) = Inr d"
  have "write_scope_tx X f w d db = (Inr (Applied m n), snd (write_scope_tx X f w d db))"
    using tx by (simp add: lift_tx_def prod_eq_iff)
  from write_map_effect(1) [OF _ d this] tx inv show ?thesis by (simp add: s scope_inv_def pool_entries_def lift_tx_def)
qed simp

interpretation repository: scope_store "create_tickr_ctx_scope X" "write_tickr_ctx_scope X" "scope_inv X" "pool_entries X"
  for X :: "'n externals"
  by unfold_locales
    (erule create_keeps_pool create_stores_pool create_again_pool collision_again_pool collision_still_pool
       write_keeps_pool write_stores_pool write_again_pool; assumption?; blast)+

section \<open>Retries after other operations\<close>

lemma create_later:
  assumes inv: "scope_inv X s" and cr: "create_tickr_ctx_scope X f c s = (Inr out, s')" and out: "out = Created \<or> out = CreateIdempotent"
  shows "create_tickr_ctx_scope X f' (c\<lparr> cs_now := now \<rparr>) (run_scope X ops s') = (Inr CreateIdempotent, run_scope X ops s')"
proof (rule create_reaches_db [OF cr])
  fix db d assume s: "s = SqlitePool db" and tx: "(Inr out, s') = lift_tx (create_scope_tx X f c d db)"
    and eq: "\<And>f' now db'. create_tickr_ctx_scope X f' (c\<lparr> cs_now := now \<rparr>) (SqlitePool db') = lift_tx (create_scope_tx X f' (c\<lparr> cs_now := now \<rparr>) d db')"
  let ?db1 = "snd (create_scope_tx X f c d db)"
  have "exec_scope X (CreateScope f c) s = s'" using cr by simp
  then have "scope_inv X s'" using scope.exec_inv [OF inv] by metis
  then have "scope_db_inv X ?db1" using tx by (simp add: lift_tx_def scope_inv_def)
  then obtain db2 where db2: "run_scope X ops (SqlitePool ?db1) = SqlitePool db2" "scope_db_inv X db2" "scope_db_le ?db1 db2"
    by (rule run_scope_sqlite)
  from tx have "fst (create_scope_tx X f c d db) = Inr out" by (simp add: lift_tx_def)
  from create_tx_row [OF this out] db2(3) obtain r where "r \<in> set (scopes db2)" "sc_claim r = encode_uuid X (cs_claim_id c)"
    "sc_id r = encode_uuid X (cs_scope_id c)" "sc_namespace r = cs_namespace c" "sc_run_id r = cs_run_id c" "sc_request_digest r = d"
    by (fastforce simp: scope_db_le_def rows_le_def scope_row_le_def)
  then have "create_scope_tx X f' (c\<lparr> cs_now := now \<rparr>) d db2 = (Inr CreateIdempotent, db2)"
    by (intro create_tx_idempotent [OF db2(2)]) simp_all
  with tx eq db2(1) show ?thesis by (simp add: lift_tx_def)
qed (use out in auto)

text \<open>The scope of a run stays, so that another creation for the run goes on colliding with it, unless its
  claim was since used to create the scope of another run.\<close>

lemma collision_later:
  assumes inv: "scope_inv X s" and cr: "create_tickr_ctx_scope X f c s = (Inr (Collision j), s)" and later: "later = run_scope X ops s"
  shows "create_tickr_ctx_scope X f' (c\<lparr> cs_now := now \<rparr>) later \<in> {(Inr (Collision j), later), (Inr CreateClaimConflict, later)}"
proof (rule create_reaches_db [OF cr])
  fix db d assume s: "s = SqlitePool db" and tx: "(Inr (Collision j), s) = lift_tx (create_scope_tx X f c d db)"
    and eq: "\<And>f' now db'. create_tickr_ctx_scope X f' (c\<lparr> cs_now := now \<rparr>) (SqlitePool db') = lift_tx (create_scope_tx X f' (c\<lparr> cs_now := now \<rparr>) d db')"
  let ?run = "\<lambda>r. sc_namespace r = cs_namespace c \<and> sc_run_id r = cs_run_id c" and ?claim = "\<lambda>r. sc_claim r = encode_uuid X (cs_claim_id c)"
  from tx obtain r where none: "find ?claim (scopes db) = None" and r: "find ?run (scopes db) = Some r" "parse_uuid X (sc_id r) = Some j"
    by (auto simp: lift_tx_def create_scope_tx_def Let_def commit_scope_def split: option.splits if_splits)
  have "scope_db_inv X db" using inv by (simp add: s scope_inv_def)
  then obtain db2 where db2: "run_scope X ops (SqlitePool db) = SqlitePool db2" "scope_db_inv X db2" "scope_db_le db db2"
    by (rule run_scope_sqlite)
  from r(1) have "r \<in> set (scopes db)" "?run r" by (auto dest: find_SomeD)
  with none db2(3) obtain r2 where r2: "r2 \<in> set (scopes db2)" "?run r2" "sc_id r2 = sc_id r" "\<not> ?claim r2"
    by (fastforce simp: find_None_iff scope_db_le_def rows_le_def scope_row_le_def)
  have f: "find ?run (scopes db2) = Some r2"
    using r2 scope_invD(3) [OF db2(2)] by (subst find_Some_iff_key [where k = "\<lambda>s. (sc_namespace s, sc_run_id s)"]) auto
  have "\<not> ?run x" if "find ?claim (scopes db2) = Some x" for x
    using find_SomeD [OF that] r2 distinct_map_inj [OF scope_invD(3) [OF db2(2)], of x r2] by auto
  then have "create_scope_tx X f' (c\<lparr> cs_now := now \<rparr>) d db2 \<in> {(Inr (Collision j), db2), (Inr CreateClaimConflict, db2)}"
    using f r(2) r2(3) by (auto simp: create_scope_tx_def Let_def split: option.split)
  with eq db2(1) show ?thesis by (auto simp: later s lift_tx_def)
qed auto

lemma captures_success_cases:
  assumes inv: "scope_inv X pool" and "captures \<noteq> []"
    and "write_event_captures (create_tickr_ctx_scope X) (write_tickr_ctx_scope X) C f now ns i run owner captures pool = (Inr (), pool')"
  obtains c w vals where
    "collect_results (capture_value C (sanitize_segment run) :: _ \<Rightarrow> scope_error capture_error + _) captures = Inr vals"
    "c = \<lparr> cs_scope_id = i, cs_namespace = ns, cs_run_id = run,
           cs_claim_id = capture_claim_id C owner (map vi_key (sort_key vi_key vals)), cs_values = sort_key vi_key vals, cs_now = now \<rparr>"
    "w = \<lparr> ws_scope_id = i, ws_claim_id = cs_claim_id c, ws_values = cs_values c, ws_now = now \<rparr>"
    "(\<exists>out. create_tickr_ctx_scope X f c pool = (Inr out, pool') \<and> (out = Created \<or> out = CreateIdempotent))
     \<or> (create_tickr_ctx_scope X f c pool = (Inr (Collision i), pool)
        \<and> (\<exists>m n out. write_tickr_ctx_scope X f w pool = (Inr out, pool') \<and> (out = Applied m n \<or> out = WriteIdempotent)))"
  using assms(1,3,2) by (rule repository.captures_Inr_cases) (rule that, assumption+, blast)

section \<open>Properties\<close>

text \<open>C32. Writing event captures is atomic on the scope repository: a failure leaves the store as it was,
  and a success that changed it stored every capture under its key.\<close>

theorem event_captures_atomic:
  assumes "scope_inv X pool"
    and "write_event_captures (create_tickr_ctx_scope X) (write_tickr_ctx_scope X) C f now ns i run owner captures pool = (r, pool')"
    and "pool' \<noteq> pool"
  shows "r = Inr () \<and> (\<exists>vals. collect_results (capture_value C (sanitize_segment run) :: _ \<Rightarrow> scope_error capture_error + _) captures = Inr vals
    \<and> input_map (sort_key vi_key vals) \<subseteq>\<^sub>m pool_entries X i pool')"
proof (cases r)
  case (Inl e)
  then show ?thesis using repository.captures_error_keeps [OF assms(1)] assms(2,3) by blast
next
  case (Inr u)
  then show ?thesis using repository.captures_stored [OF assms(1)] assms(2,3) by simp
qed

lemma captures_retry_later:
  assumes "scope_inv X pool"
    and "write_event_captures (create_tickr_ctx_scope X) (write_tickr_ctx_scope X) C f now ns i run owner captures pool = (Inr (), pool')"
    and "later = run_scope X ops pool'"
  shows "\<exists>r. write_event_captures (create_tickr_ctx_scope X) (write_tickr_ctx_scope X) C f' now' ns i run owner captures later = (r, later)
    \<and> (r = Inr () \<or> r = Inl (CreateScopeOutcome CreateClaimConflict)
       \<or> fst (cleanup_tickr_ctx_scope X i now' later) = Inr AlreadyCleaned
         \<and> r \<in> {Inl (WriteCapturesOutcome (WriteNotWritable Cleaned)), Inl (WriteCapturesOutcome WriteClaimConflict)})"
proof (cases "captures = []")
  case False
  from assms(1) False assms(2) show ?thesis
  proof (rule captures_success_cases)
    fix c w vals
    assume v: "collect_results (capture_value C (sanitize_segment run) :: _ \<Rightarrow> scope_error capture_error + _) captures = Inr vals"
      and c: "c = \<lparr> cs_scope_id = i, cs_namespace = ns, cs_run_id = run,
           cs_claim_id = capture_claim_id C owner (map vi_key (sort_key vi_key vals)), cs_values = sort_key vi_key vals, cs_now = now \<rparr>"
      and w: "w = \<lparr> ws_scope_id = i, ws_claim_id = cs_claim_id c, ws_values = cs_values c, ws_now = now \<rparr>"
      and how: "(\<exists>out. create_tickr_ctx_scope X f c pool = (Inr out, pool') \<and> (out = Created \<or> out = CreateIdempotent))
        \<or> (create_tickr_ctx_scope X f c pool = (Inr (Collision i), pool)
          \<and> (\<exists>m n out. write_tickr_ctx_scope X f w pool = (Inr out, pool') \<and> (out = Applied m n \<or> out = WriteIdempotent)))"
    from how show ?thesis
    proof
      assume "\<exists>out. create_tickr_ctx_scope X f c pool = (Inr out, pool') \<and> (out = Created \<or> out = CreateIdempotent)"
      then have "create_tickr_ctx_scope X f' (c\<lparr> cs_now := now' \<rparr>) later = (Inr CreateIdempotent, later)"
        unfolding assms(3) by (auto dest: create_later [OF assms(1)])
      then show ?thesis using False v by (simp add: write_event_captures_def Let_def c)
    next
      assume h: "create_tickr_ctx_scope X f c pool = (Inr (Collision i), pool)
          \<and> (\<exists>m n out. write_tickr_ctx_scope X f w pool = (Inr out, pool') \<and> (out = Applied m n \<or> out = WriteIdempotent))"
      then obtain m n out where wr: "write_tickr_ctx_scope X f w pool = (Inr out, pool')" "out = Applied m n \<or> out = WriteIdempotent" by blast
      have l: "later = run_scope X (WriteScope f w # ops) pool" using wr(1) by (simp add: assms(3) run_scope_def)
      from write_later [OF assms(1) wr, of f' now' ops] obtain out' where
        "write_tickr_ctx_scope X f' (w\<lparr> ws_now := now' \<rparr>) later = (Inr out', later)"
        "out' = WriteIdempotent \<or> fst (cleanup_tickr_ctx_scope X i now' later) = Inr AlreadyCleaned
           \<and> out' \<in> {WriteNotWritable Cleaned, WriteClaimConflict}" by (auto simp: assms(3) w)
      with collision_later [OF assms(1) conjunct1 [OF h] l, of f' now'] False v show ?thesis
        by (auto simp: write_event_captures_def Let_def c w)
    qed
  qed
qed (simp add: write_event_captures_def)

text \<open>C33. Writing event captures may be retried: directly after a success the same call succeeds again,
  whatever the clock says, and changes nothing, whether it had created the scope or written to an
  existing one. After any further operations on scopes the same call still changes nothing: it
  succeeds again, or is refused by a scope that was cleaned up since, or is refused because its claim
  has since created another scope.\<close>

theorem event_captures_retry:
  assumes "scope_inv X pool"
    and "write_event_captures (create_tickr_ctx_scope X) (write_tickr_ctx_scope X) C f now ns i run owner captures pool = (Inr (), pool')"
    and "later = run_scope X ops pool'"
  shows "write_event_captures (create_tickr_ctx_scope X) (write_tickr_ctx_scope X) C f' now' ns i run owner captures pool' = (Inr (), pool')
    \<and> (\<exists>r. write_event_captures (create_tickr_ctx_scope X) (write_tickr_ctx_scope X) C f' now' ns i run owner captures later = (r, later)
         \<and> (r = Inr () \<or> r = Inl (CreateScopeOutcome CreateClaimConflict)
            \<or> fst (cleanup_tickr_ctx_scope X i now' later) = Inr AlreadyCleaned
              \<and> r \<in> {Inl (WriteCapturesOutcome (WriteNotWritable Cleaned)), Inl (WriteCapturesOutcome WriteClaimConflict)}))"
  using repository.captures_retry [OF assms(1,2)] captures_retry_later [OF assms] by blast

end
