(* ===== verification/Scope_Witnesses.thy ===== *)
theory Scope_Witnesses
  imports Event_Captures
begin

text \<open>
  A store with one open scope that holds one value, and requests on it: the theorems on the scope store
  and on event captures apply to them. The operations are evaluated on them by rewriting.
\<close>

lemmas scope_eval = create_tickr_ctx_scope_def write_tickr_ctx_scope_def delete_tickr_ctx_scope_value_def read_tickr_ctx_scope_def
  snapshot_tickr_ctx_scope_def create_scope_tx_def write_scope_tx_def delete_scope_tx_def read_scope_tx_def snapshot_scope_tx_def
  validate_scope_identity_def mutation_digest_def delete_digest_def validate_mutation_def validate_envelope_def envelope_version_def
  saturating_add_usize_def sum_lengths_def u64_max_def MAX_NAMESPACE_BYTES_def MAX_RUN_ID_BYTES_def MAX_SCOPE_AGE_SECONDS_def scope_limits
  valid_key_def append_len_prefixed_def u32_of_len_def load_scope_def load_scope_values_def value_rows_def stored_value_def
  TICKR_CTX_SCOPE_PROTOCOL_VERSION_def decode_timestamp_def encode_timestamp_def encode_uuid_def commit_scope_def
  insert_values_and_claim_def upsert_value_def insert_claim_def touch_scope_def sql_update_def sql_insert_def update_where_def
  scopes_ok_def scope_check_def values_ok_def claims_ok_def age_bound_def existing_lengths_def resulting_scope_bound_def
  stored_bounds_def rows_affected_def Let_def plain_externals_def as_bytes_def List.map_filter_simps comp_def

definition demo_scope :: scope_row where
  "demo_scope = \<lparr> sc_id = ''u'', sc_namespace = ''n'', sc_run_id = ''r'', sc_version = 1, sc_claim = ''uu'', sc_request_digest = ''d'',
     sc_state = Active, sc_created_at = 0, sc_updated_at = 0, sc_snapshot = None, sc_digest = None, sc_row_count = None,
     sc_value_bytes = None, sc_snapshotted_at = None, sc_cleaned_at = None, sc_reason = None \<rparr>"

definition demo_db :: scope_db where
  "demo_db = \<lparr> scopes = [demo_scope],
     scope_values = [\<lparr> v_scope = ''u'', v_key = ''a'', v_identity = ''uuu'', v_envelope = [1], v_created_at = 0, v_updated_at = 0 \<rparr>],
     scope_claims = [\<lparr> cl_id = ''uu'', cl_scope = ''u'', cl_digest = ''d'', cl_committed_at = 0 \<rparr>] \<rparr>"

lemma demo_db_inv: "scope_db_inv plain_externals demo_db"
  by (simp add: scope_db_inv_def demo_db_def demo_scope_def scope_good_def values_inv_def value_good_def entries_bounded_def
      scope_entries_def entry_bytes_def scope_eval)

lemma plain_uuid: "inj (uuid_text plain_externals)" "\<forall>u. parse_uuid plain_externals (uuid_text plain_externals u) = Some u"
  by (auto simp: plain_externals_def inj_def replicate_eq_replicate intro: unsigned_word_eqI)

definition demo_write :: write_scope_input where
  "demo_write = \<lparr> ws_scope_id = 1, ws_claim_id = 4,
     ws_values = [\<lparr> vi_key = ''b'', vi_envelope = [2] \<rparr>, \<lparr> vi_key = ''a'', vi_envelope = [1, 1] \<rparr>], ws_now = 0 \<rparr>"

lemma demo_write_applied:
  "\<exists>db'. write_tickr_ctx_scope plain_externals (\<lambda>k. of_nat (k + 5)) demo_write (SqlitePool demo_db) = (Inr (Applied 1 1), SqlitePool db')"
  by (simp add: demo_db_def demo_scope_def demo_write_def scope_eval) (simp add: numeral_eq_Suc)


definition demo_delete :: delete_scope_input where
  "demo_delete = \<lparr> ds_scope_id = 1, ds_claim_id = 4, ds_key = ''a'', ds_now = 0 \<rparr>"

lemma demo_delete_accepted:
  "\<exists>db'. delete_tickr_ctx_scope_value plain_externals demo_delete (SqlitePool demo_db) = (Inr Deleted, SqlitePool db')"
  by (simp add: demo_db_def demo_scope_def demo_delete_def scope_eval) (simp add: numeral_eq_Suc)

lemma demo_read:
  "read_tickr_ctx_scope plain_externals 1 0 (SqlitePool demo_db) = (Inr (Present [\<lparr> sv_key = ''a'', sv_identity = ''uuu'',
     sv_envelope = [1], sv_created_at = 0, sv_updated_at = 0 \<rparr>]), SqlitePool demo_db)"
  by (simp add: demo_db_def demo_scope_def scope_eval)

lemma demo_snapshot:
  "\<exists>snap pool'. snapshot_tickr_ctx_scope plain_externals 1 0 (SqlitePool demo_db) = (Inr (SnapCommitted snap), pool')"
  by (simp add: demo_db_def demo_scope_def scope_eval encode_snapshot_def store_snapshot_def fits_i64_def i64_max_def)

definition demo_create :: create_scope_input where
  "demo_create = \<lparr> cs_scope_id = 3, cs_namespace = ''n'', cs_run_id = ''q'', cs_claim_id = 4,
     cs_values = [\<lparr> vi_key = ''b'', vi_envelope = [2] \<rparr>], cs_now = 0 \<rparr>"

lemma demo_create_accepted:
  "\<exists>pool'. create_tickr_ctx_scope plain_externals (\<lambda>k. of_nat (k + 5)) demo_create (SqlitePool demo_db) = (Inr Created, pool')"
  by (simp add: demo_db_def demo_scope_def demo_create_def scope_eval) (simp add: numeral_eq_Suc)

lemma demo_write_delete_key:
  "\<exists>pool'. write_tickr_ctx_scope plain_externals (\<lambda>k. of_nat (k + 5)) \<lparr> ws_scope_id = 1, ws_claim_id = 4,
     ws_values = [\<lparr> vi_key = ''delete'', vi_envelope = as_bytes [CHR 0x01] \<rparr>], ws_now = 0 \<rparr> (SqlitePool demo_db) = (Inr (Applied 1 0), pool')"
  by (simp add: demo_db_def demo_scope_def scope_eval) (simp add: numeral_eq_Suc)

definition demo_captures :: "nat capture_externals" where
  "demo_captures = \<lparr> envelope_to_vec = (\<lambda>n. Inr [of_nat n]), sha2_digest = (\<lambda>bs. bs), new_v5 = (\<lambda>u bs. 9) \<rparr>"

lemma demo_captures_written:
  "\<exists>pool'. write_event_captures (create_tickr_ctx_scope plain_externals) (write_tickr_ctx_scope plain_externals) demo_captures
     (\<lambda>k. of_nat (k + 5)) 0 ''n'' 1 ''r'' 7 [\<lparr> ne_name = ''x'', ne_envelope = 2 \<rparr>] (SqlitePool demo_db) = (Inr (), pool') \<and> pool' \<noteq> SqlitePool demo_db"
  by (simp add: demo_db_def demo_scope_def demo_captures_def write_event_captures_def capture_value_def capture_claim_id_def
      sanitize_segment_def legal_segment_char_def scope_eval) (simp add: numeral_eq_Suc)

section \<open>The theorems at these inputs\<close>

lemma demo_pool_inv: "scope_inv plain_externals (SqlitePool demo_db)"
  by (simp add: scope_inv_def demo_db_inv)

theorem write_refines_map_witness:
  "\<exists>db'. write_tickr_ctx_scope plain_externals (\<lambda>k. of_nat (k + 5)) demo_write (SqlitePool demo_db) = (Inr (Applied 1 1), SqlitePool db')
     \<and> scope_map plain_externals 1 db' ''a'' = Some [1, 1] \<and> scope_map plain_externals 1 db' ''b'' = Some [2]"
proof -
  obtain db' where w: "write_tickr_ctx_scope plain_externals (\<lambda>k. of_nat (k + 5)) demo_write (SqlitePool demo_db) = (Inr (Applied 1 1), SqlitePool db')"
    using demo_write_applied by blast
  from write_refines_map [OF demo_db_inv plain_uuid(1) w]
  have "scope_map plain_externals 1 db' = scope_map plain_externals 1 demo_db ++ input_map (ws_values demo_write)"
    by (simp add: demo_write_def)
  with w show ?thesis by (simp add: input_map_def demo_write_def map_add_def)
qed

theorem delete_refines_map_witness:
  "\<exists>db'. delete_tickr_ctx_scope_value plain_externals demo_delete (SqlitePool demo_db) = (Inr Deleted, SqlitePool db')
     \<and> scope_map plain_externals 1 db' ''a'' = None"
proof -
  obtain db' where d: "delete_tickr_ctx_scope_value plain_externals demo_delete (SqlitePool demo_db) = (Inr Deleted, SqlitePool db')"
    using demo_delete_accepted by blast
  from delete_refines_map [OF plain_uuid(1) d] d show ?thesis by (simp add: demo_delete_def)
qed

theorem read_returns_map_witness: "scope_map plain_externals 1 demo_db ''a'' = Some [1]"
  using read_returns_map [OF demo_db_inv demo_read] by (simp add: fun_eq_iff split: if_splits)

theorem snapshot_contains_values_witness:
  "\<exists>snap. fst (snapshot_tickr_ctx_scope plain_externals 1 0 (SqlitePool demo_db)) = Inr (SnapCommitted snap)
     \<and> decode_tickr_ctx_scope_snapshot snap = Inr [(''a'', [1])]"
  using snapshot_contains_values [OF demo_db_inv demo_read] by (simp add: as_bytes_def)

theorem snapshot_is_final_witness:
  "\<exists>snap pool'. snapshot_tickr_ctx_scope plain_externals 1 0 (SqlitePool demo_db) = (Inr (SnapCommitted snap), pool')
     \<and> fst (read_tickr_ctx_scope plain_externals 1 5 (run_scope plain_externals [CleanupScope 1 3] pool')) = Inr (Archived snap)"
proof -
  obtain snap pool' where s: "snapshot_tickr_ctx_scope plain_externals 1 0 (SqlitePool demo_db) = (Inr (SnapCommitted snap), pool')"
    using demo_snapshot by blast
  from snapshot_is_final [OF demo_pool_inv s, of snap 5 "[CleanupScope 1 3]"] s show ?thesis by auto
qed

theorem write_applies_once_witness:
  "\<exists>pool'. write_tickr_ctx_scope plain_externals (\<lambda>k. of_nat (k + 5)) demo_write (SqlitePool demo_db) = (Inr (Applied 1 1), pool')
     \<and> snd (write_tickr_ctx_scope plain_externals (\<lambda>k. of_nat (k + 8)) (demo_write\<lparr> ws_now := 9 \<rparr>) pool') = pool'"
proof -
  obtain db' where w: "write_tickr_ctx_scope plain_externals (\<lambda>k. of_nat (k + 5)) demo_write (SqlitePool demo_db) = (Inr (Applied 1 1), SqlitePool db')"
    using demo_write_applied by blast
  from write_applies_once [OF demo_pool_inv w, of "\<lambda>k. of_nat (k + 8)" 9 "[]"] w show ?thesis
    by (auto simp: run_scope_def)
qed

theorem run_has_one_scope_witness:
  "\<exists>pool'. create_tickr_ctx_scope plain_externals (\<lambda>k. of_nat (k + 5)) demo_create (SqlitePool demo_db) = (Inr Created, pool')
     \<and> snapshot_tickr_ctx_scope_for_run plain_externals ''n'' ''q'' 0 pool' = snapshot_tickr_ctx_scope plain_externals 3 0 pool'"
proof -
  obtain pool' where c: "create_tickr_ctx_scope plain_externals (\<lambda>k. of_nat (k + 5)) demo_create (SqlitePool demo_db) = (Inr Created, pool')"
    using demo_create_accepted by blast
  from run_has_one_scope [OF demo_pool_inv c plain_uuid(2), of pool' "[]" 0] c show ?thesis
    by (simp add: run_scope_def demo_create_def)
qed

theorem delete_taken_for_write_witness:
  "\<exists>pool'. delete_tickr_ctx_scope_value plain_externals \<lparr> ds_scope_id = 1, ds_claim_id = 4, ds_key = [CHR 0x01], ds_now = 1 \<rparr> pool'
     = (Inr DeleteIdempotent, pool')"
proof -
  obtain pool' where "write_tickr_ctx_scope plain_externals (\<lambda>k. of_nat (k + 5)) \<lparr> ws_scope_id = 1, ws_claim_id = 4,
     ws_values = [\<lparr> vi_key = ''delete'', vi_envelope = as_bytes [CHR 0x01] \<rparr>], ws_now = 0 \<rparr> (SqlitePool demo_db) = (Inr (Applied 1 0), pool')"
    using demo_write_delete_key by blast
  from delete_taken_for_write [OF demo_pool_inv _ this, of 1] show ?thesis by (auto simp: valid_key_def MAX_KEY_BYTES_def)
qed

theorem event_captures_atomic_witness:
  "\<exists>pool'. write_event_captures (create_tickr_ctx_scope plain_externals) (write_tickr_ctx_scope plain_externals) demo_captures
     (\<lambda>k. of_nat (k + 5)) 0 ''n'' 1 ''r'' 7 [\<lparr> ne_name = ''x'', ne_envelope = 2 \<rparr>] (SqlitePool demo_db) = (Inr (), pool')
     \<and> pool_entries plain_externals 1 pool' ''r/x'' = Some [2]"
proof -
  obtain pool' where w: "write_event_captures (create_tickr_ctx_scope plain_externals) (write_tickr_ctx_scope plain_externals) demo_captures
     (\<lambda>k. of_nat (k + 5)) 0 ''n'' 1 ''r'' 7 [\<lparr> ne_name = ''x'', ne_envelope = 2 \<rparr>] (SqlitePool demo_db) = (Inr (), pool')" "pool' \<noteq> SqlitePool demo_db"
    using demo_captures_written by blast
  from event_captures_atomic [OF demo_pool_inv w] have "[''r/x'' \<mapsto> [2]] \<subseteq>\<^sub>m pool_entries plain_externals 1 pool'"
    by (simp add: capture_value_def demo_captures_def sanitize_segment_def legal_segment_char_def input_map_def)
  with w show ?thesis by (auto simp: map_le_def)
qed

theorem event_captures_retry_witness:
  "\<exists>pool' r. pool' \<noteq> SqlitePool demo_db
     \<and> write_event_captures (create_tickr_ctx_scope plain_externals) (write_tickr_ctx_scope plain_externals) demo_captures
         (\<lambda>k. of_nat (k + 6)) 1 ''n'' 1 ''r'' 7 [\<lparr> ne_name = ''x'', ne_envelope = 2 \<rparr>] pool' = (Inr (), pool')
     \<and> write_event_captures (create_tickr_ctx_scope plain_externals) (write_tickr_ctx_scope plain_externals) demo_captures
         (\<lambda>k. of_nat (k + 6)) 1 ''n'' 1 ''r'' 7 [\<lparr> ne_name = ''x'', ne_envelope = 2 \<rparr>]
           (run_scope plain_externals [SnapshotScope 1 2, CleanupScope 1 3] pool')
         = (r, run_scope plain_externals [SnapshotScope 1 2, CleanupScope 1 3] pool')"
proof -
  obtain pool' where w: "write_event_captures (create_tickr_ctx_scope plain_externals) (write_tickr_ctx_scope plain_externals) demo_captures
     (\<lambda>k. of_nat (k + 5)) 0 ''n'' 1 ''r'' 7 [\<lparr> ne_name = ''x'', ne_envelope = 2 \<rparr>] (SqlitePool demo_db) = (Inr (), pool')" "pool' \<noteq> SqlitePool demo_db"
    using demo_captures_written by blast
  from event_captures_retry [OF demo_pool_inv w(1) refl, of "\<lambda>k. of_nat (k + 6)" 1 "[SnapshotScope 1 2, CleanupScope 1 3]"] w(2)
  show ?thesis by blast
qed

end
