(* ===== verification/Canonical_Json.thy ===== *)
theory Canonical_Json
  imports Json_Encoding
begin

text \<open>
  Canonical JSON text and its hash (\<^verbatim>\<open>src/src/conductor/src/canonical_json.rs\<close>). The texts of numbers and of
  strings come from \<open>serde_json\<close> and the hash function from \<open>sha2\<close>: they are fields of \<open>json_texts\<close>. An
  object is a list of entries in any order; a \<open>Map\<close> holds each key once.
\<close>

record 'n json_texts =
  jt_number :: "'n \<Rightarrow> string"
  jt_string :: "string \<Rightarrow> string"
  jt_sha256 :: "string \<Rightarrow> byte list"

fun join_commas :: "string list \<Rightarrow> string" where
  "join_commas [] = []"
| "join_commas [t] = t"
| "join_commas (t # u # ts) = t @ '','' @ join_commas (u # ts)"

text \<open>The entries in the order of the sorted keys; each text is computed on its own.\<close>

fun write_canonical :: "'n json_texts \<Rightarrow> 'n json \<Rightarrow> string" where
  "write_canonical J JNull = ''null''"
| "write_canonical J (JBool b) = (if b then ''true'' else ''false'')"
| "write_canonical J (JNumber n) = jt_number J n"
| "write_canonical J (JString s) = jt_string J s"
| "write_canonical J (JArray vs) = ''['' @ join_commas (map (write_canonical J) vs) @ '']''"
| "write_canonical J (JObject kvs) =
     CHR 0x7B # join_commas (map (\<lambda>(k, t). jt_string J k @ '':'' @ t) (sort_key fst (map (\<lambda>(k, v). (k, write_canonical J v)) kvs)))
     @ [CHR 0x7D]"

definition json_hash :: "'n json_texts \<Rightarrow> 'n json option \<Rightarrow> byte list" where
  "json_hash J v = jt_sha256 J (write_canonical J (case v of Some w \<Rightarrow> w | None \<Rightarrow> JObject []))"

section \<open>The values a text stands for\<close>

text \<open>Every object has each key once.\<close>

fun wf_json :: "'n json \<Rightarrow> bool" where
  "wf_json (JArray vs) = list_all wf_json vs"
| "wf_json (JObject kvs) = (distinct (map fst kvs) \<and> list_all (\<lambda>(_, v). wf_json v) kvs)"
| "wf_json _ = True"

text \<open>Two values are the same up to the order of the entries of objects.\<close>

inductive same_json :: "'n json \<Rightarrow> 'n json \<Rightarrow> bool" where
  same_null: "same_json JNull JNull"
| same_bool: "same_json (JBool b) (JBool b)"
| same_number: "same_json (JNumber n) (JNumber n)"
| same_string: "same_json (JString s) (JString s)"
| same_array: "list_all2 same_json vs ws \<Longrightarrow> same_json (JArray vs) (JArray ws)"
| same_object: "mset kvs = mset kvs' \<Longrightarrow> list_all2 (\<lambda>p q. fst p = fst q \<and> same_json (snd p) (snd q)) kvs' kws
    \<Longrightarrow> same_json (JObject kvs) (JObject kws)"

inductive_simps same_array_simps: "same_json (JArray vs) w"
inductive_simps same_object_simps: "same_json (JObject kvs) w"

text \<open>What the JSON grammar says of the texts of numbers and strings: a string ends at its closing quote,
  and a number is not followed by more of itself when a delimiter follows.\<close>

definition delimiters :: "char list" where
  "delimiters = [CHR '','', CHR '']'', CHR 0x7D, CHR '':'']"

definition json_grammar :: "'n json_texts \<Rightarrow> bool" where
  "json_grammar J \<longleftrightarrow> inj (jt_number J)
     \<and> (\<forall>n. \<exists>c s. jt_number J n = c # s \<and> c \<in> set ''-0123456789'')
     \<and> (\<forall>n. set (jt_number J n) \<inter> set delimiters = {})
     \<and> (\<forall>s. \<exists>t. jt_string J s = CHR 0x22 # t)
     \<and> (\<forall>a b r s. jt_string J a @ r = jt_string J b @ s \<longrightarrow> a = b)"

lemma json_grammarD:
  assumes "json_grammar J"
  shows "jt_number J m = jt_number J n \<Longrightarrow> m = n" "jt_string J a @ r = jt_string J b @ s \<Longrightarrow> a = b \<and> r = s"
proof -
  assume "jt_number J m = jt_number J n"
  moreover have "inj (jt_number J)" using assms unfolding json_grammar_def by blast
  ultimately show "m = n" by (rule injD [rotated])
next
  assume e: "jt_string J a @ r = jt_string J b @ s"
  then have "a = b" using assms unfolding json_grammar_def by blast
  then show "a = b \<and> r = s" using e by simp
qed

section \<open>Unique decoding\<close>

fun plain_text :: "'n json_texts \<Rightarrow> 'n json \<Rightarrow> string" where
  "plain_text J JNull = ''null''"
| "plain_text J (JBool b) = (if b then ''true'' else ''false'')"
| "plain_text J (JNumber n) = jt_number J n"
| "plain_text J (JString s) = jt_string J s"
| "plain_text J (JArray vs) = ''['' @ join_commas (map (plain_text J) vs) @ '']''"
| "plain_text J (JObject kvs) = CHR 0x7B # join_commas (map (\<lambda>(k, v). jt_string J k @ '':'' @ plain_text J v) kvs) @ [CHR 0x7D]"

lemma sort_key_entries: "sort_key fst (map (\<lambda>(k, v). (k, f v)) kvs) = map (\<lambda>(k, v). (k, f v)) (sort_key fst kvs)"
proof (induction kvs)
  case (Cons p kvs)
  have "insort_key fst (case p of (k, v) \<Rightarrow> (k, f v)) (map (\<lambda>(k, v). (k, f v)) xs) = map (\<lambda>(k, v). (k, f v)) (insort_key fst p xs)" for xs
    by (induction xs) (auto split: prod.splits)
  then show ?case using Cons by simp
qed simp

lemma write_plain: "write_canonical J v = plain_text J (canonical_json v)"
proof (induction v)
  case (JArray vs)
  then have "map (write_canonical J) vs = map (plain_text J \<circ> canonical_json) vs" by simp
  then show ?case by (simp del: map_eq_conv)
next
  case (JObject kvs)
  have "map (\<lambda>(k, v). (k, write_canonical J v)) kvs = map (\<lambda>(k, v). (k, plain_text J v)) (map (\<lambda>(k, v). (k, canonical_json v)) kvs)"
  proof -
    have "write_canonical J (snd p) = plain_text J (canonical_json (snd p))" if "p \<in> set kvs" for p
      using JObject [OF that, of "snd p"] by (cases p) simp
    then show ?thesis by (simp add: case_prod_unfold comp_def)
  qed
  then have "sort_key fst (map (\<lambda>(k, v). (k, write_canonical J v)) kvs) = map (\<lambda>(k, v). (k, plain_text J v)) (sort_key fst (map (\<lambda>(k, v). (k, canonical_json v)) kvs))"
    by (simp only: sort_key_entries)
  then show ?case by (simp add: comp_def case_prod_unfold)
qed simp_all

definition ends :: "string \<Rightarrow> bool" where
  "ends r \<longleftrightarrow> r = [] \<or> hd r \<in> set delimiters"

lemma number_decodes:
  assumes "json_grammar J" and "ends r" "ends s" and "jt_number J m @ r = jt_number J n @ s"
  shows "m = n \<and> r = s"
proof -
  let ?p = "\<lambda>c. c \<notin> set delimiters"
  have t: "takeWhile ?p (jt_number J k @ q) = jt_number J k" if "ends q" for k q
  proof -
    have "\<forall>c \<in> set (jt_number J k). ?p c" using assms(1) unfolding json_grammar_def by blast
    then have "takeWhile ?p (jt_number J k @ q) = jt_number J k @ takeWhile ?p q" by (simp add: takeWhile_append2)
    moreover have "takeWhile ?p q = []" using that by (cases q) (auto simp: ends_def)
    ultimately show ?thesis by simp
  qed
  then have "jt_number J m = jt_number J n" using assms(2-4) by metis
  then show ?thesis using json_grammarD(1) [OF assms(1)] assms(4) by auto
qed

text \<open>The first character of a text tells its kind.\<close>

fun json_kind :: "'n json \<Rightarrow> nat" where
  "json_kind JNull = 0"
| "json_kind (JBool b) = (if b then 1 else 2)"
| "json_kind (JNumber _) = 3"
| "json_kind (JString _) = 4"
| "json_kind (JArray _) = 5"
| "json_kind (JObject _) = 6"

definition char_kind :: "char \<Rightarrow> nat" where
  "char_kind c = (if c = CHR ''n'' then 0 else if c = CHR ''t'' then 1 else if c = CHR ''f'' then 2 else if c = CHR 0x22 then 4
     else if c = CHR ''['' then 5 else if c = CHR 0x7B then 6 else 3)"

lemma plain_text_hd:
  assumes "json_grammar J"
  shows "\<exists>c t. plain_text J v = c # t \<and> c \<notin> set delimiters \<and> char_kind c = json_kind v"
proof (cases v)
  case (JNumber n)
  obtain c s where c: "jt_number J n = c # s" "c \<in> set ''-0123456789''" using assms unfolding json_grammar_def by blast
  then have "c \<notin> set delimiters" "char_kind c = 3" by (auto simp: delimiters_def char_kind_def)
  then show ?thesis using JNumber c(1) by simp
next
  case (JString a)
  obtain t where "jt_string J a = CHR 0x22 # t" using assms unfolding json_grammar_def by blast
  then show ?thesis using JString by (simp add: delimiters_def char_kind_def)
qed (simp_all add: delimiters_def char_kind_def)

lemma plain_text_kind:
  assumes "json_grammar J" and "plain_text J v @ r = plain_text J w @ s"
  shows "json_kind v = json_kind w"
proof -
  obtain c t d u where "plain_text J v = c # t" "char_kind c = json_kind v" "plain_text J w = d # u" "char_kind d = json_kind w"
    using plain_text_hd [OF assms(1), of v] plain_text_hd [OF assms(1), of w] by blast
  then show ?thesis using assms(2) by simp
qed

definition decodes :: "('a \<Rightarrow> string) \<Rightarrow> 'a \<Rightarrow> bool" where
  "decodes f v \<longleftrightarrow> (\<forall>w r s. ends r \<longrightarrow> ends s \<longrightarrow> f v @ r = f w @ s \<longrightarrow> v = w \<and> r = s)"

lemma decodesD: "decodes f v \<Longrightarrow> ends r \<Longrightarrow> ends s \<Longrightarrow> f v @ r = f w @ s \<Longrightarrow> v = w \<and> r = s"
  by (simp add: decodes_def)

text \<open>A list of texts that decode, separated by commas and closed by a bracket.\<close>

lemma join_commas_Cons: "join_commas (t # ts) = t @ (if ts = [] then [] else '','' @ join_commas ts)"
  by (cases ts) simp_all

lemma list_decodes:
  assumes "\<And>v. v \<in> set vs \<Longrightarrow> decodes f v" and "\<And>v. \<exists>c t. f v = c # t \<and> c \<notin> set delimiters"
    and "close \<in> set delimiters" "close \<noteq> CHR '',''" and "join_commas (map f vs) @ close # r = join_commas (map f ws) @ close # s"
  shows "vs = ws \<and> r = s"
  using assms(1,5)
proof (induction vs arbitrary: ws)
  case Nil
  show ?case
  proof (cases ws)
    case (Cons w ws')
    then show ?thesis using Nil(2) assms(2) [of w] assms(3) by (auto simp: join_commas_Cons)
  qed (use Nil in simp)
next
  case (Cons v vs)
  obtain w ws' where ws: "ws = w # ws'" using Cons(3) assms(2) [of v] assms(3) by (cases ws) (auto simp: join_commas_Cons)
  let ?rest = "\<lambda>us q. (if us = [] then [] else '','' @ join_commas (map f us)) @ close # q"
  have e: "f v @ ?rest vs r = f w @ ?rest ws' s" using Cons(3) by (simp add: ws join_commas_Cons split: if_splits)
  have en: "ends (?rest us q)" for us q using assms(3) by (simp add: ends_def delimiters_def)
  have "decodes f v" using Cons(2) by simp
  from decodesD [OF this en en e] have d: "v = w" "?rest vs r = ?rest ws' s" by simp_all
  then have "join_commas (map f vs) @ close # r = join_commas (map f ws') @ close # s" using assms(4) by (auto split: if_splits)
  then have "vs = ws' \<and> r = s" using Cons(1,2) by simp
  then show ?case using ws d(1) by simp
qed

lemma entry_decodes:
  assumes "json_grammar J" and "decodes (plain_text J) (snd p)"
  shows "decodes (\<lambda>(k, v). jt_string J k @ '':'' @ plain_text J v) p"
  unfolding decodes_def
proof (intro allI impI)
  fix q r s assume e: "ends r" "ends s" "(case p of (k, v) \<Rightarrow> jt_string J k @ '':'' @ plain_text J v) @ r = (case q of (k, v) \<Rightarrow> jt_string J k @ '':'' @ plain_text J v) @ s"
  then have k: "fst p = fst q" "plain_text J (snd p) @ r = plain_text J (snd q) @ s"
    using json_grammarD(2) [OF assms(1), of "fst p" "'':'' @ plain_text J (snd p) @ r" "fst q" "'':'' @ plain_text J (snd q) @ s"]
    by (simp_all add: case_prod_unfold)
  then show "p = q \<and> r = s" using decodesD [OF assms(2) e(1,2) k(2)] by (simp add: prod_eq_iff)
qed

lemma object_decodes:
  assumes J: "json_grammar J" and "\<And>p. p \<in> set kvs \<Longrightarrow> decodes (plain_text J) (snd p)"
    and "plain_text J (JObject kvs) @ r = plain_text J (JObject kws) @ s"
  shows "kvs = kws \<and> r = s"
proof -
  let ?f = "\<lambda>(k, v). jt_string J k @ '':'' @ plain_text J v"
  have d: "decodes ?f p" if "p \<in> set kvs" for p using entry_decodes [OF J assms(2) [OF that]] .
  have h: "\<exists>c t. ?f p = c # t \<and> c \<notin> set delimiters" for p
    using plain_text_hd [OF J, of "JString (fst p)"] by (auto simp: case_prod_unfold)
  have "join_commas (map ?f kvs) @ CHR 0x7D # r = join_commas (map ?f kws) @ CHR 0x7D # s" using assms(3) by simp
  from list_decodes [OF d h _ _ this] show ?thesis by (simp add: delimiters_def)
qed

lemma plain_text_decodes:
  assumes J: "json_grammar J"
  shows "decodes (plain_text J) v"
proof (induction v)
  case (JArray vs)
  have "JArray vs = w \<and> r = s" if e: "plain_text J (JArray vs) @ r = plain_text J w @ s" for w r s
  proof -
    obtain ws where w: "w = JArray ws" using plain_text_kind [OF J e] by (cases w) (auto split: if_splits)
    have h: "\<exists>c t. plain_text J v = c # t \<and> c \<notin> set delimiters" for v using plain_text_hd [OF J, of v] by blast
    have "join_commas (map (plain_text J) vs) @ CHR '']'' # r = join_commas (map (plain_text J) ws) @ CHR '']'' # s" using e w by simp
    from list_decodes [OF JArray h _ _ this] show ?thesis using w by (simp add: delimiters_def)
  qed
  then show ?case unfolding decodes_def by blast
next
  case (JObject kvs)
  have "JObject kvs = w \<and> r = s" if e: "plain_text J (JObject kvs) @ r = plain_text J w @ s" for w r s
  proof -
    obtain kws where w: "w = JObject kws" using plain_text_kind [OF J e] by (cases w) (auto split: if_splits)
    have "decodes (plain_text J) (snd p)" if "p \<in> set kvs" for p using JObject [OF that, of "snd p"] by (cases p) simp
    from object_decodes [OF J this e [unfolded w]] show ?thesis using w by simp
  qed
  then show ?case unfolding decodes_def by blast
next
  case (JNumber n)
  have "JNumber n = w \<and> r = s" if e: "ends r" "ends s" "plain_text J (JNumber n) @ r = plain_text J w @ s" for w r s
    using plain_text_kind [OF J e(3)] number_decodes [OF J e(1,2), of n] e(3) by (cases w) (auto split: if_splits)
  then show ?case unfolding decodes_def by blast
next
  case (JString a)
  have "JString a = w \<and> r = s" if e: "plain_text J (JString a) @ r = plain_text J w @ s" for w r s
    using plain_text_kind [OF J e] json_grammarD(2) [OF J, of a r] e by (cases w) (auto split: if_splits)
  then show ?case unfolding decodes_def by blast
next
  case JNull
  have "JNull = w \<and> r = s" if e: "plain_text J JNull @ r = plain_text J w @ s" for w r s
    using plain_text_kind [OF J e] e by (cases w) (auto split: if_splits)
  then show ?case unfolding decodes_def by blast
next
  case (JBool b)
  have "JBool b = w \<and> r = s" if e: "plain_text J (JBool b) @ r = plain_text J w @ s" for w r s
    using plain_text_kind [OF J e] e by (cases w) (auto split: if_splits)
  then show ?case unfolding decodes_def by blast
qed

lemma write_canonical_eq:
  assumes "json_grammar J"
  shows "write_canonical J v = write_canonical J w \<longleftrightarrow> canonical_json v = canonical_json w"
  using decodesD [OF plain_text_decodes [OF assms], of "[]" "[]" "canonical_json v" "canonical_json w"]
  by (auto simp: write_plain ends_def)

section \<open>Same values\<close>

lemma sort_key_unique:
  assumes "mset xs = mset ys" and "distinct (map fst xs)"
  shows "sort_key fst xs = sort_key fst (ys :: ('a :: linorder \<times> 'b) list)"
proof -
  have "distinct (map fst ys)" using assms by (metis mset_eq_imp_distinct_iff mset_map)
  then have d: "distinct (map fst (sort_key fst ys))" "distinct (map fst (sort_key fst xs))" using assms(2)
    by (metis mset_eq_imp_distinct_iff mset_map mset_sort)+
  have s: "set xs = set ys" using assms(1) by (rule mset_eq_setD)
  have "inj_on fst (set xs)" using assms(2) by (simp add: distinct_map)
  then show ?thesis using d s by (intro map_sorted_distinct_set_unique [of fst]) simp_all
qed

lemma canonical_object:
  assumes "wf_json (JObject kvs)" and "mset kvs = mset kvs'" and "list_all2 (\<lambda>p q. fst p = fst q \<and> canonical_json (snd p) = canonical_json (snd q)) kvs' kws"
  shows "canonical_json (JObject kvs) = canonical_json (JObject kws)"
proof -
  let ?c = "\<lambda>(k, v). (k, canonical_json v)"
  have "sort_key fst kvs = sort_key fst kvs'" by (rule sort_key_unique [OF assms(2)]) (use assms(1) in simp)
  then have "sort_key fst (map ?c kvs) = sort_key fst (map ?c kvs')" by (simp add: sort_key_entries)
  moreover have "map ?c kvs' = map ?c kws" using assms(3) by (induction rule: list_all2_induct) (auto split: prod.splits)
  ultimately show ?thesis by simp
qed

lemma wf_json_entries: "wf_json (JObject kvs) \<Longrightarrow> p \<in> set kvs \<Longrightarrow> wf_json (snd p)"
  by (auto simp: list_all_iff)

lemma same_json_canonical: "same_json v w \<Longrightarrow> wf_json v \<Longrightarrow> wf_json w \<Longrightarrow> canonical_json v = canonical_json w"
proof (induction rule: same_json.induct)
  case (same_array vs ws)
  have "list_all2 (\<lambda>x y. canonical_json x = canonical_json y) vs ws"
    using same_array by (auto simp: list_all2_conv_all_nth list_all_length)
  then show ?case by (induction rule: list_all2_induct) simp_all
next
  case (same_object kvs kvs' kws)
  have wf: "wf_json (snd p)" if "p \<in> set kvs'" for p using wf_json_entries [OF same_object(3)] mset_eq_setD [OF same_object(1)] that by simp
  have "list_all2 (\<lambda>p q. fst p = fst q \<and> canonical_json (snd p) = canonical_json (snd q)) kvs' kws"
    using same_object(2) by (rule list.rel_mono_strong) (use wf wf_json_entries [OF same_object(4)] in auto)
  then show ?case by (rule canonical_object [OF same_object(3,1)])
qed simp_all

lemma map_eq_list_all2: "map f xs = map f ys \<Longrightarrow> list_all2 (\<lambda>x y. f x = f y) xs ys"
  by (induction xs arbitrary: ys) (auto simp: Cons_eq_map_conv)

lemma reorder_left:
  assumes "list_all2 R xs ys" and "mset ys' = mset ys"
  shows "\<exists>xs'. list_all2 R xs' ys' \<and> mset xs' = mset xs"
  using list_all2_reorder_left_invariance [of "\<lambda>y x. R x y" ys xs ys'] assms by (simp add: list_all2_conv_all_nth) metis

lemma canonical_same_json: "canonical_json v = canonical_json w \<Longrightarrow> same_json v w"
proof (induction v arbitrary: w)
  case (JArray vs)
  obtain ws where w: "w = JArray ws" "map canonical_json vs = map canonical_json ws" using JArray(2) by (cases w) auto
  have "list_all2 same_json vs ws" using JArray(1) w(2) by (auto simp: list_all2_conv_all_nth list_eq_iff_nth_eq)
  then show ?case using w(1) by (simp add: same_array)
next
  case (JObject kvs)
  let ?c = "\<lambda>(k, v). (k, canonical_json v)"
  obtain kws where w: "w = JObject kws" "map ?c (sort_key fst kvs) = map ?c (sort_key fst kws)"
    using JObject(2) by (cases w) (auto simp: sort_key_entries)
  have "fst p = fst q \<and> same_json (snd p) (snd q)" if "?c p = ?c q" "p \<in> set kvs" for p q
    using that JObject(1) [OF that(2), of "snd p" "snd q"] by (cases p, cases q) auto
  moreover have "list_all2 (\<lambda>p q. ?c p = ?c q) (sort_key fst kvs) (sort_key fst kws)" using w(2) by (rule map_eq_list_all2)
  ultimately have l: "list_all2 (\<lambda>p q. fst p = fst q \<and> same_json (snd p) (snd q)) (sort_key fst kvs) (sort_key fst kws)"
    by (elim list.rel_mono_strong) simp
  obtain xs where "list_all2 (\<lambda>p q. fst p = fst q \<and> same_json (snd p) (snd q)) xs kws" "mset kvs = mset xs"
    using reorder_left [OF l, of kws] by auto
  then show ?case using w(1) same_object [of kvs xs kws] by simp
next
  case JNull
  then show ?case by (cases w) (auto intro: same_json.intros)
next
  case (JBool b)
  then show ?case by (cases w) (auto intro: same_json.intros)
next
  case (JNumber n)
  then show ?case by (cases w) (auto intro: same_json.intros)
next
  case (JString a)
  then show ?case by (cases w) (auto intro: same_json.intros)
qed

section \<open>Properties\<close>

text \<open>C40. Two JSON values have the same canonical text exactly when they are the same up to the order of the
  entries of their objects, so the input of the hash identifies a value.\<close>

theorem canonical_text_identifies:
  assumes "json_grammar J" and "wf_json v" and "wf_json w"
  shows "write_canonical J v = write_canonical J w \<longleftrightarrow> same_json v w"
  using write_canonical_eq [OF assms(1), of v w] same_json_canonical [of v w] canonical_same_json [of v w] assms(2,3) by blast

section \<open>An instance of the texts\<close>

definition plain_texts :: "nat json_texts" where
  "plain_texts = \<lparr> jt_number = (\<lambda>n. CHR ''0'' # replicate n (CHR ''1'')),
     jt_string = (\<lambda>s. CHR 0x22 # replicate (length s) (CHR ''x'') @ CHR 0x22 # s),
     jt_sha256 = (\<lambda>s. map (\<lambda>c. of_nat (of_char c)) s) \<rparr>"

lemma marked_length:
  assumes "replicate m x @ y # r = replicate n x @ y # s" and "x \<noteq> y"
  shows "m = n \<and> r = s"
  using assms(1)
proof (induction m arbitrary: n)
  case 0
  then show ?case using assms(2) by (cases n) auto
next
  case (Suc m)
  then show ?case using assms(2) by (cases n) auto
qed

lemma plain_texts_grammar: "json_grammar plain_texts"
proof -
  have "a = b" if e: "jt_string plain_texts a @ r = jt_string plain_texts b @ s" for a b r s
  proof -
    have "length a = length b \<and> a @ r = b @ s"
      using e marked_length [of "length a" "CHR ''x''" "CHR 0x22" "a @ r" "length b" "b @ s"] by (simp add: plain_texts_def)
    then show ?thesis using append_eq_append_conv [of a b r s] by blast
  qed
  moreover have "inj (jt_number plain_texts)" by (auto simp: inj_def plain_texts_def dest: arg_cong [of _ _ length])
  moreover have "\<exists>c s. jt_number plain_texts n = c # s \<and> c \<in> set ''-0123456789''" for n by (simp add: plain_texts_def)
  moreover have "set (jt_number plain_texts n) \<inter> set delimiters = {}" for n by (auto simp: plain_texts_def delimiters_def set_replicate_conv_if)
  moreover have "\<exists>t. jt_string plain_texts s = CHR 0x22 # t" for s by (simp add: plain_texts_def)
  ultimately show ?thesis unfolding json_grammar_def by blast
qed

lemma plain_texts_entries:
  "write_canonical plain_texts (JObject [(''a'', JNumber 1), (''b'', JNull)]) = write_canonical plain_texts (JObject [(''b'', JNull), (''a'', JNumber 1)])"
  by code_simp

theorem canonical_text_identifies_witness:
  "same_json (JObject [(''a'', JNumber 1), (''b'', JNull)]) (JObject [(''b'', JNull), (''a'', JNumber (1 :: nat))])
   \<and> \<not> same_json (JNumber 1) (JNumber (2 :: nat))"
proof -
  have "write_canonical plain_texts (JNumber 1) \<noteq> write_canonical plain_texts (JNumber 2)" by code_simp
  then show ?thesis
    using canonical_text_identifies [OF plain_texts_grammar, of "JNumber 1" "JNumber 2"] plain_texts_entries
      canonical_text_identifies [OF plain_texts_grammar, of "JObject [(''a'', JNumber 1), (''b'', JNull)]" "JObject [(''b'', JNull), (''a'', JNumber 1)]"]
    by simp
qed

end
