(* ===== verification/Workflow_Messages.thy ===== *)
theory Workflow_Messages
  imports Tickr_Prelude
begin

text \<open>
  The messages of \<^verbatim>\<open>src/proto/workflow-definition.proto\<close>, as the generated Rust types have them: an
  optional or nested message is an option, a \<open>oneof\<close> is an option of a datatype, an enumeration is the
  number of the wire. A wrapper message with a single \<open>oneof\<close> is the option of that \<open>oneof\<close>.
\<close>

section \<open>Gates\<close>

record wf_duration =
  du_secs :: nat
  du_nanos :: nat

datatype capture_source = CaptureTrigger (cs_jsonpath: string)

record capture_declaration =
  cd_name :: string
  cd_from :: "capture_source option option"

datatype routing_value =
    StringValue string
  | IntValue int
  | BoolValue bool
  | BytesValue bytes

record signal_received =
  sr_signal_name :: string
  sr_predicate :: "string option"
  sr_captures_spec :: "capture_declaration list"
  sr_timeout :: "wf_duration option"

record predicate_holds =
  ph_routing_var :: string
  ph_op :: int
  ph_value :: "routing_value option option"
  ph_timeout :: "wf_duration option"

record timer_elapsed =
  te_duration :: "wf_duration option"

datatype gate_kind =
    SignalReceived signal_received
  | PredicateHolds predicate_holds
  | TimerElapsed timer_elapsed

type_synonym gate = "gate_kind option"

section \<open>Graphs\<close>

record edge =
  ge_id :: string
  ge_sources :: "string list"
  ge_targets :: "string list"
  ge_kind :: int
  ge_gates :: "gate list"

record graph_node =
  gn_id :: string
  gn_node_type :: int

record task_graph =
  tg_nodes :: "graph_node list"
  tg_edges :: "edge list"
  tg_start :: string
  tg_end :: string

text \<open>\<open>EdgeKind\<close>, \<open>NodeType\<close> and \<open>ComparisonOp\<close>.\<close>

definition EDGE_KIND_CONTROL :: int where "EDGE_KIND_CONTROL = 0"

definition EDGE_KIND_DATA :: int where "EDGE_KIND_DATA = 1"

definition EDGE_KIND_LOOP :: int where "EDGE_KIND_LOOP = 2"

definition NODE_TYPE_START :: int where "NODE_TYPE_START = 0"

definition NODE_TYPE_END :: int where "NODE_TYPE_END = 1"

definition NODE_TYPE_TASK :: int where "NODE_TYPE_TASK = 2"

definition comparison_ops :: "(string \<times> int) list" where
  "comparison_ops = [(''Eq'', 0), (''NotEq'', 1), (''Lt'', 2), (''Le'', 3), (''Gt'', 4), (''Ge'', 5)]"

section \<open>Tasks\<close>

datatype input_source =
    TaskSource string
  | TriggerSource
  | SignalSource string string

datatype signal_emit =
    OnSuccess string string
  | OnFailure string

record routing_var_decl =
  rd_name :: string
  rd_var_type :: "string option"

text \<open>The input slots: \<open>None\<close> when \<open>input_sources\<close> is absent; a slot is an \<open>OptionalInputSource\<close> whose
  source, and whose \<open>oneof\<close>, may be absent.\<close>

record task_definition =
  td_id :: string
  td_workflow_id :: string
  td_name :: string
  td_task_type :: int
  td_nix_expression_path :: string
  td_nix_args :: "string list"
  td_outputs :: "string list"
  td_inputs :: "string list"
  td_secrets :: "string list"
  td_max_attempts :: nat
  td_input_sources :: "input_source option option list option"
  td_timeout_secs :: "nat option"
  td_emits :: "signal_emit option list"
  td_routing_vars :: "routing_var_decl list"
  td_loop_participant :: bool

definition TASK_TYPE_REGULAR :: int where "TASK_TYPE_REGULAR = 0"

text \<open>The default message.\<close>

definition default_task :: task_definition where
  "default_task = \<lparr> td_id = [], td_workflow_id = [], td_name = [], td_task_type = TASK_TYPE_REGULAR, td_nix_expression_path = [],
     td_nix_args = [], td_outputs = [], td_inputs = [], td_secrets = [], td_max_attempts = 0, td_input_sources = None,
     td_timeout_secs = None, td_emits = [], td_routing_vars = [], td_loop_participant = False \<rparr>"

section \<open>Workflows\<close>

record waits_on_signal_config =
  ww_signal_name :: string
  ww_predicate :: "string option"
  ww_captures :: "capture_declaration list"

datatype trigger_kind =
    Cron string
  | FireNow
  | WaitsOnSignal waits_on_signal_config

record workflow_definition =
  wd_id :: string
  wd_tenant_id :: string
  wd_namespace :: string
  wd_slug :: string
  wd_name :: string
  wd_version :: int
  wd_tasks :: "task_definition list"
  wd_task_graph :: "task_graph option"
  wd_trigger :: "trigger_kind option option"
  wd_status :: int
  wd_captures :: "capture_declaration list"
  wd_timeout_secs :: "nat option"
  wd_tags :: "(string \<times> string) list"

definition WORKFLOW_STATUS_INACTIVE :: int where "WORKFLOW_STATUS_INACTIVE = 0"

end
