(* ===== verification/Content_Hash.thy ===== *)
theory Content_Hash
  imports Canonical_Json Sha256 Workflow_Messages
begin

text \<open>
  The content hash of a workflow definition (\<^verbatim>\<open>src/src/conductor/src/content_hash.rs\<close>), from which versions are
  assigned. The conversions of generated messages and of numbers to JSON values, and the text that
  \<open>Display\<close> gives for a value, are fields of \<open>content_externals\<close>; \<open>to_value\<close> may fail, in which case
  the code takes \<open>Null\<close>.
\<close>

record 'n content_externals =
  ce_texts :: "'n json_texts"
  ce_number :: "int \<Rightarrow> 'n"
  ce_display :: "'n json \<Rightarrow> string"
  ce_gate :: "gate \<Rightarrow> 'n json option"
  ce_trigger :: "trigger_kind option option \<Rightarrow> 'n json option"
  ce_captures :: "capture_declaration list \<Rightarrow> 'n json option"
  ce_routing_vars :: "routing_var_decl list \<Rightarrow> 'n json option"
  ce_emits :: "signal_emit option list \<Rightarrow> 'n json option"
  ce_tags :: "(string \<times> string) list \<Rightarrow> 'n json option"

definition or_null :: "'n json option \<Rightarrow> 'n json" where
  "or_null v = (case v of Some w \<Rightarrow> w | None \<Rightarrow> JNull)"

definition hex_text :: "byte list \<Rightarrow> string" where
  "hex_text bs = concat (map (\<lambda>b. [hex_digit (drop_bit 4 b), hex_digit (b AND 0x0f)]) bs)"

definition json_strings :: "string list \<Rightarrow> 'n json" where
  "json_strings ss = JArray (map JString ss)"

definition optional_number :: "'n content_externals \<Rightarrow> nat option \<Rightarrow> 'n json" where
  "optional_number E n = (case n of None \<Rightarrow> JNull | Some m \<Rightarrow> JNumber (ce_number E (int m)))"

section \<open>Tasks\<close>

fun normalize_slot :: "input_source option option \<Rightarrow> 'n json" where
  "normalize_slot (Some (Some (TaskSource name))) = JObject [(''task'', JString name)]"
| "normalize_slot (Some (Some TriggerSource)) = JObject [(''trigger'', JObject [])]"
| "normalize_slot (Some (Some (SignalSource signal_name _))) = JObject [(''signal_name'', JString signal_name)]"
| "normalize_slot _ = JNull"

definition normalize_input_sources :: "input_source option option list option \<Rightarrow> 'n json" where
  "normalize_input_sources l = (case l of None \<Rightarrow> JNull | Some slots \<Rightarrow> JArray (map normalize_slot slots))"

definition project_task :: "'n content_externals \<Rightarrow> task_definition \<Rightarrow> 'n json" where
  "project_task E t = JObject
     [(''name'', JString (td_name t)), (''task_type'', JNumber (ce_number E (td_task_type t))),
      (''nix_expression_path'', JString (td_nix_expression_path t)), (''nix_args'', json_strings (td_nix_args t)),
      (''inputs'', json_strings (td_inputs t)), (''input_sources'', normalize_input_sources (td_input_sources t)),
      (''outputs'', json_strings (td_outputs t)), (''secrets'', json_strings (td_secrets t)),
      (''max_attempts'', JNumber (ce_number E (int (td_max_attempts t)))), (''routing_vars'', or_null (ce_routing_vars E (td_routing_vars t))),
      (''emits'', or_null (ce_emits E (td_emits t))), (''timeout_secs'', optional_number E (td_timeout_secs t)),
      (''loop_participant'', JBool (td_loop_participant t))]"

text \<open>\<open>task_name\<close>, the sort key.\<close>

fun task_name :: "'n json \<Rightarrow> string" where
  "task_name (JObject kvs) = (case map_of kvs ''name'' of Some (JString s) \<Rightarrow> s | _ \<Rightarrow> [])"
| "task_name _ = []"

section \<open>Edges\<close>

text \<open>Later insertions win: the end, the start, then the tasks from the last to the first.\<close>

definition node_labels :: "task_definition list \<Rightarrow> task_graph \<Rightarrow> (string \<times> string) list" where
  "node_labels tasks g = (tg_end g, CHR 0x00 # ''end'') # (tg_start g, CHR 0x00 # ''start'') # rev (map (\<lambda>t. (td_id t, td_name t)) tasks)"

definition label_of :: "(string \<times> string) list \<Rightarrow> string \<Rightarrow> string" where
  "label_of labels i = (case map_of labels i of Some l \<Rightarrow> l | None \<Rightarrow> CHR 0x00 # ''unknown'')"

definition project_edge :: "'n content_externals \<Rightarrow> (string \<times> string) list \<Rightarrow> edge \<Rightarrow> 'n json" where
  "project_edge E labels e = JObject
     [(''sources'', json_strings (sort (map (label_of labels) (ge_sources e)))),
      (''targets'', json_strings (sort (map (label_of labels) (ge_targets e)))),
      (''kind'', JNumber (ce_number E (ge_kind e))), (''gates'', JArray (map (\<lambda>gt. or_null (ce_gate E gt)) (ge_gates e)))]"

section \<open>Definitions\<close>

definition project_content :: "'n content_externals \<Rightarrow> workflow_definition \<Rightarrow> 'n json" where
  "project_content E def =
     (let g = (case wd_task_graph def of Some g \<Rightarrow> g | None \<Rightarrow> \<lparr> tg_nodes = [], tg_edges = [], tg_start = [], tg_end = [] \<rparr>);
          labels = node_labels (wd_tasks def) g
      in JObject
        [(''tasks'', JArray (sort_key task_name (map (project_task E) (wd_tasks def)))),
         (''edges'', JArray (sort_key (ce_display E) (map (project_edge E labels) (tg_edges g)))),
         (''trigger'', or_null (ce_trigger E (wd_trigger def))), (''captures'', or_null (ce_captures E (wd_captures def))),
         (''timeout_secs'', optional_number E (wd_timeout_secs def))])"

definition content_hash :: "'n content_externals \<Rightarrow> workflow_definition \<Rightarrow> string" where
  "content_hash E def = hex_text (json_hash (ce_texts E) (Some (project_content E def)))"

definition cosmetic_hash :: "'n content_externals \<Rightarrow> workflow_definition \<Rightarrow> string" where
  "cosmetic_hash E def = hex_text (json_hash (ce_texts E) (Some (JObject [(''name'', JString (wd_name def)), (''tags'', or_null (ce_tags E (wd_tags def)))])))"

end
