(* ===== verification/Parsed_Workflow.thy ===== *)
theory Parsed_Workflow
  imports Json_Encoding
begin

text \<open>
  The shape in which the authoring language hands a workflow to the conductor
  (\<^verbatim>\<open>src/src/conductor/src/parser/types.rs\<close>), after \<open>serde_json\<close> has read it. A \<open>HashMap\<close> of tags is the list
  of its entries in some order, on which nothing depends (\<open>cosmetic_hash_tag_order\<close> in \<open>Content_Properties\<close>).
\<close>

record parsed_signal_ref =
  psr_name :: string

datatype parsed_capture_source = PCaptureTrigger string

record parsed_capture_declaration =
  pcd_name :: string
  pcd_from :: parsed_capture_source

section \<open>Tasks\<close>

datatype 'n parsed_input_source =
    PTask string
  | PTrigger "'n json"
  | PSignal "'n json"

datatype 'n parsed_input_binding =
    Bare string
  | Structured string "'n parsed_input_source"

fun binding_name :: "'n parsed_input_binding \<Rightarrow> string" where
  "binding_name (Bare s) = s"
| "binding_name (Structured n _) = n"

datatype parsed_signal_emit =
    PSignalEmit parsed_signal_ref string
  | PSignalEmitOnFailure parsed_signal_ref

record parsed_routing_var =
  prv_name :: string
  prv_kind :: "string option"
  prv_var_type :: "string option"

record 'n parsed_task =
  pt_name :: string
  pt_args :: "string list"
  pt_nix_expression_path :: "string option"
  pt_outputs :: "string list"
  pt_inputs :: "'n parsed_input_binding list"
  pt_secrets :: "string list"
  pt_max_attempts :: "nat option"
  pt_routing_vars :: "parsed_routing_var list"
  pt_emits :: "parsed_signal_emit list"
  pt_timeout :: "string option"

section \<open>Edges and gates\<close>

record parsed_timer_gate =
  ptg_duration :: string

record parsed_signal_gate =
  psg_signal :: parsed_signal_ref
  psg_predicate :: "string option"
  psg_captures :: "parsed_capture_declaration list"
  psg_timeout :: "string option"

record 'n parsed_predicate_gate =
  ppg_routing_var :: string
  ppg_op :: string
  ppg_value :: "'n json"
  ppg_timeout :: "string option"

datatype 'n parsed_gate =
    SignalGate parsed_signal_gate
  | PredicateGate "'n parsed_predicate_gate"
  | TimerGate parsed_timer_gate

record 'n parsed_edge =
  pe_sources :: "string list"
  pe_targets :: "string list"
  pe_kind :: "string option"
  pe_gate :: "'n parsed_gate option"

record 'n parsed_task_group =
  pgr_name :: string
  pgr_tasks :: "'n parsed_task list"
  pgr_args :: "string list"
  pgr_outputs :: "string list"
  pgr_edges :: "'n parsed_edge list"
  pgr_max_iterations :: "nat option"

section \<open>Workflows\<close>

datatype parsed_trigger_config =
    PCron string
  | PFireNow
  | PWaitsOnSignal parsed_signal_ref "string option" "parsed_capture_declaration list"

record 'n parsed_workflow =
  pw_slug :: string
  pw_name :: string
  pw_args :: "string list"
  pw_outputs :: "string list"
  pw_tasks :: "'n parsed_task_group list"
  pw_captures :: "parsed_capture_declaration list"
  pw_tags :: "(string \<times> string) list"
  pw_trigger_on :: "parsed_trigger_config option"
  pw_timeout :: "string option"

end
