(* ===== verification/Parser_Duration.thy ===== *)
theory Parser_Duration
  imports Tickr_Prelude
begin

text \<open>
  Durations of the authoring language (\<^verbatim>\<open>src/src/conductor/src/parser/duration.rs\<close>) and what it needs of
  Rust's strings. Strings are UTF-8 bytes: \<open>trim\<close> removes the encodings of Unicode's white space, and a
  character that is no ASCII digit starts with a byte that is none.
\<close>

section \<open>Strings of the standard library\<close>

text \<open>The characters with the property \<open>White_Space\<close>, encoded.\<close>

definition white_spaces :: "string list" where
  "white_spaces =
     [[CHR 0x09], [CHR 0x0A], [CHR 0x0B], [CHR 0x0C], [CHR 0x0D], [CHR 0x20], [CHR 0xC2, CHR 0x85], [CHR 0xC2, CHR 0xA0],
      [CHR 0xE1, CHR 0x9A, CHR 0x80]] @
     map (\<lambda>b. [CHR 0xE2, CHR 0x80, b])
       [CHR 0x80, CHR 0x81, CHR 0x82, CHR 0x83, CHR 0x84, CHR 0x85, CHR 0x86, CHR 0x87, CHR 0x88, CHR 0x89, CHR 0x8A,
        CHR 0xA8, CHR 0xA9, CHR 0xAF] @
     [[CHR 0xE2, CHR 0x81, CHR 0x9F], [CHR 0xE3, CHR 0x80, CHR 0x80]]"

definition starts_with_str :: "string \<Rightarrow> string \<Rightarrow> bool" where
  "starts_with_str s p \<longleftrightarrow> take (length p) s = p"

function strip_leading :: "string list \<Rightarrow> string \<Rightarrow> string" where
  "strip_leading ws s =
     (case find (\<lambda>w. w \<noteq> [] \<and> starts_with_str s w) ws of
        None \<Rightarrow> s
      | Some w \<Rightarrow> strip_leading ws (drop (length w) s))"
  by pat_completeness auto
termination
proof (relation "measure (\<lambda>(ws, s). length s)")
  fix ws :: "string list" and s w
  assume "find (\<lambda>w. w \<noteq> [] \<and> starts_with_str s w) ws = Some w"
  then have "w \<noteq> []" "take (length w) s = w" by (auto simp: find_Some_iff starts_with_str_def)
  then have "s \<noteq> []" "w \<noteq> []" by auto
  then show "((ws, drop (length w) s), ws, s) \<in> measure (\<lambda>(ws, s). length s)" by simp
qed simp

declare strip_leading.simps [simp del]

definition trim :: "string \<Rightarrow> string" where
  "trim s = rev (strip_leading (map rev white_spaces) (rev (strip_leading white_spaces s)))"

definition is_ascii_digit :: "char \<Rightarrow> bool" where
  "is_ascii_digit c \<longleftrightarrow> 48 \<le> (of_char c :: nat) \<and> (of_char c :: nat) \<le> 57"

text \<open>\<open>parse::<u64>\<close> of a text of digits.\<close>

definition decimal :: "string \<Rightarrow> nat" where
  "decimal s = foldl (\<lambda>v c. 10 * v + (of_char c - 48)) 0 s"

definition parse_u64 :: "string \<Rightarrow> nat option" where
  "parse_u64 s = (if s = [] \<or> u64_max < decimal s then None else Some (decimal s))"

text \<open>The bound is compared in binary when the definitions are evaluated.\<close>

lemma u64_max_less [code_unfold]: "u64_max < n \<longleftrightarrow> 18446744073709551615 < int n"
  unfolding u64_max_def by simp

lemma le_u64_max [code_unfold]: "n \<le> u64_max \<longleftrightarrow> int n \<le> 18446744073709551615"
  unfolding u64_max_def by simp

section \<open>parse\_duration\<close>

datatype parse_duration_error =
    DurationEmpty
  | NotANumber string
  | DurationOverflow string
  | NonPositive string
  | UnknownUnit string string

text \<open>The result is the number of whole seconds.\<close>

definition parse_duration :: "string \<Rightarrow> parse_duration_error + nat" where
  "parse_duration s =
     (let trimmed = trim s;
          num_part = takeWhile is_ascii_digit trimmed;
          unit_part = dropWhile is_ascii_digit trimmed
      in if trimmed = [] then Inl DurationEmpty
         else if num_part = [] then Inl (NotANumber s)
         else (case parse_u64 num_part of
             None \<Rightarrow> Inl (NotANumber s)
           | Some value \<Rightarrow>
               if value = 0 then Inl (NonPositive s)
               else if unit_part = [] \<or> unit_part = ''s'' then Inr value
               else if unit_part = ''m''
               then (case checked_mul_u64 value 60 of None \<Rightarrow> Inl (DurationOverflow s) | Some n \<Rightarrow> Inr n)
               else if unit_part = ''h''
               then (case checked_mul_u64 value 3600 of None \<Rightarrow> Inl (DurationOverflow s) | Some n \<Rightarrow> Inr n)
               else Inl (UnknownUnit s unit_part)))"

section \<open>The grammar\<close>

text \<open>The seconds of a unit.\<close>

fun unit_seconds :: "string \<Rightarrow> nat option" where
  "unit_seconds [] = Some 1"
| "unit_seconds [c] = (if c = CHR ''s'' then Some 1 else if c = CHR ''m'' then Some 60 else if c = CHR ''h'' then Some 3600 else None)"
| "unit_seconds _ = None"

lemma unit_seconds_simps:
  "unit_seconds u = Some f \<longleftrightarrow> (u = [] \<or> u = ''s'') \<and> f = 1 \<or> u = ''m'' \<and> f = 60 \<or> u = ''h'' \<and> f = 3600"
  by (induction u rule: unit_seconds.induct) auto

lemma unit_no_digit: "unit_seconds u = Some f \<Longrightarrow> u = [] \<or> \<not> is_ascii_digit (hd u)"
  by (auto simp: unit_seconds_simps is_ascii_digit_def)

lemma split_digits:
  assumes "list_all is_ascii_digit ds" and "u = [] \<or> \<not> is_ascii_digit (hd u)"
  shows "takeWhile is_ascii_digit (ds @ u) = ds" "dropWhile is_ascii_digit (ds @ u) = u"
  using assms by (induction ds) (cases u, auto)+

text \<open>A duration denotes \<open>n\<close> seconds: digits for a positive number, and a unit, without overflow.\<close>

definition denotes :: "string \<Rightarrow> nat \<Rightarrow> bool" where
  "denotes s n \<longleftrightarrow> (\<exists>ds u f. trim s = ds @ u \<and> ds \<noteq> [] \<and> list_all is_ascii_digit ds \<and> unit_seconds u = Some f
     \<and> 0 < decimal ds \<and> n = decimal ds * f \<and> n \<le> u64_max)"

section \<open>Properties\<close>

text \<open>C39. A duration is accepted with \<open>n\<close> seconds exactly when it is, up to surrounding white space, a
  positive decimal number followed by nothing, \<open>s\<close>, \<open>m\<close> or \<open>h\<close>, and \<open>n\<close> is that number of units and
  fits 64 bits.\<close>

theorem parse_duration_correct: "parse_duration s = Inr n \<longleftrightarrow> denotes s n"
proof
  assume p: "parse_duration s = Inr n"
  let ?d = "takeWhile is_ascii_digit (trim s)" and ?u = "dropWhile is_ascii_digit (trim s)"
  have "list_all is_ascii_digit ?d" by (auto simp: list_all_iff dest: set_takeWhileD)
  moreover have "trim s = ?d @ ?u" by simp
  moreover have "?d \<noteq> []" "0 < decimal ?d"
    using p by (auto simp: parse_duration_def Let_def parse_u64_def split: if_splits option.splits)
  moreover have "\<exists>f. unit_seconds ?u = Some f \<and> n = decimal ?d * f \<and> n \<le> u64_max"
    using p by (auto simp: parse_duration_def Let_def parse_u64_def checked_mul_u64_def unit_seconds_simps split: if_splits option.splits)
  ultimately show "denotes s n" unfolding denotes_def by blast
next
  assume "denotes s n"
  then obtain ds u f where d: "trim s = ds @ u" "ds \<noteq> []" "list_all is_ascii_digit ds" "unit_seconds u = Some f"
    "0 < decimal ds" "n = decimal ds * f" "n \<le> u64_max" unfolding denotes_def by blast
  have "decimal ds \<le> u64_max" using d(4,6,7) by (auto simp: unit_seconds_simps)
  then show "parse_duration s = Inr n"
    using d split_digits [OF d(3) unit_no_digit [OF d(4)]]
    by (auto simp: parse_duration_def Let_def parse_u64_def checked_mul_u64_def unit_seconds_simps)
qed

end
