(* ===== verification/Definition_Graph.thy ===== *)
theory Definition_Graph
  imports Workflow_Messages
begin

text \<open>
  Workflow-definition graphs (\<^verbatim>\<open>src/src/conductor/src/definition_graph.rs\<close>, over the messages of
  \<^verbatim>\<open>src/proto/workflow-definition.proto\<close>): breadth-first search, dominance of edges and of tasks, and
  the resolution of signal inputs. A loop that follows a map is a \<open>partial_function\<close>, so that not returning is the value None; the theorems
  say that it returns.
\<close>

section \<open>Adjacency\<close>

text \<open>A map from nodes to vectors of neighbours, filled by pushing pairs: the list of the pairs.\<close>

type_synonym adjacency = "(string \<times> string) list"

definition neighbours :: "adjacency \<Rightarrow> string \<Rightarrow> string list" where
  "neighbours adj n = map snd (filter (\<lambda>p. fst p = n) adj)"

lemma neighbours_iff: "m \<in> set (neighbours adj n) \<longleftrightarrow> (n, m) \<in> set adj"
  by (force simp: neighbours_def)

section \<open>bfs\_witness\<close>

record bfs =
  b_visited :: "string set"
  b_parent :: "string \<rightharpoonup> string"
  b_queue :: "string list"

text \<open>The loop over the neighbours of a node.\<close>

fun bfs_visit :: "string \<Rightarrow> string list \<Rightarrow> bfs \<Rightarrow> bfs" where
  "bfs_visit node [] b = b"
| "bfs_visit node (m # ms) b =
     (if m \<in> b_visited b then bfs_visit node ms b
      else bfs_visit node ms (b\<lparr> b_visited := insert m (b_visited b), b_parent := (b_parent b)(m \<mapsto> node),
                                 b_queue := b_queue b @ [m] \<rparr>))"

definition unvisited :: "adjacency \<Rightarrow> bfs \<Rightarrow> nat" where
  "unvisited adj b = card (set (map snd adj) - b_visited b)"

lemma bfs_visit_mono: "b_visited b \<subseteq> b_visited (bfs_visit node ms b)"
  by (induction node ms b rule: bfs_visit.induct) auto

lemma bfs_visit_measure:
  assumes "set ms \<subseteq> set (map snd adj)"
  shows "unvisited adj (bfs_visit node ms b) < unvisited adj b
    \<or> (unvisited adj (bfs_visit node ms b) = unvisited adj b \<and> b_queue (bfs_visit node ms b) = b_queue b)"
  using assms
proof (induction node ms b rule: bfs_visit.induct)
  case (2 node m ms b)
  show ?case
  proof (cases "m \<in> b_visited b")
    case False
    let ?b = "b\<lparr> b_visited := insert m (b_visited b), b_parent := (b_parent b)(m \<mapsto> node), b_queue := b_queue b @ [m] \<rparr>"
    have "m \<in> set (map snd adj) - b_visited b" using 2(3) False by simp
    then have "unvisited adj ?b < unvisited adj b"
      unfolding unvisited_def by (intro psubset_card_mono) auto
    moreover have "unvisited adj (bfs_visit node ms ?b) \<le> unvisited adj ?b"
      unfolding unvisited_def using bfs_visit_mono [of ?b node ms] by (intro card_mono) auto
    ultimately show ?thesis using False by simp
  qed (use 2 in simp)
qed simp

text \<open>The outer loop: the parents when the target was reached.\<close>

function bfs_loop :: "adjacency \<Rightarrow> string \<Rightarrow> bfs \<Rightarrow> (string \<rightharpoonup> string) option" where
  "bfs_loop adj target b =
     (case b_queue b of
        [] \<Rightarrow> None
      | node # q \<Rightarrow>
          if node = target then Some (b_parent b)
          else bfs_loop adj target (bfs_visit node (neighbours adj node) (b\<lparr> b_queue := q \<rparr>)))"
  by pat_completeness auto
termination
proof (relation "measures [\<lambda>(adj, target, b). unvisited adj b, \<lambda>(adj, target, b). length (b_queue b)]")
  fix adj :: adjacency and target node q and b :: bfs
  assume q: "b_queue b = node # q"
  have "set (neighbours adj node) \<subseteq> set (map snd adj)" by (auto simp: neighbours_def)
  from bfs_visit_measure [OF this, of node "b\<lparr> b_queue := q \<rparr>"] q
  show "((adj, target, bfs_visit node (neighbours adj node) (b\<lparr> b_queue := q \<rparr>)), adj, target, b)
    \<in> measures [\<lambda>(adj, target, b). unvisited adj b, \<lambda>(adj, target, b). length (b_queue b)]"
    by (auto simp: unvisited_def)
qed simp

declare bfs_loop.simps [simp del]

text \<open>\<open>while let Some(&prev) = parent.get(cur)\<close>.\<close>

partial_function (option) trace_parents :: "(string \<rightharpoonup> string) \<Rightarrow> string \<Rightarrow> string list \<Rightarrow> string list option" where
  "trace_parents parent cur path =
     (case parent cur of
        None \<Rightarrow> Some path
      | Some prev \<Rightarrow> trace_parents parent prev (path @ [prev]))"

declare trace_parents.simps [code]

definition bfs_witness :: "adjacency \<Rightarrow> string \<Rightarrow> string \<Rightarrow> string list option option" where
  "bfs_witness adj start target =
     (case bfs_loop adj target \<lparr> b_visited = {start}, b_parent = Map.empty, b_queue = [start] \<rparr> of
        None \<Rightarrow> Some None
      | Some parent \<Rightarrow> map_option (\<lambda>p. Some (rev p)) (trace_parents parent target [target]))"

section \<open>Dominance\<close>

record dominator_violation =
  dv_task_id :: string
  dv_gate_edge_id :: string
  dv_bypass_path :: "string list"

definition edge_pairs :: "edge \<Rightarrow> adjacency" where
  "edge_pairs e = concat (map (\<lambda>s. map (\<lambda>t. (s, t)) (ge_targets e)) (ge_sources e))"

text \<open>The adjacency without the gate's edge, and without the edges out of a task.\<close>

definition adjacency_minus_gate :: "task_graph \<Rightarrow> string \<Rightarrow> adjacency" where
  "adjacency_minus_gate g i = concat (map edge_pairs (filter (\<lambda>e. ge_id e \<noteq> i) (tg_edges g)))"

definition adjacency_avoiding :: "task_graph \<Rightarrow> string \<Rightarrow> adjacency" where
  "adjacency_avoiding g a = filter (\<lambda>p. fst p \<noteq> a) (concat (map edge_pairs (tg_edges g)))"

definition validate_dominates :: "task_graph \<Rightarrow> string \<Rightarrow> string \<Rightarrow> (dominator_violation + unit) option" where
  "validate_dominates g task gate =
     (if \<not> (\<exists>e \<in> set (tg_edges g). ge_id e = gate)
      then Some (Inl \<lparr> dv_task_id = task, dv_gate_edge_id = gate, dv_bypass_path = [] \<rparr>)
      else map_option (\<lambda>w. case w of
          None \<Rightarrow> Inr ()
        | Some p \<Rightarrow> Inl \<lparr> dv_task_id = task, dv_gate_edge_id = gate, dv_bypass_path = p \<rparr>)
        (bfs_witness (adjacency_minus_gate g gate) (tg_start g) task))"

definition validate_task_dominates :: "task_graph \<Rightarrow> string \<Rightarrow> string \<Rightarrow> (dominator_violation + unit) option" where
  "validate_task_dominates g ancestor descendant =
     (if ancestor = descendant then Some (Inr ())
      else map_option (\<lambda>w. case w of
          None \<Rightarrow> Inr ()
        | Some p \<Rightarrow> Inl \<lparr> dv_task_id = descendant, dv_gate_edge_id = ancestor, dv_bypass_path = p \<rparr>)
        (bfs_witness (adjacency_avoiding g ancestor) (tg_start g) descendant))"

section \<open>Signal inputs\<close>

record resolved_signal_source =
  rs_task_id :: string
  rs_slot :: nat
  rs_gate_edge_id :: string

datatype signal_resolution_error =
    Unresolved string string
  | Ambiguous string string nat

text \<open>\<open>Uuid::parse_str(..).map(is_nil).unwrap_or(true)\<close>, with the parser as an argument.\<close>

definition is_unresolved :: "(string \<Rightarrow> uuid option) \<Rightarrow> string \<Rightarrow> bool" where
  "is_unresolved parse i = (case parse i of None \<Rightarrow> True | Some u \<Rightarrow> u = 0)"

definition carries_signal :: "string \<Rightarrow> edge \<Rightarrow> bool" where
  "carries_signal name e =
     list_ex (\<lambda>gt. case gt of Some (SignalReceived sr) \<Rightarrow> sr_signal_name sr = name | _ \<Rightarrow> False) (ge_gates e)"

text \<open>The ids of the edges that carry the signal and dominate the task.\<close>

fun dominating_edges :: "task_graph \<Rightarrow> string \<Rightarrow> string \<Rightarrow> edge list \<Rightarrow> string list option" where
  "dominating_edges g task name [] = Some []"
| "dominating_edges g task name (e # es) =
     (if \<not> carries_signal name e then dominating_edges g task name es
      else Option.bind (validate_dominates g task (ge_id e)) (\<lambda>r.
        map_option (\<lambda>ds. case r of Inr _ \<Rightarrow> ge_id e # ds | Inl _ \<Rightarrow> ds) (dominating_edges g task name es)))"

definition resolve_slot ::
  "(string \<Rightarrow> uuid option) \<Rightarrow> task_graph \<Rightarrow> string \<Rightarrow> nat \<Rightarrow> input_source option option
     \<Rightarrow> (signal_resolution_error + resolved_signal_source list) option" where
  "resolve_slot parse g task slot s =
     (case s of
        Some (Some (SignalSource name gate)) \<Rightarrow>
          if \<not> is_unresolved parse gate then Some (Inr [])
          else map_option (\<lambda>ds. case ds of
              [] \<Rightarrow> Inl (Unresolved task name)
            | [d] \<Rightarrow> Inr [\<lparr> rs_task_id = task, rs_slot = slot, rs_gate_edge_id = d \<rparr>]
            | _ \<Rightarrow> Inl (Ambiguous task name (length ds)))
            (dominating_edges g task name (tg_edges g))
      | _ \<Rightarrow> Some (Inr []))"

fun resolve_slots ::
  "(string \<Rightarrow> uuid option) \<Rightarrow> task_graph \<Rightarrow> string \<Rightarrow> nat \<Rightarrow> input_source option option list
     \<Rightarrow> (signal_resolution_error + resolved_signal_source list) option" where
  "resolve_slots parse g task slot [] = Some (Inr [])"
| "resolve_slots parse g task slot (s # ss) =
     Option.bind (resolve_slot parse g task slot s) (\<lambda>r. case r of
        Inl e \<Rightarrow> Some (Inl e)
      | Inr xs \<Rightarrow> map_option (map_sum id ((@) xs)) (resolve_slots parse g task (Suc slot) ss))"

fun resolve_signal_input_sources ::
  "(string \<Rightarrow> uuid option) \<Rightarrow> task_definition list \<Rightarrow> task_graph
     \<Rightarrow> (signal_resolution_error + resolved_signal_source list) option" where
  "resolve_signal_input_sources parse [] g = Some (Inr [])"
| "resolve_signal_input_sources parse (t # ts) g =
     (case td_input_sources t of
        None \<Rightarrow> resolve_signal_input_sources parse ts g
      | Some slots \<Rightarrow> Option.bind (resolve_slots parse g (td_id t) 0 slots) (\<lambda>r. case r of
          Inl e \<Rightarrow> Some (Inl e)
        | Inr xs \<Rightarrow> map_option (map_sum id ((@) xs)) (resolve_signal_input_sources parse ts g)))"

end
