(* ===== verification/Definition_Seal.thy ===== *)
theory Definition_Seal
  imports Definition_Graph
begin

text \<open>
  The structural seal of a workflow definition (\<^verbatim>\<open>src/src/conductor/src/definition_graph.rs\<close>): loop
  bodies by Tarjan's algorithm with an explicit stack of frames, the wiring of orphans against start
  and end, and the check that every loop body can be left. A panic (\<open>expect\<close>, indexing a map by a
  missing key) is the value None. The identifiers of synthesized edges are an argument.
\<close>

section \<open>Edges\<close>

definition is_loop_edge :: "edge \<Rightarrow> bool" where
  "is_loop_edge e \<longleftrightarrow> ge_kind e = EDGE_KIND_LOOP"

definition has_non_loop_incoming :: "task_graph \<Rightarrow> string \<Rightarrow> bool" where
  "has_non_loop_incoming g t \<longleftrightarrow> (\<exists>e \<in> set (tg_edges g). \<not> is_loop_edge e \<and> t \<in> set (ge_targets e))"

definition has_non_loop_outgoing :: "task_graph \<Rightarrow> string \<Rightarrow> bool" where
  "has_non_loop_outgoing g t \<longleftrightarrow> (\<exists>e \<in> set (tg_edges g). \<not> is_loop_edge e \<and> t \<in> set (ge_sources e))"

definition has_non_loop_edge_leaving_body :: "task_graph \<Rightarrow> string set \<Rightarrow> bool" where
  "has_non_loop_edge_leaving_body g body \<longleftrightarrow>
     (\<exists>e \<in> set (tg_edges g). \<not> is_loop_edge e \<and> (\<exists>s \<in> set (ge_sources e). s \<in> body) \<and> (\<exists>t \<in> set (ge_targets e). t \<notin> body))"

definition loop_adjacency :: "task_graph \<Rightarrow> adjacency" where
  "loop_adjacency g =
     concat (map (\<lambda>e. concat (map (\<lambda>s. map (\<lambda>t. (s, t)) (ge_targets e)) (ge_sources e))) (filter is_loop_edge (tg_edges g)))"

definition has_loop_self_edge :: "task_graph \<Rightarrow> string \<Rightarrow> bool" where
  "has_loop_self_edge g n \<longleftrightarrow> (\<exists>e \<in> set (tg_edges g). is_loop_edge e \<and> n \<in> set (ge_sources e) \<and> n \<in> set (ge_targets e))"

section \<open>Tarjan's algorithm\<close>

record tarjan =
  t_index :: "string \<rightharpoonup> nat"
  t_low :: "string \<rightharpoonup> nat"
  t_on_stack :: "string set"
  t_stack :: "string list"
  t_next :: nat
  t_sccs :: "string set list"

definition tarjan_init :: tarjan where
  "tarjan_init = \<lparr> t_index = Map.empty, t_low = Map.empty, t_on_stack = {}, t_stack = [], t_next = 0, t_sccs = [] \<rparr>"

text \<open>A node is numbered and put on the stack. The top of the stack is the head of the list.\<close>

definition discover :: "string \<Rightarrow> tarjan \<Rightarrow> tarjan" where
  "discover n st = st\<lparr> t_index := (t_index st)(n \<mapsto> t_next st), t_low := (t_low st)(n \<mapsto> t_next st),
     t_next := Suc (t_next st), t_stack := n # t_stack st, t_on_stack := insert n (t_on_stack st) \<rparr>"

fun pop_component :: "string \<Rightarrow> string list \<Rightarrow> string set \<Rightarrow> string set \<Rightarrow> (string set \<times> string list \<times> string set) option" where
  "pop_component node [] on component = None"
| "pop_component node (w # stack) on component =
     (if w = node then Some (insert w component, stack, on - {w})
      else pop_component node stack (on - {w}) (insert w component))"

definition is_loop_body :: "task_graph \<Rightarrow> string set \<Rightarrow> bool" where
  "is_loop_body g component \<longleftrightarrow> card component > 1 \<or> (\<exists>n \<in> component. has_loop_self_edge g n)"

text \<open>A node without further children: its component is popped when it is a root.\<close>

definition finish_node :: "task_graph \<Rightarrow> string \<Rightarrow> tarjan \<Rightarrow> tarjan option" where
  "finish_node g node st =
     (case (t_low st node, t_index st node) of
        (Some l, Some i) \<Rightarrow>
          if l = i then
            map_option (\<lambda>(component, stack, on). st\<lparr> t_stack := stack, t_on_stack := on,
                t_sccs := (if is_loop_body g component then t_sccs st @ [component] else t_sccs st) \<rparr>)
              (pop_component node (t_stack st) (t_on_stack st) {})
          else Some st
      | _ \<Rightarrow> None)"

text \<open>\<open>lowlink[n] = min(lowlink[n], v)\<close>.\<close>

definition lower :: "string \<Rightarrow> nat \<Rightarrow> tarjan \<Rightarrow> tarjan option" where
  "lower n v st = (case t_low st n of None \<Rightarrow> None | Some cur \<Rightarrow> Some (st\<lparr> t_low := (t_low st)(n \<mapsto> min cur v) \<rparr>))"

text \<open>After the pop of a frame, the parent takes over the lowlink of the child.\<close>

definition lower_parent :: "(string \<times> nat) list \<Rightarrow> string \<Rightarrow> tarjan \<Rightarrow> tarjan option" where
  "lower_parent frames node st =
     (case frames of
        [] \<Rightarrow> Some st
      | (p, _) # _ \<Rightarrow> (case t_low st node of None \<Rightarrow> None | Some l \<Rightarrow> lower p l st))"

definition unindexed :: "adjacency \<Rightarrow> tarjan \<Rightarrow> nat" where
  "unindexed adj st = card {n \<in> set (map snd adj). t_index st n = None}"

definition frame_work :: "adjacency \<Rightarrow> (string \<times> nat) list \<Rightarrow> nat" where
  "frame_work adj frames = sum_list (map (\<lambda>(n, k). Suc (length (neighbours adj n) - k)) frames)"

lemma finish_node_index: "finish_node g node st = Some st' \<Longrightarrow> t_index st' = t_index st"
  by (auto simp: finish_node_def split: option.splits if_splits)

lemma lower_index: "lower n v st = Some st' \<Longrightarrow> t_index st' = t_index st"
  by (auto simp: lower_def split: option.splits)

lemma lower_parent_index: "lower_parent fs node st = Some st' \<Longrightarrow> t_index st' = t_index st"
  by (auto simp: lower_parent_def split: list.splits option.splits dest: lower_index)

lemma unindexed_discover:
  assumes "n \<in> set (map snd adj)" and "t_index st n = None"
  shows "unindexed adj (discover n st) < unindexed adj st"
proof -
  have "finite {m \<in> set (map snd adj). t_index st m = None}" by simp
  moreover have "{m \<in> set (map snd adj). t_index (discover n st) m = None} \<subset> {m \<in> set (map snd adj). t_index st m = None}"
    using assms by (auto simp: discover_def)
  ultimately show ?thesis unfolding unindexed_def by (rule psubset_card_mono)
qed

text \<open>The loop over the frames.\<close>

function tarjan_loop :: "task_graph \<Rightarrow> adjacency \<Rightarrow> (string \<times> nat) list \<Rightarrow> tarjan \<Rightarrow> tarjan option" where
  "tarjan_loop g adj [] st = Some st"
| "tarjan_loop g adj ((node, k) # frames) st =
     (if k < length (neighbours adj node) then
        let child = neighbours adj node ! k in
        (case t_index st child of
           None \<Rightarrow> tarjan_loop g adj ((child, 0) # (node, Suc k) # frames) (discover child st)
         | Some i \<Rightarrow>
             if child \<in> t_on_stack st
             then (case lower node i st of None \<Rightarrow> None | Some st' \<Rightarrow> tarjan_loop g adj ((node, Suc k) # frames) st')
             else tarjan_loop g adj ((node, Suc k) # frames) st)
      else (case finish_node g node st of
        None \<Rightarrow> None
      | Some st' \<Rightarrow> (case lower_parent frames node st' of
          None \<Rightarrow> None
        | Some st'' \<Rightarrow> tarjan_loop g adj frames st'')))"
  by pat_completeness auto
termination
proof (relation "measures [\<lambda>(g, adj, fs, st). unindexed adj st, \<lambda>(g, adj, fs, st). frame_work adj fs]", goal_cases)
  case (2 g adj node k frames st child)
  then have "child \<in> set (map snd adj)" by (auto simp: neighbours_def dest!: nth_mem)
  then show ?case using 2 unindexed_discover [of child adj st] by (simp add: neighbours_def)
next
  case (5 g adj node k frames st st' st'')
  then have "t_index st'' = t_index st" using finish_node_index [of g node st st'] lower_parent_index [of frames node st' st''] by simp
  then show ?case by (simp add: unindexed_def frame_work_def)
qed (auto simp: unindexed_def frame_work_def lower_index)

declare tarjan_loop.simps [simp del]

definition loop_nodes :: "task_graph \<Rightarrow> string list" where
  "loop_nodes g = remdups_adj (sort (map fst (loop_adjacency g) @ map snd (loop_adjacency g)))"

fun tarjan_roots :: "task_graph \<Rightarrow> adjacency \<Rightarrow> string list \<Rightarrow> tarjan \<Rightarrow> tarjan option" where
  "tarjan_roots g adj [] st = Some st"
| "tarjan_roots g adj (r # rs) st =
     (if t_index st r \<noteq> None then tarjan_roots g adj rs st
      else Option.bind (tarjan_loop g adj [(r, 0)] (discover r st)) (tarjan_roots g adj rs))"

definition loop_sccs :: "task_graph \<Rightarrow> string set list option" where
  "loop_sccs g = map_option t_sccs (tarjan_roots g (loop_adjacency g) (loop_nodes g) tarjan_init)"

section \<open>Seal\<close>

record proto_definition_graph =
  pg_task_ids :: "string list"
  pg_graph :: task_graph

text \<open>\<open>from_definition\<close>: the ids of the tasks and the graph, or the message's default when it is absent.\<close>

definition from_definition :: "workflow_definition \<Rightarrow> proto_definition_graph" where
  "from_definition d = \<lparr> pg_task_ids = map td_id (wd_tasks d),
     pg_graph = (case wd_task_graph d of Some g \<Rightarrow> g | None \<Rightarrow> \<lparr> tg_nodes = [], tg_edges = [], tg_start = [], tg_end = [] \<rparr>) \<rparr>"

definition add_seal_edge :: "string \<Rightarrow> string \<Rightarrow> string \<Rightarrow> task_graph \<Rightarrow> task_graph" where
  "add_seal_edge i s t g = g\<lparr> tg_edges := tg_edges g @
     [\<lparr> ge_id = i, ge_sources = [s], ge_targets = [t], ge_kind = EDGE_KIND_CONTROL, ge_gates = [] \<rparr>] \<rparr>"

text \<open>\<open>loop_bodies.iter().find(|body| body.contains(tid)).is_some_and(..)\<close>.\<close>

definition in_entered_body :: "string set list \<Rightarrow> task_graph \<Rightarrow> string \<Rightarrow> bool" where
  "in_entered_body bodies g t = (case find (\<lambda>b. t \<in> b) bodies of
      None \<Rightarrow> False
    | Some b \<Rightarrow> \<exists>m \<in> b. has_non_loop_incoming g m)"

text \<open>The two passes; \<open>fresh k\<close> is the identifier of the edge number \<open>k\<close> of the seal.\<close>

fun wire_starts :: "(nat \<Rightarrow> string) \<Rightarrow> string set list \<Rightarrow> string list \<Rightarrow> nat \<times> task_graph \<Rightarrow> nat \<times> task_graph" where
  "wire_starts fresh bodies [] s = s"
| "wire_starts fresh bodies (t # ts) (k, g) =
     (if has_non_loop_incoming g t \<or> in_entered_body bodies g t then wire_starts fresh bodies ts (k, g)
      else wire_starts fresh bodies ts (Suc k, add_seal_edge (fresh k) (tg_start g) t g))"

fun wire_ends :: "(nat \<Rightarrow> string) \<Rightarrow> string set \<Rightarrow> string list \<Rightarrow> nat \<times> task_graph \<Rightarrow> nat \<times> task_graph" where
  "wire_ends fresh exiting [] s = s"
| "wire_ends fresh exiting (t # ts) (k, g) =
     (if \<not> has_non_loop_outgoing g t \<and> t \<notin> exiting
      then wire_ends fresh exiting ts (Suc k, add_seal_edge (fresh k) t (tg_end g) g)
      else wire_ends fresh exiting ts (k, g))"

definition exiting_loop_members :: "string set list \<Rightarrow> task_graph \<Rightarrow> string set" where
  "exiting_loop_members bodies g = \<Union> (set (filter (has_non_loop_edge_leaving_body g) bodies))"

definition seal :: "(nat \<Rightarrow> string) \<Rightarrow> proto_definition_graph \<Rightarrow> proto_definition_graph option" where
  "seal fresh p =
     map_option (\<lambda>bodies.
        let (k, g1) = wire_starts fresh bodies (pg_task_ids p) (0, pg_graph p) in
        p\<lparr> pg_graph := snd (wire_ends fresh (exiting_loop_members bodies g1) (pg_task_ids p) (k, g1)) \<rparr>)
      (loop_sccs (pg_graph p))"

section \<open>Terminability of loops\<close>

datatype loop_terminability_violation =
    NoExit "string list"
  | UngatedExit "string list" string

definition references_loop_control :: "gate \<Rightarrow> bool" where
  "references_loop_control gt = (case gt of Some (PredicateHolds ph) \<Rightarrow> ph_routing_var ph = ''loop_control'' | _ \<Rightarrow> False)"

definition leaving_edges :: "task_graph \<Rightarrow> string set \<Rightarrow> edge list" where
  "leaving_edges g scc = filter (\<lambda>e. (\<exists>s \<in> set (ge_sources e). s \<in> scc) \<and> (\<exists>t \<in> set (ge_targets e). t \<notin> scc)) (tg_edges g)"

fun check_bodies :: "task_graph \<Rightarrow> string set list \<Rightarrow> loop_terminability_violation + unit" where
  "check_bodies g [] = Inr ()"
| "check_bodies g (scc # rest) =
     (if leaving_edges g scc = [] then Inl (NoExit (sorted_list_of_set scc))
      else (case find (\<lambda>e. \<not> list_ex references_loop_control (ge_gates e)) (leaving_edges g scc) of
        Some e \<Rightarrow> Inl (UngatedExit (sorted_list_of_set scc) (ge_id e))
      | None \<Rightarrow> check_bodies g rest))"

definition validate_loop_terminability :: "task_graph \<Rightarrow> (loop_terminability_violation + unit) option" where
  "validate_loop_terminability g = map_option (check_bodies g) (loop_sccs g)"

end
