(* ===== verification/Workflow_Builder.thy ===== *)
theory Workflow_Builder
  imports Parsed_Workflow Parser_Duration Definition_Seal
begin

text \<open>
  From a parsed workflow to its definition (\<^verbatim>\<open>src/src/conductor/src/parser/builder.rs\<close>, with the identity of
  \<^verbatim>\<open>src/src/proto/src/tenant.rs\<close>): validation, tasks, edges and gates, the seal, the resolution of signal
  inputs, the dominance of predicate gates, terminability and the trigger. An error is a value of
  \<open>build_error\<close> with what its message names, a panic is the value None. \<open>serde_json\<close>, \<open>serde_json_path\<close>
  and \<open>uuid\<close> are third-party: the functions called are fields of \<open>build_externals\<close>. The identifier that
  the call number \<open>k\<close> of \<open>Uuid::new_v4\<close> returns is \<open>fresh k\<close>.
\<close>

section \<open>Results\<close>

record 'n build_externals =
  be_from_str :: "string \<Rightarrow> string + 'n parsed_workflow"
  be_jsonpath :: "string \<Rightarrow> string option"
  be_as_i64 :: "'n \<Rightarrow> int option"
  be_uuid_text :: "uuid \<Rightarrow> string"
  be_parse_uuid :: "string \<Rightarrow> uuid option"
  be_new_v5 :: "uuid \<Rightarrow> string \<Rightarrow> uuid"

datatype build_error =
    JsonError string
  | ReservedTags "string list"
  | DuplicateOwnership "(string \<times> string list) list"
  | EmitNotCoLocated string string string
  | EmitSignalBlank string
  | EmitOnFailureSignalBlank string
  | InvalidSegment string string
  | WorkflowTimeout string string parse_duration_error
  | MissingExpressionPath string
  | TaskTimeout string string parse_duration_error
  | UnknownEdgeTask string
  | SignalGateBlank
  | SignalGatePredicate string string
  | SignalGateTimeout string string parse_duration_error
  | PredicateGateBlank string
  | PredicateGateOp string string
  | PredicateGateValue string string
  | PredicateGateTimeout string string parse_duration_error
  | TimerGateDuration string string parse_duration_error
  | SignalUnresolved string string
  | SignalAmbiguous string string nat
  | UndeclaredRoutingVar string
  | ProducerMissing string
  | ProducerNotDominating string string "string list"
  | NonTerminableLoop string loop_terminability_violation
  | TriggerSignalBlank
  | TriggerPredicate string string
  | DuplicateCapture string
  | CaptureIsOutput string
  | CaptureWithoutSource string
  | CaptureJsonPath string string

type_synonym 'a checked = "build_error + 'a"

text \<open>The operator \<open>?\<close>, without and with panics.\<close>

definition and_then :: "'a checked \<Rightarrow> ('a \<Rightarrow> 'b checked) \<Rightarrow> 'b checked" where
  "and_then r f = (case r of Inl e \<Rightarrow> Inl e | Inr x \<Rightarrow> f x)"

definition proceed :: "'a checked option \<Rightarrow> ('a \<Rightarrow> 'b checked option) \<Rightarrow> 'b checked option" where
  "proceed r f = (case r of None \<Rightarrow> None | Some (Inl e) \<Rightarrow> Some (Inl e) | Some (Inr x) \<Rightarrow> f x)"

fun all_checked :: "('a \<Rightarrow> 'b checked) \<Rightarrow> 'a list \<Rightarrow> 'b list checked" where
  "all_checked f [] = Inr []"
| "all_checked f (x # xs) = and_then (f x) (\<lambda>y. and_then (all_checked f xs) (\<lambda>ys. Inr (y # ys)))"

section \<open>Validation of the parsed workflow\<close>

definition is_blank :: "string \<Rightarrow> bool" where
  "is_blank s \<longleftrightarrow> trim s = []"

definition validate_definition_tags :: "(string \<times> string) list \<Rightarrow> unit checked" where
  "validate_definition_tags tags =
     (let reserved = sort (filter (\<lambda>k. starts_with_str k ''tickr/'') (map fst tags))
      in if reserved = [] then Inr () else Inl (ReservedTags reserved))"

definition all_tasks :: "'n parsed_workflow \<Rightarrow> 'n parsed_task list" where
  "all_tasks w = concat (map pgr_tasks (pw_tasks w))"

text \<open>Pairs of a routing variable and a task that declares it, in order.\<close>

definition routing_owners :: "'n parsed_workflow \<Rightarrow> (string \<times> string) list" where
  "routing_owners w = concat (map (\<lambda>t. map (\<lambda>rv. (prv_name rv, pt_name t)) (pt_routing_vars t)) (all_tasks w))"

definition owners_of :: "(string \<times> string) list \<Rightarrow> string \<Rightarrow> string list" where
  "owners_of owners v = map snd (filter (\<lambda>p. fst p = v) owners)"

definition validate_single_producer :: "'n parsed_workflow \<Rightarrow> unit checked" where
  "validate_single_producer w =
     (let owners = routing_owners w;
          duplicates = filter (\<lambda>v. 1 < length (owners_of owners v)) (remdups_adj (sort (map fst owners)))
      in if duplicates = [] then Inr () else Inl (DuplicateOwnership (map (\<lambda>v. (v, owners_of owners v)) duplicates)))"

definition check_emit :: "'n parsed_task \<Rightarrow> parsed_signal_emit \<Rightarrow> unit checked" where
  "check_emit t e =
     (case e of
        PSignalEmit signal var \<Rightarrow>
          if var \<notin> prv_name ` set (pt_routing_vars t) then Inl (EmitNotCoLocated (psr_name signal) var (pt_name t))
          else if is_blank (psr_name signal) then Inl (EmitSignalBlank (pt_name t))
          else Inr ()
      | PSignalEmitOnFailure signal \<Rightarrow>
          if is_blank (psr_name signal) then Inl (EmitOnFailureSignalBlank (pt_name t)) else Inr ())"

definition validate_emit_co_location :: "'n parsed_workflow \<Rightarrow> unit checked" where
  "validate_emit_co_location w =
     and_then (all_checked (\<lambda>t. all_checked (check_emit t) (pt_emits t)) (all_tasks w)) (\<lambda>_. Inr ())"

definition identity_char :: "char \<Rightarrow> bool" where
  "identity_char c \<longleftrightarrow> 97 \<le> (of_char c :: nat) \<and> (of_char c :: nat) \<le> 122 \<or> is_ascii_digit c \<or> c = CHR ''-''"

text \<open>\<open>chars().count()\<close>: the bytes that do not continue a character.\<close>

definition chars_count :: "string \<Rightarrow> nat" where
  "chars_count s = length (filter (\<lambda>c. \<not> (128 \<le> (of_char c :: nat) \<and> (of_char c :: nat) < 192)) s)"

definition validate_identity_segment :: "string \<Rightarrow> string \<Rightarrow> unit checked" where
  "validate_identity_segment value what =
     (if 1 \<le> chars_count value \<and> chars_count value \<le> 64 \<and> list_all identity_char value then Inr ()
      else Inl (InvalidSegment what value))"

text \<open>\<open>derive_workflow_id\<close>; the namespace is RFC 9562's \<open>NAMESPACE_OID\<close>.\<close>

definition NAMESPACE_OID :: uuid where
  "NAMESPACE_OID = 0x6ba7b8129dad11d180b400c04fd430c8"

definition identity_seed :: "'n build_externals \<Rightarrow> uuid \<Rightarrow> string \<Rightarrow> string \<Rightarrow> string" where
  "identity_seed X tenant namespace slug = be_uuid_text X tenant @ ''.'' @ namespace @ ''.'' @ slug"

definition derive_workflow_id :: "'n build_externals \<Rightarrow> uuid \<Rightarrow> string \<Rightarrow> string \<Rightarrow> uuid" where
  "derive_workflow_id X tenant namespace slug = be_new_v5 X NAMESPACE_OID (identity_seed X tenant namespace slug)"

section \<open>Captures\<close>

definition to_proto_capture :: "parsed_capture_declaration \<Rightarrow> capture_declaration" where
  "to_proto_capture c = \<lparr> cd_name = pcd_name c,
     cd_from = Some (Some (case pcd_from c of PCaptureTrigger jsonpath \<Rightarrow> CaptureTrigger jsonpath)) \<rparr>"

fun check_captures :: "'n build_externals \<Rightarrow> string set \<Rightarrow> string set \<Rightarrow> capture_declaration list \<Rightarrow> unit checked" where
  "check_captures X task_outputs names [] = Inr ()"
| "check_captures X task_outputs names (c # cs) =
     (if cd_name c \<in> names then Inl (DuplicateCapture (cd_name c))
      else if cd_name c \<in> task_outputs then Inl (CaptureIsOutput (cd_name c))
      else (case cd_from c of
          Some (Some (CaptureTrigger jsonpath)) \<Rightarrow>
            (case be_jsonpath X jsonpath of
               Some error \<Rightarrow> Inl (CaptureJsonPath (cd_name c) error)
             | None \<Rightarrow> check_captures X task_outputs (insert (cd_name c) names) cs)
        | _ \<Rightarrow> Inl (CaptureWithoutSource (cd_name c))))"

definition validate_captures_with_outputs ::
  "'n build_externals \<Rightarrow> capture_declaration list \<Rightarrow> task_definition list \<Rightarrow> unit checked" where
  "validate_captures_with_outputs X captures tasks = check_captures X (set (concat (map td_outputs tasks))) {} captures"

section \<open>Tasks\<close>

definition DEFAULT_MAX_ATTEMPTS :: nat where
  "DEFAULT_MAX_ATTEMPTS = 3"

fun json_get :: "string \<Rightarrow> 'n json \<Rightarrow> 'n json option" where
  "json_get k (JObject kvs) = map_of kvs k"
| "json_get k _ = None"

fun json_as_str :: "'n json \<Rightarrow> string option" where
  "json_as_str (JString s) = Some s"
| "json_as_str _ = None"

text \<open>The name below \<open>signal.name\<close> of a gate's attributes.\<close>

definition gate_signal_name :: "'n json \<Rightarrow> string" where
  "gate_signal_name v =
     (case Option.bind (Option.bind (json_get ''signal'' v) (json_get ''name'')) json_as_str of Some s \<Rightarrow> s | None \<Rightarrow> [])"

text \<open>A slot; a signal slot carries the nil identifier until it is resolved.\<close>

fun input_slot :: "'n build_externals \<Rightarrow> 'n parsed_input_binding \<Rightarrow> input_source option option" where
  "input_slot X (Bare _) = None"
| "input_slot X (Structured _ (PTask name)) = Some (Some (TaskSource name))"
| "input_slot X (Structured _ (PTrigger _)) = Some (Some TriggerSource)"
| "input_slot X (Structured _ (PSignal v)) = Some (Some (SignalSource (gate_signal_name v) (be_uuid_text X 0)))"

definition is_structured :: "'n parsed_input_binding \<Rightarrow> bool" where
  "is_structured b = (case b of Structured _ _ \<Rightarrow> True | Bare _ \<Rightarrow> False)"

definition to_proto_emit :: "parsed_signal_emit \<Rightarrow> signal_emit option" where
  "to_proto_emit e = Some (case e of
      PSignalEmit signal var \<Rightarrow> OnSuccess (psr_name signal) var
    | PSignalEmitOnFailure signal \<Rightarrow> OnFailure (psr_name signal))"

definition proto_task :: "'n build_externals \<Rightarrow> uuid \<Rightarrow> uuid \<Rightarrow> 'n parsed_task \<Rightarrow> task_definition checked" where
  "proto_task X workflow_id i t =
     (case pt_nix_expression_path t of
        None \<Rightarrow> Inl (MissingExpressionPath (pt_name t))
      | Some path \<Rightarrow>
          if is_blank path then Inl (MissingExpressionPath (pt_name t))
          else Inr \<lparr> td_id = be_uuid_text X i, td_workflow_id = be_uuid_text X workflow_id, td_name = pt_name t,
            td_task_type = TASK_TYPE_REGULAR, td_nix_expression_path = path, td_nix_args = pt_args t, td_outputs = pt_outputs t,
            td_inputs = map binding_name (pt_inputs t), td_secrets = pt_secrets t,
            td_max_attempts = (case pt_max_attempts t of Some n \<Rightarrow> n | None \<Rightarrow> DEFAULT_MAX_ATTEMPTS),
            td_input_sources = (if list_ex is_structured (pt_inputs t) then Some (map (input_slot X) (pt_inputs t)) else None),
            td_timeout_secs = None, td_emits = map to_proto_emit (pt_emits t),
            td_routing_vars = map (\<lambda>rv. \<lparr> rd_name = prv_name rv, rd_var_type = prv_var_type rv \<rparr>) (pt_routing_vars t),
            td_loop_participant = False \<rparr>)"

fun group_to_proto_tasks ::
  "'n build_externals \<Rightarrow> (nat \<Rightarrow> uuid) \<Rightarrow> uuid \<Rightarrow> nat \<Rightarrow> 'n parsed_task list \<Rightarrow> task_definition list checked" where
  "group_to_proto_tasks X fresh workflow_id k [] = Inr []"
| "group_to_proto_tasks X fresh workflow_id k (t # ts) =
     and_then (proto_task X workflow_id (fresh k) t) (\<lambda>d.
     and_then (group_to_proto_tasks X fresh workflow_id (Suc k) ts) (\<lambda>ds. Inr (d # ds)))"

text \<open>The timeouts of a group; a missing index would panic.\<close>

fun stamp_timeouts :: "'n parsed_task list \<Rightarrow> task_definition list \<Rightarrow> task_definition list checked option" where
  "stamp_timeouts [] ds = Some (Inr ds)"
| "stamp_timeouts (t # ts) ds =
     (case pt_timeout t of
        None \<Rightarrow> proceed (stamp_timeouts ts (tl ds)) (\<lambda>rest. Some (Inr (take 1 ds @ rest)))
      | Some raw \<Rightarrow>
          (case parse_duration raw of
             Inl e \<Rightarrow> Some (Inl (TaskTimeout (pt_name t) raw e))
           | Inr secs \<Rightarrow>
               (case ds of
                  [] \<Rightarrow> None
                | d # ds' \<Rightarrow> proceed (stamp_timeouts ts ds') (\<lambda>rest. Some (Inr (d\<lparr> td_timeout_secs := Some secs \<rparr> # rest))))))"

definition stamp_loop_participants :: "'n parsed_edge list \<Rightarrow> task_definition list \<Rightarrow> task_definition list" where
  "stamp_loop_participants es ds =
     (let loop_source_names = set (concat (map pe_sources (filter (\<lambda>e. pe_kind e = Some ''loop'') es)))
      in map (\<lambda>d. if td_name d \<in> loop_source_names then d\<lparr> td_loop_participant := True \<rparr> else d) ds)"

text \<open>\<open>name_to_id\<close> has its latest entry first.\<close>

record build_state =
  bs_tasks :: "task_definition list"
  bs_names :: "(string \<times> uuid) list"
  bs_groups :: "uuid list list"
  bs_fresh :: nat

fun task_ids :: "'n build_externals \<Rightarrow> task_definition list \<Rightarrow> uuid list option" where
  "task_ids X [] = Some []"
| "task_ids X (d # ds) = (case be_parse_uuid X (td_id d) of None \<Rightarrow> None | Some i \<Rightarrow> map_option ((#) i) (task_ids X ds))"

definition build_group ::
  "'n build_externals \<Rightarrow> (nat \<Rightarrow> uuid) \<Rightarrow> uuid \<Rightarrow> 'n parsed_task_group \<Rightarrow> build_state \<Rightarrow> build_state checked option" where
  "build_group X fresh workflow_id g st =
     proceed (Some (group_to_proto_tasks X fresh workflow_id (bs_fresh st) (pgr_tasks g))) (\<lambda>ds0.
     proceed (stamp_timeouts (pgr_tasks g) ds0) (\<lambda>ds1.
     let ds = stamp_loop_participants (pgr_edges g) ds1 in
     (case task_ids X ds of
        None \<Rightarrow> None
      | Some ids \<Rightarrow> Some (Inr \<lparr> bs_tasks = bs_tasks st @ ds, bs_names = rev (zip (map td_name ds) ids) @ bs_names st,
          bs_groups = bs_groups st @ [ids], bs_fresh = bs_fresh st + length ds \<rparr>))))"

fun build_groups ::
  "'n build_externals \<Rightarrow> (nat \<Rightarrow> uuid) \<Rightarrow> uuid \<Rightarrow> 'n parsed_task_group list \<Rightarrow> build_state \<Rightarrow> build_state checked option" where
  "build_groups X fresh workflow_id [] st = Some (Inr st)"
| "build_groups X fresh workflow_id (g # gs) st =
     proceed (build_group X fresh workflow_id g st) (build_groups X fresh workflow_id gs)"

section \<open>Gates\<close>

definition duration_secs_to_proto :: "nat \<Rightarrow> wf_duration" where
  "duration_secs_to_proto secs = \<lparr> du_secs = secs, du_nanos = 0 \<rparr>"

definition gate_timeout ::
  "(string \<Rightarrow> parse_duration_error \<Rightarrow> build_error) \<Rightarrow> string option \<Rightarrow> wf_duration option checked" where
  "gate_timeout err t = (case t of
      None \<Rightarrow> Inr None
    | Some raw \<Rightarrow> (case parse_duration raw of Inl e \<Rightarrow> Inl (err raw e) | Inr n \<Rightarrow> Inr (Some (duration_secs_to_proto n))))"

definition check_jsonpath :: "'n build_externals \<Rightarrow> (string \<Rightarrow> build_error) \<Rightarrow> string option \<Rightarrow> unit checked" where
  "check_jsonpath X err p = (case p of
      None \<Rightarrow> Inr ()
    | Some raw \<Rightarrow> (case be_jsonpath X raw of None \<Rightarrow> Inr () | Some e \<Rightarrow> Inl (err e)))"

definition project_signal_gate_proto :: "'n build_externals \<Rightarrow> string \<Rightarrow> parsed_signal_gate \<Rightarrow> gate checked" where
  "project_signal_gate_proto X label g =
     (if is_blank (psr_name (psg_signal g)) then Inl SignalGateBlank
      else and_then (check_jsonpath X (SignalGatePredicate label) (psg_predicate g)) (\<lambda>_.
        and_then (gate_timeout (SignalGateTimeout label) (psg_timeout g)) (\<lambda>timeout.
        Inr (Some (SignalReceived \<lparr> sr_signal_name = psr_name (psg_signal g), sr_predicate = psg_predicate g,
          sr_captures_spec = map to_proto_capture (psg_captures g), sr_timeout = timeout \<rparr>)))))"

definition json_to_routing_value_proto :: "'n build_externals \<Rightarrow> 'n json \<Rightarrow> string + routing_value option" where
  "json_to_routing_value_proto X v =
     (case v of
        JString s \<Rightarrow> Inr (Some (StringValue s))
      | JBool b \<Rightarrow> Inr (Some (BoolValue b))
      | JNumber n \<Rightarrow> (case be_as_i64 X n of None \<Rightarrow> Inl ''only integer numbers are supported'' | Some i \<Rightarrow> Inr (Some (IntValue i)))
      | _ \<Rightarrow> Inl ''supported values are strings, integers, or booleans'')"

definition project_predicate_gate_proto :: "'n build_externals \<Rightarrow> string \<Rightarrow> 'n parsed_predicate_gate \<Rightarrow> gate checked" where
  "project_predicate_gate_proto X label g =
     (if is_blank (ppg_routing_var g) then Inl (PredicateGateBlank label)
      else (case map_of comparison_ops (ppg_op g) of
          None \<Rightarrow> Inl (PredicateGateOp label (ppg_op g))
        | Some op' \<Rightarrow>
            (case json_to_routing_value_proto X (ppg_value g) of
               Inl e \<Rightarrow> Inl (PredicateGateValue label e)
             | Inr v \<Rightarrow>
                 and_then (gate_timeout (PredicateGateTimeout label) (ppg_timeout g)) (\<lambda>timeout.
                 Inr (Some (PredicateHolds \<lparr> ph_routing_var = ppg_routing_var g, ph_op = op', ph_value = Some v, ph_timeout = timeout \<rparr>))))))"

definition project_timer_gate_proto :: "string \<Rightarrow> parsed_timer_gate \<Rightarrow> gate checked" where
  "project_timer_gate_proto label g =
     (case parse_duration (ptg_duration g) of
        Inl e \<Rightarrow> Inl (TimerGateDuration label (ptg_duration g) e)
      | Inr n \<Rightarrow> Inr (Some (TimerElapsed \<lparr> te_duration = Some (duration_secs_to_proto n) \<rparr>)))"

fun project_gate_proto :: "'n build_externals \<Rightarrow> string \<Rightarrow> 'n parsed_gate \<Rightarrow> gate checked" where
  "project_gate_proto X label (SignalGate g) = project_signal_gate_proto X label g"
| "project_gate_proto X label (PredicateGate g) = project_predicate_gate_proto X label g"
| "project_gate_proto X label (TimerGate g) = project_timer_gate_proto label g"

section \<open>Edges\<close>

definition edge_kind_to_proto :: "string option \<Rightarrow> int" where
  "edge_kind_to_proto k =
     (if k = Some ''data'' then EDGE_KIND_DATA else if k = Some ''loop'' then EDGE_KIND_LOOP else EDGE_KIND_CONTROL)"

text \<open>The closure \<open>resolve\<close>: a declared task wins over the reserved names.\<close>

definition resolve_name :: "'n build_externals \<Rightarrow> (string \<times> uuid) list \<Rightarrow> uuid \<Rightarrow> uuid \<Rightarrow> string \<Rightarrow> string checked" where
  "resolve_name X names start_id end_id n =
     (case map_of names n of
        Some i \<Rightarrow> Inr (be_uuid_text X i)
      | None \<Rightarrow>
          if n = ''End'' then Inr (be_uuid_text X end_id)
          else if n = ''Start'' then Inr (be_uuid_text X start_id)
          else Inl (UnknownEdgeTask n))"

text \<open>The implicit chain of a group without edges.\<close>

fun chain_edges :: "'n build_externals \<Rightarrow> (nat \<Rightarrow> uuid) \<Rightarrow> nat \<Rightarrow> uuid list \<Rightarrow> edge list" where
  "chain_edges X fresh k (a # b # ids) =
     \<lparr> ge_id = be_uuid_text X (fresh k), ge_sources = [be_uuid_text X a], ge_targets = [be_uuid_text X b],
       ge_kind = EDGE_KIND_CONTROL, ge_gates = [] \<rparr> # chain_edges X fresh (Suc k) (b # ids)"
| "chain_edges X fresh k _ = []"

definition proto_edge ::
  "'n build_externals \<Rightarrow> (string \<times> uuid) list \<Rightarrow> uuid \<Rightarrow> uuid \<Rightarrow> string \<Rightarrow> uuid \<Rightarrow> 'n parsed_edge \<Rightarrow> edge checked" where
  "proto_edge X names start_id end_id label i e =
     and_then (all_checked (resolve_name X names start_id end_id) (pe_sources e)) (\<lambda>sources.
     and_then (all_checked (resolve_name X names start_id end_id) (pe_targets e)) (\<lambda>targets.
     and_then (case pe_gate e of None \<Rightarrow> Inr [] | Some g \<Rightarrow> and_then (project_gate_proto X label g) (\<lambda>gt. Inr [gt])) (\<lambda>gates.
     Inr \<lparr> ge_id = be_uuid_text X i, ge_sources = sources, ge_targets = targets, ge_kind = edge_kind_to_proto (pe_kind e),
           ge_gates = gates \<rparr>)))"

fun proto_edges ::
  "'n build_externals \<Rightarrow> (nat \<Rightarrow> uuid) \<Rightarrow> (string \<times> uuid) list \<Rightarrow> uuid \<Rightarrow> uuid \<Rightarrow> string \<Rightarrow> nat \<Rightarrow> 'n parsed_edge list \<Rightarrow> edge list checked" where
  "proto_edges X fresh names start_id end_id label k [] = Inr []"
| "proto_edges X fresh names start_id end_id label k (e # es) =
     and_then (proto_edge X names start_id end_id label (fresh k) e) (\<lambda>d.
     and_then (proto_edges X fresh names start_id end_id label (Suc k) es) (\<lambda>ds. Inr (d # ds)))"

fun all_edges ::
  "'n build_externals \<Rightarrow> (nat \<Rightarrow> uuid) \<Rightarrow> (string \<times> uuid) list \<Rightarrow> uuid \<Rightarrow> uuid \<Rightarrow> string \<Rightarrow> nat
     \<Rightarrow> ('n parsed_task_group \<times> uuid list) list \<Rightarrow> edge list checked" where
  "all_edges X fresh names start_id end_id label k [] = Inr []"
| "all_edges X fresh names start_id end_id label k ((g, ids) # rest) =
     and_then (if pgr_edges g = [] then Inr (chain_edges X fresh k ids)
               else proto_edges X fresh names start_id end_id label k (pgr_edges g)) (\<lambda>es.
     and_then (all_edges X fresh names start_id end_id label (k + length es) rest) (\<lambda>fs. Inr (es @ fs)))"

definition graph_nodes :: "'n build_externals \<Rightarrow> uuid \<Rightarrow> uuid \<Rightarrow> task_definition list \<Rightarrow> graph_node list" where
  "graph_nodes X start_id end_id ds =
     \<lparr> gn_id = be_uuid_text X start_id, gn_node_type = NODE_TYPE_START \<rparr>
     # \<lparr> gn_id = be_uuid_text X end_id, gn_node_type = NODE_TYPE_END \<rparr>
     # map (\<lambda>d. \<lparr> gn_id = td_id d, gn_node_type = NODE_TYPE_TASK \<rparr>) ds"

section \<open>Signal inputs\<close>

definition signal_resolution_message :: "task_definition list \<Rightarrow> signal_resolution_error \<Rightarrow> build_error" where
  "signal_resolution_message tasks err =
     (let name_of = (\<lambda>i. case find (\<lambda>t. td_id t = i) tasks of Some t \<Rightarrow> td_name t | None \<Rightarrow> i)
      in case err of
           Unresolved task name \<Rightarrow> SignalUnresolved (name_of task) name
         | Ambiguous task name n \<Rightarrow> SignalAmbiguous (name_of task) name n)"

text \<open>One resolved slot, written to the first task with its identifier.\<close>

definition patch_slots :: "resolved_signal_source \<Rightarrow> input_source option option list \<Rightarrow> input_source option option list" where
  "patch_slots r slots =
     (if rs_slot r < length slots then
        (case slots ! rs_slot r of
           Some (Some (SignalSource name _)) \<Rightarrow> slots[rs_slot r := Some (Some (SignalSource name (rs_gate_edge_id r)))]
         | _ \<Rightarrow> slots)
      else slots)"

fun patch_task :: "resolved_signal_source \<Rightarrow> task_definition list \<Rightarrow> task_definition list" where
  "patch_task r [] = []"
| "patch_task r (t # ts) =
     (if td_id t = rs_task_id r then t\<lparr> td_input_sources := map_option (patch_slots r) (td_input_sources t) \<rparr> # ts
      else t # patch_task r ts)"

definition apply_signal_resolution :: "'n build_externals \<Rightarrow> task_graph \<Rightarrow> task_definition list \<Rightarrow> task_definition list checked option" where
  "apply_signal_resolution X g tasks =
     (case resolve_signal_input_sources (be_parse_uuid X) tasks g of
        None \<Rightarrow> None
      | Some (Inl e) \<Rightarrow> Some (Inl (signal_resolution_message tasks e))
      | Some (Inr rs) \<Rightarrow> Some (Inr (fold patch_task rs tasks)))"

section \<open>Predicate gates\<close>

fun all_ok :: "('a \<Rightarrow> unit checked option) \<Rightarrow> 'a list \<Rightarrow> unit checked option" where
  "all_ok f [] = Some (Inr ())"
| "all_ok f (x # xs) = proceed (f x) (\<lambda>_. all_ok f xs)"

definition check_source ::
  "task_graph \<Rightarrow> string set option \<Rightarrow> string \<Rightarrow> string \<Rightarrow> string \<Rightarrow> string \<Rightarrow> unit checked option" where
  "check_source g body var producer_name producer_id src =
     (if (case body of Some b \<Rightarrow> src \<in> b | None \<Rightarrow> False) then Some (Inr ())
      else (case validate_task_dominates g producer_id src of
          None \<Rightarrow> None
        | Some (Inr _) \<Rightarrow> Some (Inr ())
        | Some (Inl v) \<Rightarrow> Some (Inl (ProducerNotDominating var producer_name (dv_bypass_path v)))))"

definition check_gate ::
  "'n build_externals \<Rightarrow> (string \<times> string) list \<Rightarrow> (string \<times> uuid) list \<Rightarrow> task_graph \<Rightarrow> string set list \<Rightarrow> edge \<Rightarrow> gate
     \<Rightarrow> unit checked option" where
  "check_gate X producers names g bodies e gt =
     (case gt of
        Some (PredicateHolds ph) \<Rightarrow>
          (let var = ph_routing_var ph in
           case map_of producers var of
             None \<Rightarrow> Some (Inl (UndeclaredRoutingVar var))
           | Some producer_name \<Rightarrow>
               (case map_of names producer_name of
                  None \<Rightarrow> Some (Inl (ProducerMissing producer_name))
                | Some i \<Rightarrow>
                    let producer_id = be_uuid_text X i;
                        body = (if var = ''loop_control'' then find (\<lambda>b. producer_id \<in> b) bodies else None)
                    in all_ok (check_source g body var producer_name producer_id) (ge_sources e)))
      | _ \<Rightarrow> Some (Inr ()))"

definition validate_predicate_gate_dominators_proto ::
  "'n build_externals \<Rightarrow> 'n parsed_workflow \<Rightarrow> (string \<times> uuid) list \<Rightarrow> task_graph \<Rightarrow> unit checked option" where
  "validate_predicate_gate_dominators_proto X w names g =
     (case loop_sccs g of
        None \<Rightarrow> None
      | Some bodies \<Rightarrow>
          all_ok (\<lambda>e. all_ok (check_gate X (rev (routing_owners w)) names g bodies e) (ge_gates e)) (tg_edges g))"

section \<open>Trigger\<close>

definition build_trigger :: "'n build_externals \<Rightarrow> 'n parsed_workflow \<Rightarrow> task_definition list \<Rightarrow> trigger_kind option checked" where
  "build_trigger X w tasks =
     (case pw_trigger_on w of
        Some (PCron expr) \<Rightarrow> Inr (Some (Cron expr))
      | Some PFireNow \<Rightarrow> Inr (Some FireNow)
      | None \<Rightarrow> Inr (Some FireNow)
      | Some (PWaitsOnSignal signal predicate captures) \<Rightarrow>
          if is_blank (psr_name signal) then Inl TriggerSignalBlank
          else and_then (check_jsonpath X (TriggerPredicate (pw_name w)) predicate) (\<lambda>_.
            and_then (validate_captures_with_outputs X (map to_proto_capture captures) tasks) (\<lambda>_.
            Inr (Some (WaitsOnSignal \<lparr> ww_signal_name = psr_name signal, ww_predicate = predicate,
              ww_captures = map to_proto_capture captures \<rparr>)))))"

section \<open>parse\_workflow\_from\_json\_for\_tenant\<close>

definition workflow_timeout :: "'n parsed_workflow \<Rightarrow> nat option checked" where
  "workflow_timeout w = (case pw_timeout w of
      None \<Rightarrow> Inr None
    | Some raw \<Rightarrow> (case parse_duration raw of Inl e \<Rightarrow> Inl (WorkflowTimeout (pw_name w) raw e) | Inr n \<Rightarrow> Inr (Some n)))"

text \<open>What is checked before a task is built: the namespace, the identity and the timeout.\<close>

definition admit_workflow ::
  "'n build_externals \<Rightarrow> string \<Rightarrow> uuid \<Rightarrow> string \<Rightarrow> ('n parsed_workflow \<times> string \<times> uuid \<times> nat option) checked" where
  "admit_workflow X json_str tenant namespace0 =
     (case be_from_str X json_str of
        Inl e \<Rightarrow> Inl (JsonError e)
      | Inr w \<Rightarrow>
          and_then (validate_definition_tags (pw_tags w)) (\<lambda>_.
          and_then (validate_single_producer w) (\<lambda>_.
          and_then (validate_emit_co_location w) (\<lambda>_.
          let namespace = (if is_blank namespace0 then ''default'' else namespace0) in
          and_then (validate_identity_segment namespace ''namespace'') (\<lambda>_.
          and_then (validate_identity_segment (pw_slug w) ''slug'') (\<lambda>_.
          and_then (workflow_timeout w) (\<lambda>timeout_secs.
          Inr (w, namespace, derive_workflow_id X tenant namespace (pw_slug w), timeout_secs))))))))"

text \<open>The unsealed graph, and the number of the next fresh identifier.\<close>

definition unsealed_graph ::
  "'n build_externals \<Rightarrow> (nat \<Rightarrow> uuid) \<Rightarrow> 'n parsed_workflow \<Rightarrow> build_state \<Rightarrow> (task_graph \<times> nat) checked" where
  "unsealed_graph X fresh w st =
     (let start_id = fresh (bs_fresh st); end_id = fresh (bs_fresh st + 1); k = bs_fresh st + 2 in
      and_then (all_edges X fresh (bs_names st) start_id end_id (pw_name w) k (zip (pw_tasks w) (bs_groups st))) (\<lambda>edges.
      Inr (\<lparr> tg_nodes = graph_nodes X start_id end_id (bs_tasks st), tg_edges = edges, tg_start = be_uuid_text X start_id,
             tg_end = be_uuid_text X end_id \<rparr>, k + length edges)))"

text \<open>From the seal to the trigger.\<close>

definition close_definition ::
  "'n build_externals \<Rightarrow> (nat \<Rightarrow> uuid) \<Rightarrow> 'n parsed_workflow \<Rightarrow> (string \<times> uuid) list \<Rightarrow> nat \<Rightarrow> workflow_definition
     \<Rightarrow> workflow_definition checked option" where
  "close_definition X fresh w names k def =
     (case seal (\<lambda>j. be_uuid_text X (fresh (k + j))) (from_definition def) of
        None \<Rightarrow> None
      | Some model \<Rightarrow>
          let g = pg_graph model in
          proceed (apply_signal_resolution X g (wd_tasks def)) (\<lambda>tasks.
          proceed (validate_predicate_gate_dominators_proto X w names g) (\<lambda>_.
          case validate_loop_terminability g of
            None \<Rightarrow> None
          | Some (Inl v) \<Rightarrow> Some (Inl (NonTerminableLoop (pw_name w) v))
          | Some (Inr _) \<Rightarrow>
              proceed (Some (build_trigger X w tasks)) (\<lambda>trigger.
              Some (Inr (def\<lparr> wd_tasks := tasks, wd_task_graph := Some g, wd_captures := map to_proto_capture (pw_captures w),
                wd_trigger := Some trigger \<rparr>))))))"

definition parse_workflow_from_json_for_tenant ::
  "'n build_externals \<Rightarrow> (nat \<Rightarrow> uuid) \<Rightarrow> string \<Rightarrow> uuid \<Rightarrow> string \<Rightarrow> workflow_definition checked option" where
  "parse_workflow_from_json_for_tenant X fresh json_str tenant namespace0 =
     proceed (Some (admit_workflow X json_str tenant namespace0)) (\<lambda>(w, namespace, workflow_id, timeout_secs).
     proceed (build_groups X fresh workflow_id (pw_tasks w) \<lparr> bs_tasks = [], bs_names = [], bs_groups = [], bs_fresh = 0 \<rparr>) (\<lambda>st.
     proceed (Some (unsealed_graph X fresh w st)) (\<lambda>(g, k).
     close_definition X fresh w (bs_names st) k
       \<lparr> wd_id = be_uuid_text X workflow_id, wd_tenant_id = be_uuid_text X tenant, wd_namespace = namespace, wd_slug = pw_slug w,
         wd_name = pw_name w, wd_version = 0, wd_tasks = bs_tasks st, wd_task_graph = Some g, wd_trigger = None,
         wd_status = WORKFLOW_STATUS_INACTIVE, wd_captures = [], wd_timeout_secs = timeout_secs, wd_tags = pw_tags w \<rparr>)))"

end
