(* ===== verification/Tarjan_Invariant.thy ===== *)
theory Tarjan_Invariant
  imports Definition_Seal
begin

text \<open>
  The invariant of \<open>tarjan_loop\<close>, kept by the discovery of a node and by a child that was seen before. It
  speaks of the nodes on the stack, of which some are open (they have a frame) and the others are
  pending (all their children were searched).
\<close>

section \<open>Vocabulary\<close>

definition idx :: "tarjan \<Rightarrow> string \<Rightarrow> nat" where
  "idx st v = the (t_index st v)"

definition low :: "tarjan \<Rightarrow> string \<Rightarrow> nat" where
  "low st v = the (t_low st v)"

abbreviation reach :: "adjacency \<Rightarrow> (string \<times> string) set" where
  "reach adj \<equiv> (set adj)\<^sup>*"

definition scc :: "adjacency \<Rightarrow> string \<Rightarrow> string set" where
  "scc adj v = {w. (v, w) \<in> reach adj \<and> (w, v) \<in> reach adj}"

definition popped :: "tarjan \<Rightarrow> string set" where
  "popped st = dom (t_index st) - set (t_stack st)"

text \<open>The children of a node that were searched: of an open node below the top, the last one taken is
  still being searched.\<close>

fun searched_below :: "adjacency \<Rightarrow> (string \<times> nat) list \<Rightarrow> string \<Rightarrow> string set" where
  "searched_below adj [] v = set (neighbours adj v)"
| "searched_below adj ((n, k) # fs) v = (if v = n then set (take (k - 1) (neighbours adj n)) else searched_below adj fs v)"

fun searched :: "adjacency \<Rightarrow> (string \<times> nat) list \<Rightarrow> string \<Rightarrow> string set" where
  "searched adj [] v = set (neighbours adj v)"
| "searched adj ((n, k) # fs) v = (if v = n then set (take k (neighbours adj n)) else searched_below adj fs v)"

fun links :: "adjacency \<Rightarrow> (string \<times> nat) list \<Rightarrow> bool" where
  "links adj ((c, i) # (p, k) # fs) \<longleftrightarrow> 0 < k \<and> k \<le> length (neighbours adj p) \<and> neighbours adj p ! (k - 1) = c \<and> links adj ((p, k) # fs)"
| "links adj _ \<longleftrightarrow> True"

section \<open>Invariant\<close>

definition num_inv :: "tarjan \<Rightarrow> bool" where
  "num_inv st \<longleftrightarrow> dom (t_low st) = dom (t_index st) \<and> (\<forall>v \<in> dom (t_index st). idx st v < t_next st)
     \<and> inj_on (idx st) (dom (t_index st)) \<and> sorted_wrt (\<lambda>a b. idx st b < idx st a) (t_stack st)
     \<and> set (t_stack st) \<subseteq> dom (t_index st) \<and> t_on_stack st = set (t_stack st)"

definition frame_inv :: "adjacency \<Rightarrow> tarjan \<Rightarrow> (string \<times> nat) list \<Rightarrow> bool" where
  "frame_inv adj st fs \<longleftrightarrow> sorted_wrt (\<lambda>a b. idx st b < idx st a) (map fst fs) \<and> fst ` set fs \<subseteq> set (t_stack st) \<and> links adj fs
     \<and> (\<forall>v \<in> set (t_stack st). \<exists>n \<in> fst ` set fs. idx st n \<le> idx st v)
     \<and> (\<forall>n \<in> fst ` set fs. \<forall>v \<in> set (t_stack st). idx st n \<le> idx st v \<longrightarrow> (n, v) \<in> reach adj)"

definition low_inv :: "adjacency \<Rightarrow> tarjan \<Rightarrow> (string \<times> nat) list \<Rightarrow> bool" where
  "low_inv adj st fs \<longleftrightarrow>
     (\<forall>v \<in> set (t_stack st). \<exists>m \<in> set (t_stack st). low st v = idx st m \<and> idx st m \<le> idx st v \<and> (v, m) \<in> reach adj)
     \<and> (\<forall>v \<in> set (t_stack st) - fst ` set fs. low st v < idx st v)
     \<and> (\<forall>v \<in> set (t_stack st) - fst ` set fs. \<forall>n \<in> fst ` set fs. idx st n < idx st v \<longrightarrow>
          (\<forall>n' \<in> fst ` set fs. idx st n' < idx st v \<longrightarrow> idx st n' \<le> idx st n) \<longrightarrow> low st n \<le> low st v)"

definition edge_inv :: "adjacency \<Rightarrow> tarjan \<Rightarrow> (string \<times> nat) list \<Rightarrow> bool" where
  "edge_inv adj st fs \<longleftrightarrow>
     (\<forall>v \<in> set (t_stack st). \<forall>w \<in> searched adj fs v. w \<in> dom (t_index st) \<and> (w \<in> set (t_stack st) \<longrightarrow> low st v \<le> idx st w))
     \<and> (\<forall>v \<in> popped st. \<forall>w. (v, w) \<in> set adj \<longrightarrow> w \<in> popped st)"

definition scc_inv :: "task_graph \<Rightarrow> adjacency \<Rightarrow> tarjan \<Rightarrow> bool" where
  "scc_inv g adj st \<longleftrightarrow> distinct (t_sccs st)
     \<and> set (t_sccs st) = {C. \<exists>v \<in> popped st. C = scc adj v \<and> is_loop_body g C}
     \<and> (\<forall>v \<in> popped st. scc adj v \<subseteq> popped st)"

definition tarjan_inv :: "task_graph \<Rightarrow> adjacency \<Rightarrow> tarjan \<Rightarrow> (string \<times> nat) list \<Rightarrow> bool" where
  "tarjan_inv g adj st fs \<longleftrightarrow> num_inv st \<and> frame_inv adj st fs \<and> low_inv adj st fs \<and> edge_inv adj st fs \<and> scc_inv g adj st"

lemma num_invD:
  assumes "num_inv st"
  shows "v \<in> set (t_stack st) \<Longrightarrow> \<exists>i. t_index st v = Some i" "v \<in> set (t_stack st) \<Longrightarrow> \<exists>l. t_low st v = Some l"
    "v \<in> set (t_stack st) \<Longrightarrow> w \<in> set (t_stack st) \<Longrightarrow> idx st v = idx st w \<Longrightarrow> v = w"
    "v \<in> set (t_stack st) \<Longrightarrow> idx st v < t_next st"
  using assms by (auto simp: num_inv_def dest: inj_onD)

lemma frame_invD:
  assumes "frame_inv adj st fs"
  shows "v \<in> set (t_stack st) \<Longrightarrow> \<exists>n \<in> fst ` set fs. idx st n \<le> idx st v" "fst ` set fs \<subseteq> set (t_stack st)"
    "n \<in> fst ` set fs \<Longrightarrow> v \<in> set (t_stack st) \<Longrightarrow> idx st n \<le> idx st v \<Longrightarrow> (n, v) \<in> reach adj" "links adj fs"
  using assms unfolding frame_inv_def by blast+

lemma low_invD:
  assumes "low_inv adj st fs"
  shows "v \<in> set (t_stack st) \<Longrightarrow> \<exists>m \<in> set (t_stack st). low st v = idx st m \<and> idx st m \<le> idx st v \<and> (v, m) \<in> reach adj"
    "v \<in> set (t_stack st) \<Longrightarrow> low st v \<le> idx st v"
    "v \<in> set (t_stack st) \<Longrightarrow> v \<notin> fst ` set fs \<Longrightarrow> low st v < idx st v"
    "v \<in> set (t_stack st) \<Longrightarrow> v \<notin> fst ` set fs \<Longrightarrow> n \<in> fst ` set fs \<Longrightarrow> idx st n < idx st v \<Longrightarrow>
      \<forall>n' \<in> fst ` set fs. idx st n' < idx st v \<longrightarrow> idx st n' \<le> idx st n \<Longrightarrow> low st n \<le> low st v"
proof -
  note l = assms [unfolded low_inv_def]
  show 1: "\<exists>m \<in> set (t_stack st). low st v = idx st m \<and> idx st m \<le> idx st v \<and> (v, m) \<in> reach adj" if "v \<in> set (t_stack st)" for v
    using l that by blast
  show "low st v \<le> idx st v" if "v \<in> set (t_stack st)" for v using 1 [OF that] by auto
  show "v \<in> set (t_stack st) \<Longrightarrow> v \<notin> fst ` set fs \<Longrightarrow> low st v < idx st v" using l by blast
  show "v \<in> set (t_stack st) \<Longrightarrow> v \<notin> fst ` set fs \<Longrightarrow> n \<in> fst ` set fs \<Longrightarrow> idx st n < idx st v \<Longrightarrow>
      \<forall>n' \<in> fst ` set fs. idx st n' < idx st v \<longrightarrow> idx st n' \<le> idx st n \<Longrightarrow> low st n \<le> low st v" using l by blast
qed

lemma edge_invD:
  assumes "edge_inv adj st fs"
  shows "v \<in> set (t_stack st) \<Longrightarrow> w \<in> searched adj fs v \<Longrightarrow> w \<in> dom (t_index st)"
    "v \<in> set (t_stack st) \<Longrightarrow> w \<in> searched adj fs v \<Longrightarrow> w \<in> set (t_stack st) \<Longrightarrow> low st v \<le> idx st w"
    "v \<in> popped st \<Longrightarrow> (v, w) \<in> set adj \<Longrightarrow> w \<in> popped st"
  using assms unfolding edge_inv_def by blast+

section \<open>Discovering a node\<close>

lemma discover_simps [simp]:
  "t_index (discover c st) = (t_index st)(c \<mapsto> t_next st)" "t_low (discover c st) = (t_low st)(c \<mapsto> t_next st)"
  "t_stack (discover c st) = c # t_stack st" "t_next (discover c st) = Suc (t_next st)"
  "t_on_stack (discover c st) = insert c (t_on_stack st)" "t_sccs (discover c st) = t_sccs st"
  by (simp_all add: discover_def)

lemma popped_discover: "t_index st c = None \<Longrightarrow> set (t_stack st) \<subseteq> dom (t_index st) \<Longrightarrow> popped (discover c st) = popped st"
  by (auto simp: popped_def)

lemma idx_discover [simp]: "idx (discover c st) v = (if v = c then t_next st else idx st v)"
  by (simp add: idx_def)

lemma low_discover [simp]: "low (discover c st) v = (if v = c then t_next st else low st v)"
  by (simp add: low_def)

lemma sorted_wrt_idx_cong:
  "(\<And>v. v \<in> set xs \<Longrightarrow> f v = g v) \<Longrightarrow> sorted_wrt (\<lambda>a b. f b < (f a :: nat)) xs \<longleftrightarrow> sorted_wrt (\<lambda>a b. g b < g a) xs"
  by (induction xs) auto

lemma discover_num_inv:
  assumes "num_inv st" and "t_index st c = None"
  shows "num_inv (discover c st)"
proof -
  note n = assms(1) [unfolded num_inv_def]
  have c: "c \<notin> dom (t_index st)" "c \<notin> set (t_stack st)" using n assms(2) by (auto simp: domIff)
  have "sorted_wrt (\<lambda>a b. idx (discover c st) b < idx (discover c st) a) (t_stack st) \<longleftrightarrow> sorted_wrt (\<lambda>a b. idx st b < idx st a) (t_stack st)"
    by (rule sorted_wrt_idx_cong) (use c in auto)
  moreover have "inj_on (idx (discover c st)) (insert c (dom (t_index st)))"
  proof -
    have "inj_on (idx (discover c st)) (dom (t_index st))" using n c(1) by (auto simp: inj_on_def)
    moreover have "\<forall>v \<in> dom (t_index st). idx st v \<noteq> t_next st" using n by (metis less_irrefl)
    ultimately show ?thesis using c(1) by (auto simp: inj_on_insert)
  qed
  ultimately show ?thesis
    using n c num_invD(4) [OF assms(1)] by (auto simp: num_inv_def less_Suc_eq)
qed

lemma discover_frame_inv:
  assumes num: "num_inv st" and fr: "frame_inv adj st ((node, k) # fs)" and c: "t_index st c = None"
    and k: "k < length (neighbours adj node)" and child: "neighbours adj node ! k = c"
  shows "frame_inv adj (discover c st) ((c, 0) # (node, Suc k) # fs)"
proof -
  have cs: "c \<notin> set (t_stack st)" using num c by (auto simp: num_inv_def)
  have fs: "fst ` set ((node, k) # fs) \<subseteq> set (t_stack st)" using fr by (simp add: frame_inv_def)
  then have cf: "c \<notin> fst ` set ((node, k) # fs)" using cs by blast
  have edge: "(node, c) \<in> set adj" using k child neighbours_iff nth_mem by metis
  have "sorted_wrt (\<lambda>a b. idx (discover c st) b < idx (discover c st) a) (map fst ((node, k) # fs))
      \<longleftrightarrow> sorted_wrt (\<lambda>a b. idx st b < idx st a) (map fst ((node, k) # fs))"
    by (rule sorted_wrt_idx_cong) (use cf in auto)
  moreover have "\<forall>v \<in> fst ` set ((node, k) # fs). idx st v < t_next st" using fs num_invD(4) [OF num] by blast
  ultimately have "sorted_wrt (\<lambda>a b. idx (discover c st) b < idx (discover c st) a) (map fst ((c, 0) # (node, Suc k) # fs))"
    using fr cf by (auto simp: frame_inv_def)
  moreover have "\<exists>n \<in> fst ` set ((c, 0) # (node, Suc k) # fs). idx (discover c st) n \<le> idx (discover c st) v"
    if v: "v \<in> set (t_stack (discover c st))" for v
  proof (cases "v = c")
    case False
    then obtain n where "n \<in> fst ` set ((node, k) # fs)" "idx st n \<le> idx st v" using frame_invD(1) [OF fr, of v] v by (metis discover_simps(3) set_ConsD)
    then show ?thesis using cf False by (intro bexI [of _ n]) auto
  qed simp
  moreover have "(n, v) \<in> reach adj"
    if n: "n \<in> fst ` set ((c, 0) # (node, Suc k) # fs)" and v: "v \<in> set (t_stack (discover c st))"
      and le: "idx (discover c st) n \<le> idx (discover c st) v" for n v
  proof -
    consider "n = c" "v = c" | "n = c" "v \<noteq> c" | "n \<noteq> c" "v = c" | "n \<noteq> c" "v \<noteq> c" by blast
    then show ?thesis
    proof cases
      case 2
      then have "idx st v < t_next st" using v num_invD(4) [OF num, of v] by simp
      with 2 le show ?thesis by simp
    next
      case 3
      then have n': "n \<in> fst ` set ((node, k) # fs)" using n by auto
      have "idx st n \<le> idx st node" using fr n' by (auto simp: frame_inv_def)
      then have "(n, node) \<in> reach adj" using fr n' fs by (auto simp: frame_inv_def)
      with edge 3 show ?thesis by (auto intro: rtrancl_into_rtrancl)
    next
      case 4
      then show ?thesis using fr n v le by (auto simp: frame_inv_def)
    qed simp
  qed
  moreover have "links adj ((c, 0) # (node, Suc k) # fs)" using fr k child by (cases fs) (auto simp: frame_inv_def)
  ultimately show ?thesis using fs unfolding frame_inv_def by auto
qed

lemma discover_low_inv:
  assumes num: "num_inv st" and fr: "frame_inv adj st ((node, k) # fs)" and lo: "low_inv adj st ((node, k) # fs)" and c: "t_index st c = None"
  shows "low_inv adj (discover c st) ((c, 0) # (node, Suc k) # fs)"
proof -
  have cs: "c \<notin> set (t_stack st)" using num c by (auto simp: num_inv_def)
  have fs: "fst ` set ((node, k) # fs) \<subseteq> set (t_stack st)" using fr by (simp add: frame_inv_def)
  have lt: "idx st v < t_next st" if "v \<in> set (t_stack st)" for v using num_invD(4) [OF num that] .
  have "\<exists>m \<in> set (t_stack (discover c st)). low (discover c st) v = idx (discover c st) m \<and> idx (discover c st) m \<le> idx (discover c st) v \<and> (v, m) \<in> reach adj"
    if v: "v \<in> set (t_stack (discover c st))" for v
  proof (cases "v = c")
    case False
    then obtain m where "m \<in> set (t_stack st)" "low st v = idx st m" "idx st m \<le> idx st v" "(v, m) \<in> reach adj"
      using lo v by (auto simp: low_inv_def)
    then show ?thesis using False cs by (intro bexI [of _ m]) auto
  qed simp
  moreover have "low (discover c st) v < idx (discover c st) v" if "v \<in> set (t_stack (discover c st)) - fst ` set ((c, 0) # (node, Suc k) # fs)" for v
    using lo that by (auto simp: low_inv_def)
  moreover have "low (discover c st) n \<le> low (discover c st) v"
    if v: "v \<in> set (t_stack (discover c st)) - fst ` set ((c, 0) # (node, Suc k) # fs)" and n: "n \<in> fst ` set ((c, 0) # (node, Suc k) # fs)"
      and lv: "idx (discover c st) n < idx (discover c st) v"
      and near: "\<forall>n' \<in> fst ` set ((c, 0) # (node, Suc k) # fs). idx (discover c st) n' < idx (discover c st) v \<longrightarrow> idx (discover c st) n' \<le> idx (discover c st) n"
    for n v
  proof -
    have v': "v \<in> set (t_stack st)" "v \<noteq> c" using v by auto
    have nc: "n \<noteq> c" using lv lt [OF v'(1)] v'(2) by auto
    then have n': "n \<in> fst ` set ((node, k) # fs)" using n by auto
    have "idx st n < idx st v" using lv nc v'(2) by simp
    moreover have "\<forall>n' \<in> fst ` set ((node, k) # fs). idx st n' < idx st v \<longrightarrow> idx st n' \<le> idx st n"
    proof (intro ballI impI)
      fix n' assume a: "n' \<in> fst ` set ((node, k) # fs)" "idx st n' < idx st v"
      then have "n' \<noteq> c" using fs cs by blast
      with near a nc v'(2) show "idx st n' \<le> idx st n" by auto
    qed
    ultimately have "low st n \<le> low st v" using lo n' v v' unfolding low_inv_def by auto
    then show ?thesis using nc v'(2) by simp
  qed
  ultimately show ?thesis unfolding low_inv_def by blast
qed

lemma searched_discover:
  "v \<noteq> c \<Longrightarrow> searched adj ((c, 0) # (node, Suc k) # fs) v = searched adj ((node, k) # fs) v"
  by simp

lemma discover_edge_inv:
  assumes num: "num_inv st" and ed: "edge_inv adj st ((node, k) # fs)" and c: "t_index st c = None"
  shows "edge_inv adj (discover c st) ((c, 0) # (node, Suc k) # fs)"
proof -
  have cs: "c \<notin> set (t_stack st)" "c \<notin> dom (t_index st)" "set (t_stack st) \<subseteq> dom (t_index st)" using num c by (auto simp: num_inv_def)
  have "w \<in> dom (t_index (discover c st)) \<and> (w \<in> set (t_stack (discover c st)) \<longrightarrow> low (discover c st) v \<le> idx (discover c st) w)"
    if v: "v \<in> set (t_stack (discover c st))" and w: "w \<in> searched adj ((c, 0) # (node, Suc k) # fs) v" for v w
  proof (cases "v = c")
    case False
    then have "w \<in> searched adj ((node, k) # fs) v" using w searched_discover by metis
    then have "w \<in> dom (t_index st)" "w \<in> set (t_stack st) \<longrightarrow> low st v \<le> idx st w" using ed v False by (auto simp: edge_inv_def)
    then show ?thesis using False cs by auto
  qed (use w in simp)
  then show ?thesis using ed popped_discover [OF c cs(3)] by (simp only: edge_inv_def) blast
qed

lemma discover_inv:
  assumes "tarjan_inv g adj st ((node, k) # fs)" and "k < length (neighbours adj node)" and "t_index st (neighbours adj node ! k) = None"
  shows "tarjan_inv g adj (discover (neighbours adj node ! k) st) ((neighbours adj node ! k, 0) # (node, Suc k) # fs)"
proof -
  let ?c = "neighbours adj node ! k"
  have inv: "num_inv st" "frame_inv adj st ((node, k) # fs)" "low_inv adj st ((node, k) # fs)" "edge_inv adj st ((node, k) # fs)" "scc_inv g adj st"
    using assms(1) by (simp_all add: tarjan_inv_def)
  have "scc_inv g adj (discover ?c st)"
    using inv(1,5) popped_discover [of st ?c] assms(3) by (simp add: scc_inv_def num_inv_def)
  then show ?thesis
    using inv assms by (simp add: tarjan_inv_def discover_num_inv discover_frame_inv discover_low_inv discover_edge_inv)
qed

section \<open>A child that was seen before\<close>

text \<open>The lowlink of an open or finished node falls to the number of another node on the stack.\<close>

definition lowered :: "adjacency \<Rightarrow> tarjan \<Rightarrow> string \<Rightarrow> tarjan \<Rightarrow> bool" where
  "lowered adj st n st' \<longleftrightarrow> (\<exists>l. st' = st\<lparr> t_low := (t_low st)(n \<mapsto> l) \<rparr> \<and> l \<le> low st n
     \<and> (\<exists>m \<in> set (t_stack st). l = idx st m \<and> idx st m \<le> idx st n \<and> (n, m) \<in> reach adj))"

lemma loweredD:
  assumes "lowered adj st n st'" and "n \<in> set (t_stack st)" and "num_inv st"
  shows "num_inv st'" "t_index st' = t_index st" "t_stack st' = t_stack st" "t_sccs st' = t_sccs st" "popped st' = popped st"
    "idx st' = idx st" "v \<noteq> n \<Longrightarrow> low st' v = low st v" "low st' n \<le> low st n"
    "\<exists>m \<in> set (t_stack st). low st' n = idx st m \<and> idx st m \<le> idx st n \<and> (n, m) \<in> reach adj"
proof -
  from assms(1) obtain l where st': "st' = st\<lparr> t_low := (t_low st)(n \<mapsto> l) \<rparr>" and l: "l \<le> low st n"
    and m: "\<exists>m \<in> set (t_stack st). l = idx st m \<and> idx st m \<le> idx st n \<and> (n, m) \<in> reach adj"
    unfolding lowered_def by blast
  have ix: "idx st' = idx st" by (simp add: fun_eq_iff idx_def st')
  have lw: "low st' v = (if v = n then l else low st v)" for v by (simp add: low_def st')
  show "t_index st' = t_index st" "t_stack st' = t_stack st" "t_sccs st' = t_sccs st" "popped st' = popped st"
    by (simp_all add: st' popped_def)
  show "idx st' = idx st" by (rule ix)
  show "v \<noteq> n \<Longrightarrow> low st' v = low st v" "low st' n \<le> low st n" by (simp_all add: lw l)
  show "\<exists>m \<in> set (t_stack st). low st' n = idx st m \<and> idx st m \<le> idx st n \<and> (n, m) \<in> reach adj" using m by (simp add: lw)
  have "n \<in> dom (t_index st)" using assms(2,3) by (auto simp: num_inv_def)
  then show "num_inv st'" using assms(3) unfolding num_inv_def ix by (simp add: st' insert_absorb)
qed

lemma lowered_refl:
  assumes "low_inv adj st fs" and "n \<in> set (t_stack st)" and "num_inv st"
  shows "lowered adj st n st"
proof -
  obtain l where "t_low st n = Some l" using num_invD(2) [OF assms(3,2)] by blast
  then have "st = st\<lparr> t_low := (t_low st)(n \<mapsto> low st n) \<rparr>" by (simp add: low_def fun_upd_idem)
  then show ?thesis using assms(1,2) unfolding lowered_def low_inv_def by blast
qed

lemma advance_inv:
  assumes inv: "tarjan_inv g adj st ((node, k) # fs)" and k: "k < length (neighbours adj node)" and lw: "lowered adj st node st'"
    and child: "neighbours adj node ! k \<in> dom (t_index st)"
      "neighbours adj node ! k \<in> set (t_stack st) \<Longrightarrow> low st' node \<le> idx st (neighbours adj node ! k)"
  shows "tarjan_inv g adj st' ((node, Suc k) # fs)"
proof -
  have num: "num_inv st" and fr: "frame_inv adj st ((node, k) # fs)" and lo: "low_inv adj st ((node, k) # fs)"
    and ed: "edge_inv adj st ((node, k) # fs)" and sc: "scc_inv g adj st" using inv by (simp_all add: tarjan_inv_def)
  have ns: "node \<in> set (t_stack st)" using frame_invD(2) [OF fr] by simp
  note D = loweredD [OF lw ns num]
  have "links adj ((node, Suc k) # fs)" using frame_invD(4) [OF fr] by (cases fs) auto
  then have fr': "frame_inv adj st' ((node, Suc k) # fs)" using fr unfolding frame_inv_def D(3,6) by simp
  have le: "low st' v \<le> low st v" for v using D(7,8) by (cases "v = node") auto
  have lo': "low_inv adj st' ((node, Suc k) # fs)"
    unfolding low_inv_def D(3,6)
  proof (intro conjI ballI impI)
    fix v assume v: "v \<in> set (t_stack st)"
    show "\<exists>m \<in> set (t_stack st). low st' v = idx st m \<and> idx st m \<le> idx st v \<and> (v, m) \<in> reach adj"
    proof (cases "v = node")
      case True
      then show ?thesis using D(9) by simp
    next
      case False
      then show ?thesis using lo v D(7) by (simp add: low_inv_def)
    qed
  next
    fix v assume "v \<in> set (t_stack st) - fst ` set ((node, Suc k) # fs)"
    then show "low st' v < idx st v" using lo D(7) [of v] by (simp add: low_inv_def)
  next
    fix v n assume v: "v \<in> set (t_stack st) - fst ` set ((node, Suc k) # fs)" and n: "n \<in> fst ` set ((node, Suc k) # fs)"
      and "idx st n < idx st v" "\<forall>n' \<in> fst ` set ((node, Suc k) # fs). idx st n' < idx st v \<longrightarrow> idx st n' \<le> idx st n"
    then have "low st n \<le> low st v" using lo unfolding low_inv_def by auto
    moreover have "low st' v = low st v" using D(7) v by auto
    ultimately show "low st' n \<le> low st' v" using le [of n] by simp
  qed
  have "w \<in> dom (t_index st) \<and> (w \<in> set (t_stack st) \<longrightarrow> low st' v \<le> idx st w)"
    if v: "v \<in> set (t_stack st)" and w: "w \<in> searched adj ((node, Suc k) # fs) v" for v w
  proof -
    from w consider "w \<in> searched adj ((node, k) # fs) v" | "v = node" "w = neighbours adj node ! k"
      using k by (auto simp: take_Suc_conv_app_nth split: if_splits)
    then show ?thesis
    proof cases
      case 1
      then show ?thesis using ed v le [of v] by (fastforce simp: edge_inv_def)
    qed (use child in auto)
  qed
  then have "edge_inv adj st' ((node, Suc k) # fs)" using ed unfolding edge_inv_def D(2,3,5,6) by blast
  moreover have "scc_inv g adj st'" using sc by (simp add: scc_inv_def D(4,5))
  ultimately show ?thesis using D(1) fr' lo' by (simp add: tarjan_inv_def)
qed

end
