(* ===== verification/Tarjan_Correct.thy ===== *)
theory Tarjan_Correct
  imports Tarjan_Invariant
begin

text \<open>
  Correctness of \<open>loop_sccs\<close>: the search with explicit frames returns on every graph, without a panic,
  and yields exactly the strongly connected components of the loop edges that are cycles, each once.
\<close>

section \<open>Leaving a node that is not a root\<close>

lemma top_frame:
  assumes fr: "frame_inv adj st ((node, k) # fs)"
  shows "node \<notin> fst ` set fs" "n \<in> fst ` set fs \<Longrightarrow> idx st n < idx st node"
proof -
  show "n \<in> fst ` set fs \<Longrightarrow> idx st n < idx st node" for n using fr by (auto simp: frame_inv_def)
  then show "node \<notin> fst ` set fs" by blast
qed

lemma searched_tail:
  assumes "links adj ((node, k) # (p, kp) # fs)" and "length (neighbours adj node) \<le> k" and "node \<notin> fst ` set ((p, kp) # fs)"
    and "w \<in> searched adj ((p, kp) # fs) v"
  shows "w \<in> searched adj ((node, k) # (p, kp) # fs) v \<or> (v = p \<and> w = node)"
proof -
  have out: "searched_below adj gs node = set (neighbours adj node)" if "node \<notin> fst ` set gs" for gs
    using that by (induction adj gs node rule: searched_below.induct) auto
  have "take kp (neighbours adj p) = take (kp - 1) (neighbours adj p) @ [node]"
    using assms(1) take_Suc_conv_app_nth [of "kp - 1" "neighbours adj p"] by (cases kp) auto
  then show ?thesis using assms(2-4) out [of fs] by (auto split: if_splits)
qed

lemma leave_frame:
  assumes fr: "frame_inv adj st ((node, k) # (p, kp) # fs)"
  shows "frame_inv adj st ((p, kp) # fs)"
proof -
  have pn: "idx st p < idx st node" using top_frame(2) [OF fr] by simp
  have "\<exists>n \<in> fst ` set ((p, kp) # fs). idx st n \<le> idx st v" if v: "v \<in> set (t_stack st)" for v
  proof -
    obtain n where n: "n \<in> fst ` set ((node, k) # (p, kp) # fs)" "idx st n \<le> idx st v" using frame_invD(1) [OF fr v] by blast
    show ?thesis
    proof (cases "n = node")
      case True
      then show ?thesis using n(2) pn by (intro bexI [of _ p]) simp_all
    next
      case False
      then show ?thesis using n by (intro bexI [of _ n]) simp_all
    qed
  qed
  moreover have "(n, v) \<in> reach adj" if "n \<in> fst ` set ((p, kp) # fs)" "v \<in> set (t_stack st)" "idx st n \<le> idx st v" for n v
    using that by (intro frame_invD(3) [OF fr]) simp_all
  moreover have "sorted_wrt (\<lambda>a b. idx st b < idx st a) (map fst ((p, kp) # fs))" using fr by (simp add: frame_inv_def)
  moreover have "fst ` set ((p, kp) # fs) \<subseteq> set (t_stack st)" "links adj ((p, kp) # fs)" using frame_invD(2,4) [OF fr] by simp_all
  ultimately show ?thesis unfolding frame_inv_def by blast
qed

text \<open>A node on the stack above the top frame has no smaller lowlink than the top frame.\<close>

lemma top_low:
  assumes num: "num_inv st" and fr: "frame_inv adj st ((node, k) # fs)" and lo: "low_inv adj st ((node, k) # fs)"
    and v: "v \<in> set (t_stack st)" "idx st node \<le> idx st v"
  shows "low st node \<le> low st v"
proof (cases "v = node")
  case False
  have ns: "node \<in> set (t_stack st)" using frame_invD(2) [OF fr] by simp
  have "idx st node \<noteq> idx st v" using False num_invD(3) [OF num ns v(1)] by blast
  with v(2) have lt: "idx st node < idx st v" by simp
  have open_le: "idx st n \<le> idx st node" if "n \<in> fst ` set ((node, k) # fs)" for n
    using that top_frame(2) [OF fr, of n] by (cases "n = node") simp_all
  have "v \<notin> fst ` set ((node, k) # fs)" using open_le [of v] lt by linarith
  then show ?thesis using v(1) lt open_le by (intro low_invD(4) [OF lo]) simp_all
qed simp

lemma leave_near:
  assumes num: "num_inv st" and fr: "frame_inv adj st ((node, k) # (p, kp) # fs)" and v: "idx st node \<le> idx st v"
    and n: "n \<in> fst ` set ((p, kp) # fs)" and near: "\<forall>n' \<in> fst ` set ((p, kp) # fs). idx st n' < idx st v \<longrightarrow> idx st n' \<le> idx st n"
  shows "n = p"
proof (rule ccontr)
  assume np: "n \<noteq> p"
  have "idx st p < idx st v" using top_frame(2) [OF fr, of p] v by simp
  then have "idx st p \<le> idx st n" using bspec [OF near, of p] by simp
  moreover have "idx st n < idx st p" using top_frame(2) [OF leave_frame [OF fr], of n] n np by simp
  ultimately show False by simp
qed

lemma leave_low:
  assumes num: "num_inv st" and fr: "frame_inv adj st ((node, k) # (p, kp) # fs)" and lo: "low_inv adj st ((node, k) # (p, kp) # fs)"
    and nr: "low st node \<noteq> idx st node" and lw: "lowered adj st p st'" and lp: "low st' p \<le> low st node"
  shows "low_inv adj st' ((p, kp) # fs)"
proof -
  have ss: "node \<in> set (t_stack st)" "p \<in> set (t_stack st)" using frame_invD(2) [OF fr] by simp_all
  note D = loweredD [OF lw ss(2) num]
  have le: "low st' v \<le> low st v" for v using D(7,8) by (cases "v = p") simp_all
  show ?thesis
    unfolding low_inv_def D(3,6)
  proof (intro conjI ballI impI)
    fix v assume v: "v \<in> set (t_stack st)"
    show "\<exists>m \<in> set (t_stack st). low st' v = idx st m \<and> idx st m \<le> idx st v \<and> (v, m) \<in> reach adj"
      using D(7) [of v] D(9) low_invD(1) [OF lo v] by (cases "v = p") simp_all
  next
    fix v assume v: "v \<in> set (t_stack st) - fst ` set ((p, kp) # fs)"
    have "low st node < idx st node" using low_invD(2) [OF lo ss(1)] nr by simp
    moreover have "low st' v = low st v" using D(7) [of v] v by simp
    moreover have "v \<noteq> node \<Longrightarrow> low st v < idx st v" using v by (intro low_invD(3) [OF lo]) simp_all
    ultimately show "low st' v < idx st v" by (cases "v = node") simp_all
  next
    fix v n assume v: "v \<in> set (t_stack st) - fst ` set ((p, kp) # fs)" and n: "n \<in> fst ` set ((p, kp) # fs)"
      and lt: "idx st n < idx st v" and near: "\<forall>n' \<in> fst ` set ((p, kp) # fs). idx st n' < idx st v \<longrightarrow> idx st n' \<le> idx st n"
    have lv: "low st' v = low st v" using D(7) [of v] v by simp
    show "low st' n \<le> low st' v"
    proof (cases "idx st node \<le> idx st v")
      case True
      have "low st node \<le> low st v" using top_low [OF num fr lo _ True] v by simp
      then show ?thesis using leave_near [OF num fr True n near] lp lv by simp
    next
      case False
      have "v \<notin> fst ` set ((node, k) # (p, kp) # fs)" using v False by force
      moreover have "\<forall>n' \<in> fst ` set ((node, k) # (p, kp) # fs). idx st n' < idx st v \<longrightarrow> idx st n' \<le> idx st n"
        using near False by simp
      ultimately have "low st n \<le> low st v" using v n lt by (intro low_invD(4) [OF lo]) simp_all
      then show ?thesis using le [of n] lv by simp
    qed
  qed
qed

lemma leave_inv:
  assumes inv: "tarjan_inv g adj st ((node, k) # (p, kp) # fs)" and k: "length (neighbours adj node) \<le> k"
    and nr: "low st node \<noteq> idx st node" and lw: "lowered adj st p st'" and lp: "low st' p \<le> low st node"
  shows "tarjan_inv g adj st' ((p, kp) # fs)"
proof -
  let ?F = "(node, k) # (p, kp) # fs" and ?F' = "(p, kp) # fs"
  have num: "num_inv st" and fr: "frame_inv adj st ?F" and lo: "low_inv adj st ?F"
    and ed: "edge_inv adj st ?F" and sc: "scc_inv g adj st" using inv by (simp_all add: tarjan_inv_def)
  have ss: "node \<in> set (t_stack st)" "p \<in> set (t_stack st)" using frame_invD(2) [OF fr] by simp_all
  note D = loweredD [OF lw ss(2) num]
  have le: "low st' v \<le> low st v" for v using D(7,8) by (cases "v = p") simp_all
  have "frame_inv adj st' ?F'" using leave_frame [OF fr] unfolding frame_inv_def D(3,6) .
  moreover have "w \<in> dom (t_index st) \<and> (w \<in> set (t_stack st) \<longrightarrow> low st' v \<le> idx st w)"
    if v: "v \<in> set (t_stack st)" and w: "w \<in> searched adj ?F' v" for v w
  proof -
    from searched_tail [OF frame_invD(4) [OF fr] k top_frame(1) [OF fr] w] consider "w \<in> searched adj ?F v" | "v = p" "w = node" by blast
    then show ?thesis
    proof cases
      case 1
      then show ?thesis using edge_invD(1) [OF ed v 1] edge_invD(2) [OF ed v 1] order_trans [OF le [of v]] by simp
    next
      case 2
      then show ?thesis using low_invD(2) [OF lo ss(1)] lp num_invD(1) [OF num ss(1)] by auto
    qed
  qed
  then have "edge_inv adj st' ?F'" using edge_invD(3) [OF ed] unfolding edge_inv_def D(2,3,5,6) by blast
  moreover have "scc_inv g adj st'" using sc by (simp add: scc_inv_def D(4,5))
  ultimately show ?thesis using D(1) leave_low [OF num fr lo nr lw lp] by (simp add: tarjan_inv_def)
qed

section \<open>Leaving the root of a component\<close>

lemma pop_component_eq:
  "node \<notin> set xs \<Longrightarrow> pop_component node (xs @ node # ys) on c = Some (insert node (set xs) \<union> c, ys, on - insert node (set xs))"
  by (induction xs arbitrary: on c) auto

definition segment :: "tarjan \<Rightarrow> string \<Rightarrow> string set" where
  "segment st node = {v \<in> set (t_stack st). idx st node \<le> idx st v}"

lemma segment_split:
  assumes num: "num_inv st" and "node \<in> set (t_stack st)"
  obtains xs ys where "t_stack st = xs @ node # ys" "node \<notin> set xs" "insert node (set xs) = segment st node"
    "set ys = set (t_stack st) - segment st node"
proof -
  obtain xs ys where st: "t_stack st = xs @ node # ys" using assms(2) by (meson split_list)
  have "sorted_wrt (\<lambda>a b. idx st b < idx st a) (xs @ node # ys)" using num st by (simp add: num_inv_def)
  then have o: "\<forall>x \<in> set xs. idx st node < idx st x" "\<forall>y \<in> set ys. idx st y < idx st node" by (auto simp: sorted_wrt_append)
  have "node \<notin> set xs" using o(1) by blast
  moreover have "insert node (set xs) = segment st node" using o unfolding segment_def st by force
  moreover have "set ys = set (t_stack st) - segment st node" using o unfolding segment_def st by force
  ultimately show ?thesis using that st by blast
qed

text \<open>The top frame of a root, with all its children searched.\<close>

definition at_root :: "task_graph \<Rightarrow> adjacency \<Rightarrow> tarjan \<Rightarrow> string \<Rightarrow> nat \<Rightarrow> (string \<times> nat) list \<Rightarrow> bool" where
  "at_root g adj st node k fs \<longleftrightarrow> tarjan_inv g adj st ((node, k) # fs) \<and> length (neighbours adj node) \<le> k \<and> low st node = idx st node"

lemma at_rootD:
  assumes "at_root g adj st node k fs"
  shows "num_inv st" "frame_inv adj st ((node, k) # fs)" "low_inv adj st ((node, k) # fs)" "edge_inv adj st ((node, k) # fs)" "scc_inv g adj st"
    "length (neighbours adj node) \<le> k" "low st node = idx st node" "node \<in> set (t_stack st)"
  using assms frame_invD(2) [of adj st "(node, k) # fs"] by (auto simp: at_root_def tarjan_inv_def)

lemma segment_reaches_root:
  assumes r: "at_root g adj st node k fs" and "v \<in> segment st node"
  shows "(v, node) \<in> reach adj"
  using assms(2)
proof (induction "idx st v" arbitrary: v rule: less_induct)
  case less
  note R = at_rootD [OF r]
  have v: "v \<in> set (t_stack st)" "idx st node \<le> idx st v" using less.prems by (simp_all add: segment_def)
  show ?case
  proof (cases "v = node")
    case False
    have "idx st n \<le> idx st node" if "n \<in> fst ` set ((node, k) # fs)" for n
      using that top_frame(2) [OF R(2), of n] by (cases "n = node") simp_all
    then have "v \<notin> fst ` set ((node, k) # fs)" using v(2) False num_invD(3) [OF R(1) R(8) v(1)] by (metis le_antisym)
    then have "low st v < idx st v" using low_invD(3) [OF R(3) v(1)] by simp
    moreover obtain m where m: "m \<in> set (t_stack st)" "low st v = idx st m" "(v, m) \<in> reach adj" using low_invD(1) [OF R(3) v(1)] by blast
    moreover have "idx st node \<le> low st v" using top_low [OF R(1-3) v] R(7) by simp
    ultimately have "(m, node) \<in> reach adj" using less.hyps [of m] by (simp add: segment_def)
    with m(3) show ?thesis by (rule rtrancl_trans)
  qed simp
qed

lemma searched_all:
  assumes "node \<notin> fst ` set fs" and "length (neighbours adj node) \<le> k" and "v = node \<or> v \<notin> fst ` set fs"
  shows "searched adj ((node, k) # fs) v = set (neighbours adj v)"
proof -
  have "searched_below adj gs u = set (neighbours adj u)" if "u \<notin> fst ` set gs" for gs u
    using that by (induction adj gs u rule: searched_below.induct) auto
  then show ?thesis using assms by auto
qed

lemma segment_edges:
  assumes r: "at_root g adj st node k fs" and v: "v \<in> segment st node" and e: "(v, w) \<in> set adj"
  shows "w \<in> segment st node \<union> popped st"
proof -
  note R = at_rootD [OF r]
  have vs: "v \<in> set (t_stack st)" "idx st node \<le> idx st v" using v by (simp_all add: segment_def)
  have "v \<notin> fst ` set fs" using top_frame(2) [OF R(2), of v] vs(2) by fastforce
  then have w: "w \<in> searched adj ((node, k) # fs) v" using searched_all [OF top_frame(1) [OF R(2)] R(6), of v] e by (simp add: neighbours_iff)
  have "low st node \<le> low st v" using top_low [OF R(1-3) vs] .
  then show ?thesis using edge_invD(1,2) [OF R(4) vs(1) w] R(7) by (auto simp: segment_def popped_def)
qed

lemma popped_reach:
  assumes "edge_inv adj st fs" and "(v, w) \<in> reach adj" and "v \<in> popped st"
  shows "w \<in> popped st"
  using assms(2,3) by (induction rule: rtrancl_induct) (auto intro: edge_invD(3) [OF assms(1)])

lemma segment_is_scc:
  assumes r: "at_root g adj st node k fs"
  shows "segment st node = scc adj node"
proof
  note R = at_rootD [OF r]
  show "segment st node \<subseteq> scc adj node"
    using segment_reaches_root [OF r] frame_invD(3) [OF R(2), of node] by (auto simp: scc_def segment_def)
  show "scc adj node \<subseteq> segment st node"
  proof
    fix w assume w: "w \<in> scc adj node"
    then have "(node, w) \<in> reach adj" by (simp add: scc_def)
    then have "w \<in> segment st node \<union> popped st"
    proof (induction rule: rtrancl_induct)
      case base
      show ?case using R(8) by (simp add: segment_def)
    next
      case (step y z)
      then show ?case using segment_edges [OF r, of y z] edge_invD(3) [OF R(4), of y z] by blast
    qed
    moreover have "w \<notin> popped st"
      using popped_reach [OF R(4), of w node] w R(8) by (auto simp: scc_def popped_def)
    ultimately show "w \<in> segment st node" by blast
  qed
qed

text \<open>The state without the component of the root.\<close>

definition without_component :: "task_graph \<Rightarrow> string set \<Rightarrow> string list \<Rightarrow> tarjan \<Rightarrow> tarjan" where
  "without_component g C ys st = st\<lparr> t_stack := ys, t_on_stack := t_on_stack st - C,
     t_sccs := (if is_loop_body g C then t_sccs st @ [C] else t_sccs st) \<rparr>"

lemma without_component_simps [simp]:
  "t_index (without_component g C ys st) = t_index st" "t_low (without_component g C ys st) = t_low st"
  "t_stack (without_component g C ys st) = ys" "t_next (without_component g C ys st) = t_next st"
  "t_on_stack (without_component g C ys st) = t_on_stack st - C"
  "t_sccs (without_component g C ys st) = (if is_loop_body g C then t_sccs st @ [C] else t_sccs st)"
  "idx (without_component g C ys st) = idx st" "low (without_component g C ys st) = low st"
  by (simp_all add: without_component_def idx_def low_def fun_eq_iff)

lemma finish_root:
  assumes r: "at_root g adj st node k fs"
  obtains ys where "finish_node g node st = Some (without_component g (segment st node) ys st)"
    "set ys = set (t_stack st) - segment st node" "sorted_wrt (\<lambda>a b. idx st b < idx st a) ys"
proof -
  note R = at_rootD [OF r]
  obtain xs ys where S: "t_stack st = xs @ node # ys" "node \<notin> set xs" "insert node (set xs) = segment st node"
    "set ys = set (t_stack st) - segment st node" using segment_split [OF R(1,8)] by blast
  obtain i l where "t_index st node = Some i" "t_low st node = Some l" using num_invD(1,2) [OF R(1,8)] by blast
  then have "finish_node g node st = Some (without_component g (segment st node) ys st)"
    using R(7) S(3) pop_component_eq [OF S(2), of ys "t_on_stack st" "{}"]
    by (simp add: finish_node_def without_component_def S(1) idx_def low_def)
  moreover have "sorted_wrt (\<lambda>a b. idx st b < idx st a) ys" using R(1) by (simp add: num_inv_def S(1) sorted_wrt_append)
  ultimately show ?thesis using that S(4) by blast
qed

lemma below_segment:
  assumes "set ys = set (t_stack st) - segment st node" and "v \<in> set ys"
  shows "v \<in> set (t_stack st)" "idx st v < idx st node"
  using assms(2) unfolding assms(1) by (auto simp: segment_def)

lemma popped_without:
  assumes "num_inv st" and "set ys = set (t_stack st) - segment st node"
  shows "popped (without_component g C ys st) = popped st \<union> segment st node"
proof -
  have "set (t_stack st) \<subseteq> dom (t_index st)" using assms(1) by (simp add: num_inv_def)
  then show ?thesis unfolding popped_def without_component_simps assms(2) by (auto simp: segment_def)
qed

lemma root_frame:
  assumes fr: "frame_inv adj st ((node, k) # fs)" and ys: "set ys = set (t_stack st) - segment st node"
  shows "frame_inv adj (without_component g C ys st) fs"
proof -
  note lt = below_segment [OF ys]
  have "\<exists>n \<in> fst ` set fs. idx st n \<le> idx st v" if v: "v \<in> set ys" for v
  proof -
    obtain n where n: "n \<in> fst ` set ((node, k) # fs)" "idx st n \<le> idx st v" using frame_invD(1) [OF fr] lt [OF v] by blast
    then have "n \<noteq> node" using lt [OF v] by auto
    with n show ?thesis by (intro bexI [of _ n]) simp_all
  qed
  moreover have "n \<in> set ys" if "n \<in> fst ` set fs" for n
    using that top_frame(2) [OF fr that] frame_invD(2) [OF fr] unfolding ys segment_def by force
  moreover have "(n, v) \<in> reach adj" if "n \<in> fst ` set fs" "v \<in> set ys" "idx st n \<le> idx st v" for n v
    using that lt by (intro frame_invD(3) [OF fr]) simp_all
  moreover have "links adj fs" using frame_invD(4) [OF fr] by (cases "(adj, (node, k) # fs)" rule: links.cases) auto
  moreover have "sorted_wrt (\<lambda>a b. idx st b < idx st a) (map fst fs)" using fr by (simp add: frame_inv_def)
  ultimately show ?thesis unfolding frame_inv_def without_component_simps by blast
qed

lemma root_low:
  assumes fr: "frame_inv adj st ((node, k) # fs)" and lo: "low_inv adj st ((node, k) # fs)"
    and ys: "set ys = set (t_stack st) - segment st node"
  shows "low_inv adj (without_component g C ys st) fs"
proof -
  note lt = below_segment [OF ys]
  have new: "v \<notin> fst ` set ((node, k) # fs)" if "v \<in> set ys - fst ` set fs" for v using that lt(2) [of v] by auto
  show ?thesis
    unfolding low_inv_def without_component_simps
  proof (intro conjI ballI impI)
    fix v assume v: "v \<in> set ys"
    then obtain m where "m \<in> set (t_stack st)" "low st v = idx st m" "idx st m \<le> idx st v" "(v, m) \<in> reach adj"
      using low_invD(1) [OF lo] lt by blast
    then show "\<exists>m \<in> set ys. low st v = idx st m \<and> idx st m \<le> idx st v \<and> (v, m) \<in> reach adj"
      using lt(2) [OF v] ys by (intro bexI [of _ m]) (auto simp: segment_def)
  next
    fix v assume "v \<in> set ys - fst ` set fs"
    then show "low st v < idx st v" using low_invD(3) [OF lo lt(1) new] by simp
  next
    fix v n assume v: "v \<in> set ys - fst ` set fs" and n: "n \<in> fst ` set fs" "idx st n < idx st v"
      and near: "\<forall>n' \<in> fst ` set fs. idx st n' < idx st v \<longrightarrow> idx st n' \<le> idx st n"
    have "\<forall>n' \<in> fst ` set ((node, k) # fs). idx st n' < idx st v \<longrightarrow> idx st n' \<le> idx st n"
      using near lt(2) [of v] v by simp
    then show "low st n \<le> low st v" using n low_invD(4) [OF lo lt(1) new [OF v], of n] v by simp
  qed
qed

lemma scc_eq: "v \<in> scc adj n \<Longrightarrow> scc adj v = scc adj n"
  by (auto simp: scc_def intro: rtrancl_trans)

lemma scc_refl: "v \<in> scc adj v"
  by (simp add: scc_def)

lemma root_edge:
  assumes r: "at_root g adj st node k fs" and ys: "set ys = set (t_stack st) - segment st node"
  shows "edge_inv adj (without_component g C ys st) fs"
proof -
  note R = at_rootD [OF r]
  have "w \<in> dom (t_index st) \<and> (w \<in> set ys \<longrightarrow> low st v \<le> idx st w)" if v: "v \<in> set ys" and w: "w \<in> searched adj fs v" for v w
  proof (cases fs)
    case Nil
    then show ?thesis using frame_invD(1) [OF root_frame [OF R(2) ys, of g C], of v] v by simp
  next
    case (Cons f fs')
    obtain p kp where f: "f = (p, kp)" by (cases f)
    have vs: "v \<in> set (t_stack st)" using below_segment [OF ys v] by blast
    have "w \<in> searched adj ((node, k) # fs) v \<or> w = node"
      using searched_tail [of adj node k p kp fs' w v] frame_invD(4) [OF R(2)] R(6) top_frame(1) [OF R(2)] w unfolding Cons f by blast
    moreover have "node \<notin> set ys" using below_segment(2) [OF ys, of node] by blast
    ultimately show ?thesis
      using edge_invD(1,2) [OF R(4) vs, of w] below_segment(1) [OF ys, of w] num_invD(1) [OF R(1,8)] by auto
  qed
  moreover have "w \<in> popped st \<union> segment st node" if "v \<in> popped st \<union> segment st node" "(v, w) \<in> set adj" for v w
    using that edge_invD(3) [OF R(4), of v w] segment_edges [OF r, of v w] by blast
  ultimately show ?thesis
    unfolding edge_inv_def popped_without [OF R(1) ys] without_component_simps by blast
qed

lemma root_scc:
  assumes r: "at_root g adj st node k fs" and ys: "set ys = set (t_stack st) - segment st node"
  shows "scc_inv g adj (without_component g (segment st node) ys st)"
proof -
  note R = at_rootD [OF r] and C = segment_is_scc [OF r]
  have old: "distinct (t_sccs st)" "set (t_sccs st) = {C. \<exists>v \<in> popped st. C = scc adj v \<and> is_loop_body g C}"
    "\<forall>v \<in> popped st. scc adj v \<subseteq> popped st" using R(5) by (simp_all add: scc_inv_def)
  have new: "scc adj v = segment st node" if "v \<in> segment st node" for v using that scc_eq [of v adj node] C by simp
  have "segment st node \<noteq> scc adj v" if "v \<in> popped st" for v
    using that scc_refl [of v adj] unfolding popped_def segment_def by blast
  then have "segment st node \<notin> set (t_sccs st)" unfolding old(2) by blast
  moreover have "node \<in> segment st node" using R(8) by (simp add: segment_def)
  then have "{C. \<exists>v \<in> popped st \<union> segment st node. C = scc adj v \<and> is_loop_body g C}
      = set (t_sccs st) \<union> (if is_loop_body g (segment st node) then {segment st node} else {})"
    unfolding old(2) using new by auto
  moreover have "\<forall>v \<in> popped st \<union> segment st node. scc adj v \<subseteq> popped st \<union> segment st node" using old(3) new by blast
  ultimately show ?thesis
    using old(1) unfolding scc_inv_def popped_without [OF R(1) ys] without_component_simps by simp
qed

lemma root_num:
  assumes num: "num_inv st" and ys: "set ys = set (t_stack st) - segment st node" "sorted_wrt (\<lambda>a b. idx st b < idx st a) ys"
  shows "num_inv (without_component g (segment st node) ys st)"
  using num ys(2) unfolding num_inv_def without_component_simps ys(1) by blast

lemma root_inv:
  assumes r: "at_root g adj st node k fs"
  shows "\<exists>st'. finish_node g node st = Some st' \<and> lower_parent fs node st' = Some st' \<and> tarjan_inv g adj st' fs \<and> t_index st' = t_index st"
proof -
  note R = at_rootD [OF r]
  obtain ys where f: "finish_node g node st = Some (without_component g (segment st node) ys st)"
    and ys: "set ys = set (t_stack st) - segment st node" "sorted_wrt (\<lambda>a b. idx st b < idx st a) ys" using finish_root [OF r] by blast
  let ?st = "without_component g (segment st node) ys st"
  have inv: "tarjan_inv g adj ?st fs"
    using root_num [OF R(1) ys] root_frame [OF R(2) ys(1)] root_low [OF R(2,3) ys(1)] root_edge [OF r ys(1)] root_scc [OF r ys(1)]
    by (simp add: tarjan_inv_def)
  have "lower_parent fs node ?st = Some ?st"
  proof (cases fs)
    case (Cons f fs')
    obtain p kp where f: "f = (p, kp)" by (cases f)
    have p: "p \<in> set (t_stack st)" using frame_invD(2) [OF R(2)] by (simp add: Cons f)
    obtain l lp where l: "t_low st node = Some l" "t_low st p = Some lp" using num_invD(2) [OF R(1)] R(8) p by blast
    have "low st p \<le> idx st p" "idx st p < idx st node" using low_invD(2) [OF R(3) p] top_frame(2) [OF R(2), of p] by (simp_all add: Cons f)
    then have "min lp l = lp" using R(7) l by (simp add: low_def)
    then show ?thesis using l by (simp add: lower_parent_def lower_def Cons f fun_upd_idem)
  qed (simp add: lower_parent_def)
  with f inv show ?thesis by simp
qed

section \<open>The loop over the frames\<close>

lemma lower_lowered:
  assumes num: "num_inv st" and lo: "low_inv adj st fs" and n: "n \<in> set (t_stack st)"
    and m: "m \<in> set (t_stack st)" "v = idx st m" "(n, m) \<in> reach adj"
  shows "\<exists>st'. lower n v st = Some st' \<and> lowered adj st n st' \<and> low st' n \<le> v"
proof -
  obtain l where l: "t_low st n = Some l" using num_invD(2) [OF num n] by blast
  obtain m' where m': "m' \<in> set (t_stack st)" "low st n = idx st m'" "idx st m' \<le> idx st n" "(n, m') \<in> reach adj"
    using low_invD(1) [OF lo n] by blast
  have "\<exists>m \<in> set (t_stack st). min l v = idx st m \<and> idx st m \<le> idx st n \<and> (n, m) \<in> reach adj"
  proof (cases "l \<le> v")
    case True
    then show ?thesis using l m' by (intro bexI [of _ m']) (simp_all add: low_def)
  next
    case False
    then show ?thesis using l m m' by (intro bexI [of _ m]) (simp_all add: low_def)
  qed
  then have "lowered adj st n (st\<lparr> t_low := (t_low st)(n \<mapsto> min l v) \<rparr>)"
    unfolding lowered_def using l by (intro exI [of _ "min l v"]) (simp add: low_def)
  then show ?thesis using l by (simp add: lower_def low_def)
qed

lemma leave_node:
  assumes inv: "tarjan_inv g adj st ((node, k) # fs)" and k: "length (neighbours adj node) \<le> k"
  shows "\<exists>st1 st2. finish_node g node st = Some st1 \<and> lower_parent fs node st1 = Some st2
    \<and> tarjan_inv g adj st2 fs \<and> t_index st2 = t_index st"
proof (cases "low st node = idx st node")
  case True
  then show ?thesis using root_inv [of g adj st node k fs] inv k by (auto simp: at_root_def)
next
  case False
  have num: "num_inv st" and fr: "frame_inv adj st ((node, k) # fs)" and lo: "low_inv adj st ((node, k) # fs)"
    using inv by (simp_all add: tarjan_inv_def)
  have ns: "node \<in> set (t_stack st)" using frame_invD(2) [OF fr] by simp
  obtain i l where il: "t_index st node = Some i" "t_low st node = Some l" using num_invD(1,2) [OF num ns] by blast
  with False have f: "finish_node g node st = Some st" by (simp add: finish_node_def idx_def low_def)
  obtain m where m: "m \<in> set (t_stack st)" "low st node = idx st m" "idx st m \<le> idx st node" "(node, m) \<in> reach adj"
    using low_invD(1) [OF lo ns] by blast
  show ?thesis
  proof (cases fs)
    case Nil
    then have "idx st node \<le> idx st m" using frame_invD(1) [OF fr m(1)] by simp
    with m False show ?thesis by simp
  next
    case (Cons fp fs')
    obtain p kp where p: "fs = (p, kp) # fs'" using Cons by (cases fp) simp
    have ps: "p \<in> set (t_stack st)" using frame_invD(2) [OF fr] by (simp add: p)
    have "(p, node) \<in> reach adj" using frame_invD(3) [OF fr, of p node] ns top_frame(2) [OF fr, of p] by (simp add: p)
    then have "(p, m) \<in> reach adj" using m(4) by (rule rtrancl_trans)
    then obtain st' where st': "lower p l st = Some st'" "lowered adj st p st'" "low st' p \<le> low st node"
      using lower_lowered [OF num lo ps m(1)] m(2) il(2) by (auto simp: low_def)
    have "tarjan_inv g adj st' fs" using leave_inv [of g adj st node k p kp fs', OF _ k False st'(2,3)] inv by (simp add: p)
    then show ?thesis using f il st' loweredD(2) [OF st'(2) ps num] by (simp add: lower_parent_def p)
  qed
qed

lemma known_child:
  assumes inv: "tarjan_inv g adj st ((node, k) # fs)" and k: "k < length (neighbours adj node)"
    and i: "t_index st (neighbours adj node ! k) = Some i"
  shows "if neighbours adj node ! k \<in> t_on_stack st
    then \<exists>st'. lower node i st = Some st' \<and> tarjan_inv g adj st' ((node, Suc k) # fs) \<and> t_index st' = t_index st
    else tarjan_inv g adj st ((node, Suc k) # fs)"
proof -
  have num: "num_inv st" and fr: "frame_inv adj st ((node, k) # fs)" and lo: "low_inv adj st ((node, k) # fs)"
    using inv by (simp_all add: tarjan_inv_def)
  have ns: "node \<in> set (t_stack st)" using frame_invD(2) [OF fr] by simp
  have on: "t_on_stack st = set (t_stack st)" using num by (simp add: num_inv_def)
  let ?c = "neighbours adj node ! k"
  have "(node, ?c) \<in> set adj" using k neighbours_iff nth_mem by metis
  then have e: "(node, ?c) \<in> reach adj" by blast
  show ?thesis
  proof (cases "?c \<in> set (t_stack st)")
    case True
    then obtain st' where st': "lower node i st = Some st'" "lowered adj st node st'" "low st' node \<le> i"
      using lower_lowered [OF num lo ns True _ e, of i] i by (auto simp: idx_def)
    then have "tarjan_inv g adj st' ((node, Suc k) # fs)" using advance_inv [OF inv k st'(2)] i by (auto simp: idx_def)
    then show ?thesis using True on st'(1) loweredD(2) [OF st'(2) ns num] by simp
  next
    case False
    then show ?thesis using advance_inv [OF inv k lowered_refl [OF lo ns num]] i on by auto
  qed
qed

text \<open>One turn of the loop.\<close>

lemma tarjan_loop_step:
  "k < length (neighbours adj node) \<Longrightarrow> t_index st (neighbours adj node ! k) = None \<Longrightarrow>
    tarjan_loop g adj ((node, k) # fs) st
      = tarjan_loop g adj ((neighbours adj node ! k, 0) # (node, Suc k) # fs) (discover (neighbours adj node ! k) st)"
  "k < length (neighbours adj node) \<Longrightarrow> t_index st (neighbours adj node ! k) = Some i \<Longrightarrow> neighbours adj node ! k \<in> t_on_stack st \<Longrightarrow>
    lower node i st = Some st' \<Longrightarrow> tarjan_loop g adj ((node, k) # fs) st = tarjan_loop g adj ((node, Suc k) # fs) st'"
  "k < length (neighbours adj node) \<Longrightarrow> t_index st (neighbours adj node ! k) = Some i \<Longrightarrow> neighbours adj node ! k \<notin> t_on_stack st \<Longrightarrow>
    tarjan_loop g adj ((node, k) # fs) st = tarjan_loop g adj ((node, Suc k) # fs) st"
  "\<not> k < length (neighbours adj node) \<Longrightarrow> finish_node g node st = Some st' \<Longrightarrow> lower_parent fs node st' = Some st'' \<Longrightarrow>
    tarjan_loop g adj ((node, k) # fs) st = tarjan_loop g adj fs st''"
  by (simp_all add: tarjan_loop.simps(2) [of g adj node k fs st] Let_def)

lemma tarjan_loop_correct:
  assumes "tarjan_inv g adj st fs"
  shows "\<exists>st'. tarjan_loop g adj fs st = Some st' \<and> tarjan_inv g adj st' [] \<and> dom (t_index st) \<subseteq> dom (t_index st')"
  using assms
proof (induction g adj fs st rule: tarjan_loop.induct)
  case (2 g adj node k fs st)
  show ?case
  proof (cases "k < length (neighbours adj node)")
    case True
    let ?c = "neighbours adj node ! k"
    show ?thesis
    proof (cases "t_index st ?c")
      case None
      from 2(1) [OF True refl None discover_inv [OF 2(5) True None]]
      obtain st' where "tarjan_loop g adj ((?c, 0) # (node, Suc k) # fs) (discover ?c st) = Some st'" "tarjan_inv g adj st' []"
        "dom (t_index (discover ?c st)) \<subseteq> dom (t_index st')" by blast
      then show ?thesis unfolding tarjan_loop_step(1) [OF True None] by (intro exI [of _ st']) simp
    next
      case (Some i)
      note K = known_child [OF 2(5) True Some]
      show ?thesis
      proof (cases "?c \<in> t_on_stack st")
        case on: True
        then obtain st' where st': "lower node i st = Some st'" "tarjan_inv g adj st' ((node, Suc k) # fs)" "t_index st' = t_index st"
          using K by auto
        then show ?thesis using 2(2) [OF True refl Some on st'(1,2)] tarjan_loop_step(2) [OF True Some on st'(1)] by simp
      next
        case False
        then show ?thesis using 2(3) [OF True refl Some False] K tarjan_loop_step(3) [OF True Some False] by simp
      qed
    qed
  next
    case False
    then obtain st1 st2 where s: "finish_node g node st = Some st1" "lower_parent fs node st1 = Some st2"
      "tarjan_inv g adj st2 fs" "t_index st2 = t_index st" using leave_node [OF 2(5)] by auto
    show ?thesis using 2(4) [OF False s(1-3)] s(4) tarjan_loop_step(4) [OF False s(1,2)] by simp
  qed
qed (simp add: tarjan_loop.simps)

section \<open>The loop over the roots\<close>

lemma tarjan_init_inv: "tarjan_inv g adj tarjan_init []"
  by (simp add: tarjan_inv_def tarjan_init_def num_inv_def frame_inv_def low_inv_def edge_inv_def scc_inv_def popped_def)

lemma idle_stack: "tarjan_inv g adj st [] \<Longrightarrow> t_stack st = []"
  by (simp add: tarjan_inv_def frame_inv_def)

lemma discover_root_inv:
  assumes inv: "tarjan_inv g adj st []" and r: "t_index st r = None"
  shows "tarjan_inv g adj (discover r st) [(r, 0)]"
proof -
  have num: "num_inv st" and ed: "edge_inv adj st []" and sc: "scc_inv g adj st" using inv by (simp_all add: tarjan_inv_def)
  have p: "popped (discover r st) = popped st" using popped_discover [OF r] num by (simp add: num_inv_def)
  have "frame_inv adj (discover r st) [(r, 0)]" "low_inv adj (discover r st) [(r, 0)]"
    using idle_stack [OF inv] by (simp_all add: frame_inv_def low_inv_def)
  moreover have "edge_inv adj (discover r st) [(r, 0)]"
    using idle_stack [OF inv] edge_invD(3) [OF ed] unfolding edge_inv_def p by simp
  moreover have "scc_inv g adj (discover r st)" using sc by (simp add: scc_inv_def p)
  ultimately show ?thesis using discover_num_inv [OF num r] by (simp add: tarjan_inv_def)
qed

lemma tarjan_roots_correct:
  assumes "tarjan_inv g adj st []"
  shows "\<exists>st'. tarjan_roots g adj rs st = Some st' \<and> tarjan_inv g adj st' [] \<and> dom (t_index st) \<union> set rs \<subseteq> dom (t_index st')"
  using assms
proof (induction rs arbitrary: st)
  case (Cons r rs)
  show ?case
  proof (cases "t_index st r")
    case None
    obtain st1 where st1: "tarjan_loop g adj [(r, 0)] (discover r st) = Some st1" "tarjan_inv g adj st1 []"
      "dom (t_index (discover r st)) \<subseteq> dom (t_index st1)" using tarjan_loop_correct [OF discover_root_inv [OF Cons.prems None]] by blast
    obtain st2 where st2: "tarjan_roots g adj rs st1 = Some st2" "tarjan_inv g adj st2 []" "dom (t_index st1) \<union> set rs \<subseteq> dom (t_index st2)"
      using Cons.IH [OF st1(2)] by blast
    have "insert r (dom (t_index st)) \<subseteq> dom (t_index st1)" using st1(3) by simp
    then have "dom (t_index st) \<union> set (r # rs) \<subseteq> dom (t_index st2)" using st2(3) unfolding list.set by blast
    then show ?thesis using None st1(1) st2(1,2) by (intro exI [of _ st2]) simp
  next
    case (Some i)
    then have r: "r \<in> dom (t_index st)" by blast
    obtain st' where st': "tarjan_roots g adj rs st = Some st'" "tarjan_inv g adj st' []" "dom (t_index st) \<union> set rs \<subseteq> dom (t_index st')"
      using Cons.IH [OF Cons.prems] by blast
    have "dom (t_index st) \<union> set (r # rs) \<subseteq> dom (t_index st')" using r st'(3) unfolding list.set by blast
    then show ?thesis using Some st'(1,2) by (intro exI [of _ st']) simp
  qed
qed simp

section \<open>Loop bodies\<close>

text \<open>A step along a loop edge, and the cyclic components of that relation.\<close>

definition loop_step :: "task_graph \<Rightarrow> (string \<times> string) set" where
  "loop_step g = {(s, t). \<exists>e \<in> set (tg_edges g). is_loop_edge e \<and> s \<in> set (ge_sources e) \<and> t \<in> set (ge_targets e)}"

definition loop_body_of :: "task_graph \<Rightarrow> string \<Rightarrow> string set" where
  "loop_body_of g v = {w. (v, w) \<in> (loop_step g)\<^sup>* \<and> (w, v) \<in> (loop_step g)\<^sup>*}"

lemma loop_adjacency_step: "set (loop_adjacency g) = loop_step g"
  by (auto simp: loop_adjacency_def loop_step_def)

lemma loop_body_scc: "scc (loop_adjacency g) v = loop_body_of g v"
  by (simp add: scc_def loop_body_of_def loop_adjacency_step)

lemma finite_loop_body: "finite (loop_body_of g v)"
proof -
  have "w \<in> insert v (snd ` set (loop_adjacency g))" if "(v, w) \<in> (loop_step g)\<^sup>*" for w
    using that by (cases rule: rtranclE) (auto simp: loop_adjacency_step [symmetric] intro: rev_image_eqI)
  then have "loop_body_of g v \<subseteq> insert v (snd ` set (loop_adjacency g))" unfolding loop_body_of_def by blast
  then show ?thesis by (rule finite_subset) simp
qed

lemma is_loop_body_iff: "is_loop_body g (loop_body_of g v) \<longleftrightarrow> (v, v) \<in> (loop_step g)\<^sup>+"
proof
  assume "is_loop_body g (loop_body_of g v)"
  then consider "1 < card (loop_body_of g v)" | n where "n \<in> loop_body_of g v" "(n, n) \<in> loop_step g"
    unfolding is_loop_body_def has_loop_self_edge_def loop_step_def by blast
  then show "(v, v) \<in> (loop_step g)\<^sup>+"
  proof cases
    case 1
    then have "\<not> loop_body_of g v \<subseteq> {v}" using card_mono [of "{v}" "loop_body_of g v"] by auto
    then obtain w where "w \<in> loop_body_of g v" "w \<noteq> v" by blast
    then show ?thesis unfolding loop_body_of_def by (auto dest: rtranclD intro: trancl_rtrancl_trancl)
  next
    case 2
    then have n: "(v, n) \<in> (loop_step g)\<^sup>*" "(n, v) \<in> (loop_step g)\<^sup>*" by (simp_all add: loop_body_of_def)
    show ?thesis by (rule trancl_rtrancl_trancl [OF rtrancl_into_trancl1 [OF n(1) 2(2)] n(2)])
  qed
next
  assume "(v, v) \<in> (loop_step g)\<^sup>+"
  then obtain w where w: "(v, w) \<in> loop_step g" "(w, v) \<in> (loop_step g)\<^sup>*" by (meson tranclD)
  show "is_loop_body g (loop_body_of g v)"
  proof (cases "w = v")
    case True
    then have "v \<in> loop_body_of g v" "has_loop_self_edge g v" using w by (auto simp: loop_body_of_def has_loop_self_edge_def loop_step_def)
    then show ?thesis by (auto simp: is_loop_body_def)
  next
    case False
    have "{v, w} \<subseteq> loop_body_of g v" using w by (auto simp: loop_body_of_def)
    from card_mono [OF finite_loop_body this] show ?thesis using False by (simp add: is_loop_body_def)
  qed
qed

lemma loop_nodes_cyclic: "(v, v) \<in> (loop_step g)\<^sup>+ \<Longrightarrow> v \<in> set (loop_nodes g)"
  by (auto simp: loop_nodes_def loop_adjacency_step [symmetric] dest!: tranclD intro: rev_image_eqI)

lemma loop_sccs_total:
  obtains bodies where "loop_sccs g = Some bodies" "distinct bodies" "set bodies = {loop_body_of g v | v. (v, v) \<in> (loop_step g)\<^sup>+}"
proof -
  let ?adj = "loop_adjacency g"
  obtain st where st: "tarjan_roots g ?adj (loop_nodes g) tarjan_init = Some st" "tarjan_inv g ?adj st []"
    "dom (t_index tarjan_init) \<union> set (loop_nodes g) \<subseteq> dom (t_index st)" using tarjan_roots_correct [OF tarjan_init_inv] by blast
  have sc: "distinct (t_sccs st)" "set (t_sccs st) = {C. \<exists>v \<in> dom (t_index st). C = loop_body_of g v \<and> (v, v) \<in> (loop_step g)\<^sup>+}"
    using st(2) idle_stack [OF st(2)] is_loop_body_iff [of g] by (auto simp: tarjan_inv_def scc_inv_def popped_def loop_body_scc)
  have "set (t_sccs st) = {loop_body_of g v | v. (v, v) \<in> (loop_step g)\<^sup>+}"
    unfolding sc(2) using loop_nodes_cyclic [of _ g] st(3) by blast
  then show ?thesis using that [of "t_sccs st"] st(1) sc(1) by (simp add: loop_sccs_def)
qed

section \<open>Properties\<close>

text \<open>C11. The search for loop bodies returns on every graph and never panics. It yields each cyclic strongly
  connected component of the loop edges exactly once, and nothing else.\<close>

theorem loop_sccs_correct:
  "\<exists>bodies. loop_sccs g = Some bodies \<and> distinct bodies \<and> set bodies = {loop_body_of g v | v. (v, v) \<in> (loop_step g)\<^sup>+}"
  by (rule loop_sccs_total [of g], intro exI conjI)

end
