(* ===== verification/Seal_Properties.thy ===== *)
theory Seal_Properties
  imports Tarjan_Correct
begin

text \<open>
  What the structural seal and the terminability check promise. A task is entered when a non-loop edge
  leads to it, or to another member of its loop body; it is left when a non-loop edge leads out of it,
  or out of its loop body. The seal closes every task against start and end with plain edges, changes
  nothing else, and finds nothing to do the second time.
\<close>

section \<open>Entered and left tasks\<close>

definition cyclic :: "task_graph \<Rightarrow> string \<Rightarrow> bool" where
  "cyclic g t \<longleftrightarrow> (t, t) \<in> (loop_step g)\<^sup>+"

definition entered :: "task_graph \<Rightarrow> string \<Rightarrow> bool" where
  "entered g t \<longleftrightarrow> has_non_loop_incoming g t \<or> cyclic g t \<and> (\<exists>m \<in> loop_body_of g t. has_non_loop_incoming g m)"

definition exited :: "task_graph \<Rightarrow> string \<Rightarrow> bool" where
  "exited g t \<longleftrightarrow> has_non_loop_outgoing g t \<or> cyclic g t \<and> has_non_loop_edge_leaving_body g (loop_body_of g t)"

definition bodies_of :: "task_graph \<Rightarrow> string set list \<Rightarrow> bool" where
  "bodies_of g bodies \<longleftrightarrow> set bodies = {loop_body_of g v | v. cyclic g v}"

lemma loop_sccs_bodies:
  obtains bodies where "loop_sccs g = Some bodies" "bodies_of g bodies"
  by (rule loop_sccs_total [of g]) (simp add: bodies_of_def cyclic_def)

lemma loop_body_self: "t \<in> loop_body_of g t"
  by (simp add: loop_body_of_def)

lemma loop_body_eq: "t \<in> loop_body_of g v \<Longrightarrow> loop_body_of g t = loop_body_of g v"
  using scc_eq [of t "loop_adjacency g" v] by (simp add: loop_body_scc)

lemma cyclic_member:
  assumes "cyclic g v" and "t \<in> loop_body_of g v"
  shows "cyclic g t"
  using assms(1) loop_body_eq [OF assms(2)] is_loop_body_iff [of g t] is_loop_body_iff [of g v] by (simp add: cyclic_def)

lemma body_member:
  assumes "bodies_of g bodies" and "b \<in> set bodies" and "t \<in> b"
  shows "b = loop_body_of g t" "cyclic g t"
  using assms cyclic_member [of g _ t] loop_body_eq [of t g] unfolding bodies_of_def by auto

lemma find_body:
  assumes b: "bodies_of g bodies"
  shows "find (\<lambda>b. t \<in> b) bodies = (if cyclic g t then Some (loop_body_of g t) else None)"
proof (cases "find (\<lambda>b. t \<in> b) bodies")
  case None
  then have "t \<notin> b" if "b \<in> set bodies" for b using that by (auto simp: find_None_iff)
  then have "\<not> cyclic g t" using b loop_body_self [of t g] unfolding bodies_of_def by blast
  with None show ?thesis by simp
next
  case (Some c)
  then have "c \<in> set bodies" "t \<in> c" by (auto simp: find_Some_iff)
  then show ?thesis using Some body_member [OF b] by simp
qed

lemma in_entered_body_iff:
  "bodies_of g bodies \<Longrightarrow> in_entered_body bodies h t \<longleftrightarrow> cyclic g t \<and> (\<exists>m \<in> loop_body_of g t. has_non_loop_incoming h m)"
  by (simp add: in_entered_body_def find_body)

lemma exiting_iff:
  "bodies_of g bodies \<Longrightarrow> t \<in> exiting_loop_members bodies h \<longleftrightarrow> cyclic g t \<and> has_non_loop_edge_leaving_body h (loop_body_of g t)"
  using loop_body_self [of t g] by (auto simp: exiting_loop_members_def bodies_of_def dest: cyclic_member loop_body_eq)

section \<open>Adding plain edges\<close>

text \<open>A graph with further edges that are no loop edges.\<close>

definition extended :: "task_graph \<Rightarrow> edge list \<Rightarrow> task_graph" where
  "extended g es = g\<lparr> tg_edges := tg_edges g @ es \<rparr>"

lemma extended_simps [simp]:
  "tg_edges (extended g es) = tg_edges g @ es" "tg_start (extended g es) = tg_start g" "tg_end (extended g es) = tg_end g"
  "extended (extended g es) fs = extended g (es @ fs)" "extended g [] = g"
  by (simp_all add: extended_def)

definition seal_edge :: "string \<Rightarrow> string \<Rightarrow> edge \<Rightarrow> bool" where
  "seal_edge s t e \<longleftrightarrow> ge_sources e = [s] \<and> ge_targets e = [t] \<and> ge_kind e = EDGE_KIND_CONTROL \<and> ge_gates e = []"

lemma seal_edge_plain: "seal_edge s t e \<Longrightarrow> \<not> is_loop_edge e"
  by (simp add: seal_edge_def is_loop_edge_def EDGE_KIND_CONTROL_def EDGE_KIND_LOOP_def)

lemma add_seal_edge_extended: "\<exists>e. seal_edge s t e \<and> add_seal_edge i s t g = extended g [e]"
  by (intro exI [of _ "\<lparr> ge_id = i, ge_sources = [s], ge_targets = [t], ge_kind = EDGE_KIND_CONTROL, ge_gates = [] \<rparr>"])
    (simp add: add_seal_edge_def extended_def seal_edge_def)

lemma extended_mono:
  "has_non_loop_incoming g t \<Longrightarrow> has_non_loop_incoming (extended g es) t"
  "has_non_loop_outgoing g t \<Longrightarrow> has_non_loop_outgoing (extended g es) t"
  "has_non_loop_edge_leaving_body g b \<Longrightarrow> has_non_loop_edge_leaving_body (extended g es) b"
  by (auto simp: has_non_loop_incoming_def has_non_loop_outgoing_def has_non_loop_edge_leaving_body_def)

lemma extended_loops:
  assumes "\<forall>e \<in> set es. \<not> is_loop_edge e"
  shows "cyclic (extended g es) = cyclic g" "loop_body_of (extended g es) = loop_body_of g"
proof -
  have "loop_step (extended g es) = loop_step g" using assms by (auto simp: loop_step_def)
  then show "cyclic (extended g es) = cyclic g" "loop_body_of (extended g es) = loop_body_of g"
    by (simp_all add: cyclic_def loop_body_of_def fun_eq_iff)
qed

lemma extended_entered:
  assumes "\<forall>e \<in> set es. \<not> is_loop_edge e"
  shows "entered g t \<Longrightarrow> entered (extended g es) t" "exited g t \<Longrightarrow> exited (extended g es) t"
  using extended_loops [OF assms] by (auto simp: entered_def exited_def intro: extended_mono)

section \<open>The two passes\<close>

lemma wire_starts_step:
  assumes b: "bodies_of g bodies"
  shows "has_non_loop_incoming h t \<or> in_entered_body bodies h t \<longleftrightarrow>
    has_non_loop_incoming h t \<or> cyclic g t \<and> (\<exists>m \<in> loop_body_of g t. has_non_loop_incoming h m)"
  by (simp add: in_entered_body_iff [OF b])

lemma wire_starts_correct:
  assumes b: "bodies_of g bodies" and es0: "\<forall>e \<in> set es0. \<not> is_loop_edge e"
  shows "\<exists>k' es. wire_starts fresh bodies ts (k, extended g es0) = (k', extended g (es0 @ es))
    \<and> (\<forall>e \<in> set es. \<exists>t \<in> set ts. seal_edge (tg_start g) t e \<and> \<not> entered (extended g es0) t)
    \<and> (\<forall>t \<in> set ts. entered (extended g (es0 @ es)) t)"
  using es0
proof (induction ts arbitrary: k es0)
  case (Cons t ts)
  note L = extended_loops [OF Cons.prems]
  have dec: "has_non_loop_incoming (extended g es0) t \<or> in_entered_body bodies (extended g es0) t \<longleftrightarrow> entered (extended g es0) t"
    unfolding wire_starts_step [OF b] entered_def L by simp
  show ?case
  proof (cases "entered (extended g es0) t")
    case True
    obtain k' es where w: "wire_starts fresh bodies ts (k, extended g es0) = (k', extended g (es0 @ es))"
      and e: "\<forall>e \<in> set es. \<exists>t \<in> set ts. seal_edge (tg_start g) t e \<and> \<not> entered (extended g es0) t"
      and t: "\<forall>t \<in> set ts. entered (extended g (es0 @ es)) t" using Cons.IH [OF Cons.prems] by blast
    have "\<forall>e \<in> set es. \<not> is_loop_edge e" using e seal_edge_plain by blast
    then have "entered (extended g (es0 @ es)) t" using extended_entered(1) [of es "extended g es0" t] True by simp
    moreover have "wire_starts fresh bodies (t # ts) (k, extended g es0) = (k', extended g (es0 @ es))" using True dec w by simp
    ultimately show ?thesis using e t by (intro exI [of _ k'] exI [of _ es]) simp
  next
    case False
    obtain e0 where e0: "seal_edge (tg_start g) t e0" "add_seal_edge (fresh k) (tg_start (extended g es0)) t (extended g es0) = extended g (es0 @ [e0])"
      using add_seal_edge_extended [of "tg_start g" t "fresh k" "extended g es0"] by auto
    have plain: "\<forall>e \<in> set (es0 @ [e0]). \<not> is_loop_edge e" using Cons.prems seal_edge_plain [OF e0(1)] by simp
    obtain k' es where w: "wire_starts fresh bodies ts (Suc k, extended g (es0 @ [e0])) = (k', extended g ((es0 @ [e0]) @ es))"
      and e: "\<forall>e \<in> set es. \<exists>t \<in> set ts. seal_edge (tg_start g) t e \<and> \<not> entered (extended g (es0 @ [e0])) t"
      and t: "\<forall>t \<in> set ts. entered (extended g ((es0 @ [e0]) @ es)) t" using Cons.IH [OF plain] by blast
    have in0: "entered (extended g ((es0 @ [e0]) @ es)) t"
      using e0(1) seal_edge_plain [OF e0(1)] by (auto simp: entered_def has_non_loop_incoming_def seal_edge_def)
    have "\<not> entered (extended g es0) u" if "\<not> entered (extended g (es0 @ [e0])) u" for u
      using that extended_entered(1) [of "[e0]" "extended g es0" u] seal_edge_plain [OF e0(1)] by auto
    then have "\<forall>e \<in> set (e0 # es). \<exists>u \<in> set (t # ts). seal_edge (tg_start g) u e \<and> \<not> entered (extended g es0) u"
      using e e0(1) False by auto
    moreover have "wire_starts fresh bodies (t # ts) (k, extended g es0) = (k', extended g (es0 @ e0 # es))"
      using False dec w e0(2) by simp
    ultimately show ?thesis using t in0 by (intro exI [of _ k'] exI [of _ "e0 # es"]) simp
  qed
qed simp

lemma wire_ends_correct:
  "\<exists>k' es. wire_ends fresh X ts (k, h) = (k', extended h es)
    \<and> (\<forall>e \<in> set es. \<exists>t \<in> set ts. seal_edge t (tg_end h) e \<and> \<not> has_non_loop_outgoing h t \<and> t \<notin> X)
    \<and> (\<forall>t \<in> set ts. has_non_loop_outgoing (extended h es) t \<or> t \<in> X)"
proof (induction ts arbitrary: k h)
  case Nil
  show ?case by (intro exI [of _ k] exI [of _ "[]"]) simp
next
  case (Cons t ts)
  show ?case
  proof (cases "\<not> has_non_loop_outgoing h t \<and> t \<notin> X")
    case True
    obtain e0 where e0: "seal_edge t (tg_end h) e0" "add_seal_edge (fresh k) t (tg_end h) h = extended h [e0]"
      using add_seal_edge_extended [of t "tg_end h" "fresh k" h] by blast
    obtain k' es where w: "wire_ends fresh X ts (Suc k, extended h [e0]) = (k', extended (extended h [e0]) es)"
      and e: "\<forall>e \<in> set es. \<exists>t \<in> set ts. seal_edge t (tg_end (extended h [e0])) e \<and> \<not> has_non_loop_outgoing (extended h [e0]) t \<and> t \<notin> X"
      and t: "\<forall>t \<in> set ts. has_non_loop_outgoing (extended (extended h [e0]) es) t \<or> t \<in> X" using Cons.IH by blast
    have "has_non_loop_outgoing (extended h (e0 # es)) t"
      using e0(1) seal_edge_plain [OF e0(1)] by (auto simp: has_non_loop_outgoing_def seal_edge_def)
    moreover have "\<forall>e \<in> set (e0 # es). \<exists>u \<in> set (t # ts). seal_edge u (tg_end h) e \<and> \<not> has_non_loop_outgoing h u \<and> u \<notin> X"
      using e e0(1) True extended_mono(2) [of h _ "[e0]"] by fastforce
    ultimately show ?thesis using True w e0(2) t by (intro exI [of _ k'] exI [of _ "e0 # es"]) simp
  next
    case False
    obtain k' es where w: "wire_ends fresh X ts (k, h) = (k', extended h es)"
      and e: "\<forall>e \<in> set es. \<exists>t \<in> set ts. seal_edge t (tg_end h) e \<and> \<not> has_non_loop_outgoing h t \<and> t \<notin> X"
      and t: "\<forall>t \<in> set ts. has_non_loop_outgoing (extended h es) t \<or> t \<in> X" using Cons.IH by blast
    have "wire_ends fresh X (t # ts) (k, h) = (k', extended h es)" using False w by auto
    moreover have "has_non_loop_outgoing (extended h es) t \<or> t \<in> X" using False extended_mono(2) [of h t es] by blast
    ultimately show ?thesis using e t by (intro exI [of _ k'] exI [of _ es]) simp
  qed
qed

lemma seal_effect:
  obtains es where "seal fresh p = Some (p\<lparr> pg_graph := extended (pg_graph p) es \<rparr>)"
    "\<forall>e \<in> set es. \<exists>t \<in> set (pg_task_ids p). seal_edge (tg_start (pg_graph p)) t e \<and> \<not> entered (pg_graph p) t
       \<or> seal_edge t (tg_end (pg_graph p)) e \<and> \<not> exited (pg_graph p) t"
    "\<forall>t \<in> set (pg_task_ids p). entered (extended (pg_graph p) es) t \<and> exited (extended (pg_graph p) es) t"
proof -
  let ?g = "pg_graph p" and ?ts = "pg_task_ids p"
  obtain bodies where b: "loop_sccs ?g = Some bodies" "bodies_of ?g bodies" by (rule loop_sccs_bodies)
  obtain k es where w: "wire_starts fresh bodies ?ts (0, ?g) = (k, extended ?g es)"
    and e: "\<forall>e \<in> set es. \<exists>t \<in> set ?ts. seal_edge (tg_start ?g) t e \<and> \<not> entered ?g t"
    and t: "\<forall>t \<in> set ?ts. entered (extended ?g es) t" using wire_starts_correct [OF b(2), of "[]" fresh ?ts 0] by auto
  let ?h = "extended ?g es" let ?X = "exiting_loop_members bodies ?h"
  obtain k' fs where w': "wire_ends fresh ?X ?ts (k, ?h) = (k', extended ?h fs)"
    and f: "\<forall>e \<in> set fs. \<exists>t \<in> set ?ts. seal_edge t (tg_end ?h) e \<and> \<not> has_non_loop_outgoing ?h t \<and> t \<notin> ?X"
    and t': "\<forall>t \<in> set ?ts. has_non_loop_outgoing (extended ?h fs) t \<or> t \<in> ?X" using wire_ends_correct [of fresh ?X ?ts k ?h] by blast
  have pe: "\<forall>e \<in> set es. \<not> is_loop_edge e" and pf: "\<forall>e \<in> set fs. \<not> is_loop_edge e" using e f seal_edge_plain by blast+
  have ex: "has_non_loop_outgoing ?h t \<or> t \<in> ?X \<longleftrightarrow> exited ?h t" for t
    unfolding exiting_iff [OF b(2)] exited_def extended_loops [OF pe] by simp
  have "exited (extended ?h fs) t" if "t \<in> set ?ts" for t
    using that t' ex [of t] extended_entered(2) [OF pf, of ?h t] unfolding exited_def by blast
  moreover have "entered (extended ?h fs) t" if "t \<in> set ?ts" for t using that t extended_entered(1) [OF pf] by blast
  moreover have "\<exists>t \<in> set ?ts. seal_edge t (tg_end ?g) e \<and> \<not> exited ?g t" if "e \<in> set fs" for e
    using that f ex extended_entered(2) [OF pe, of ?g] by (metis extended_simps(3))
  ultimately show ?thesis
    using that [of "es @ fs"] b(1) w w' e by (simp add: seal_def ball_Un) blast
qed

text \<open>The synthesized edges have the fresh identifiers in order.\<close>

lemma extended_inj: "extended g es = extended g fs \<longleftrightarrow> es = fs"
  by (simp add: extended_def task_graph.ext_inject [symmetric]) (metis extended_def extended_simps(1) same_append_eq)

lemma add_seal_edge_id: "\<exists>e. ge_id e = i \<and> add_seal_edge i s t g = extended g [e]"
  by (intro exI [of _ "\<lparr> ge_id = i, ge_sources = [s], ge_targets = [t], ge_kind = EDGE_KIND_CONTROL, ge_gates = [] \<rparr>"])
    (simp add: add_seal_edge_def extended_def)

lemma seal_ids_Cons:
  "map ge_id es = map fresh [Suc k..<Suc k + length es] \<Longrightarrow> ge_id e = fresh k \<Longrightarrow> map ge_id (e # es) = map fresh [k..<k + length (e # es)]"
  by (simp add: upt_conv_Cons del: upt_Suc)

lemma wire_starts_ids:
  "\<exists>es. wire_starts fresh bodies ts (k, g) = (k + length es, extended g es) \<and> map ge_id es = map fresh [k..<k + length es]"
proof (induction ts arbitrary: k g)
  case Nil
  show ?case by (intro exI [of _ "[]"]) simp
next
  case (Cons t ts)
  show ?case
  proof (cases "has_non_loop_incoming g t \<or> in_entered_body bodies g t")
    case False
    obtain e where e: "ge_id e = fresh k" "add_seal_edge (fresh k) (tg_start g) t g = extended g [e]" using add_seal_edge_id by blast
    obtain es where "wire_starts fresh bodies ts (Suc k, extended g [e]) = (Suc k + length es, extended (extended g [e]) es)"
      "map ge_id es = map fresh [Suc k..<Suc k + length es]" using Cons.IH by blast
    then show ?thesis using False e seal_ids_Cons [of es fresh k e] by (intro exI [of _ "e # es"]) simp
  qed (use Cons.IH [of k g] in simp)
qed

lemma wire_ends_ids:
  "\<exists>es. wire_ends fresh X ts (k, g) = (k + length es, extended g es) \<and> map ge_id es = map fresh [k..<k + length es]"
proof (induction ts arbitrary: k g)
  case Nil
  show ?case by (intro exI [of _ "[]"]) simp
next
  case (Cons t ts)
  show ?case
  proof (cases "\<not> has_non_loop_outgoing g t \<and> t \<notin> X")
    case True
    obtain e where e: "ge_id e = fresh k" "add_seal_edge (fresh k) t (tg_end g) g = extended g [e]" using add_seal_edge_id by blast
    obtain es where "wire_ends fresh X ts (Suc k, extended g [e]) = (Suc k + length es, extended (extended g [e]) es)"
      "map ge_id es = map fresh [Suc k..<Suc k + length es]" using Cons.IH by blast
    then show ?thesis using True e seal_ids_Cons [of es fresh k e] by (intro exI [of _ "e # es"]) simp
  next
    case False
    then have "wire_ends fresh X (t # ts) (k, g) = wire_ends fresh X ts (k, g)" by auto
    then show ?thesis using Cons.IH [of k g] by simp
  qed
qed

lemma seal_ids:
  assumes "seal fresh p = Some (p\<lparr> pg_graph := extended (pg_graph p) es \<rparr>)"
  shows "map ge_id es = map fresh [0..<length es]"
proof -
  obtain bodies where b: "loop_sccs (pg_graph p) = Some bodies" using assms by (auto simp: seal_def)
  obtain fs where f: "wire_starts fresh bodies (pg_task_ids p) (0, pg_graph p) = (length fs, extended (pg_graph p) fs)"
    "map ge_id fs = map fresh [0..<length fs]" using wire_starts_ids [of fresh bodies "pg_task_ids p" 0 "pg_graph p"] by auto
  obtain hs where h: "wire_ends fresh (exiting_loop_members bodies (extended (pg_graph p) fs)) (pg_task_ids p) (length fs, extended (pg_graph p) fs)
      = (length fs + length hs, extended (pg_graph p) (fs @ hs))" "map ge_id hs = map fresh [length fs..<length fs + length hs]"
    using wire_ends_ids [of fresh _ "pg_task_ids p" "length fs" "extended (pg_graph p) fs"] by auto
  have "es = fs @ hs" using assms b f(1) h(1) by (simp add: seal_def) (metis extended_inj proto_definition_graph.select_convs(2) proto_definition_graph.surjective proto_definition_graph.update_convs(2))
  then show ?thesis using f(2) h(2) by (simp add: upt_add_eq_append [of 0 "length fs" "length hs"])
qed

lemma wire_starts_closed:
  assumes b: "bodies_of g bodies" and "\<forall>t \<in> set ts. entered g t"
  shows "wire_starts fresh bodies ts (k, g) = (k, g)"
  using assms(2) wire_starts_step [OF b, of g] by (induction ts) (auto simp: entered_def)

lemma wire_ends_closed:
  assumes b: "bodies_of g bodies" and "\<forall>t \<in> set ts. exited g t"
  shows "wire_ends fresh (exiting_loop_members bodies g) ts (k, g) = (k, g)"
  using assms(2) exiting_iff [OF b, of _ g] by (induction ts) (auto simp: exited_def)

lemma seal_closed:
  assumes "\<forall>t \<in> set (pg_task_ids p). entered (pg_graph p) t \<and> exited (pg_graph p) t"
  shows "seal fresh p = Some p"
proof -
  obtain bodies where "loop_sccs (pg_graph p) = Some bodies" "bodies_of (pg_graph p) bodies" by (rule loop_sccs_bodies)
  then show ?thesis using assms by (simp add: seal_def wire_starts_closed wire_ends_closed)
qed

section \<open>Terminability\<close>

definition terminable :: "task_graph \<Rightarrow> string set \<Rightarrow> bool" where
  "terminable g body \<longleftrightarrow> leaving_edges g body \<noteq> [] \<and> (\<forall>e \<in> set (leaving_edges g body). \<exists>gt \<in> set (ge_gates e). references_loop_control gt)"

lemma check_bodies_correct:
  "case check_bodies g bs of
     Inr _ \<Rightarrow> \<forall>b \<in> set bs. terminable g b
   | Inl (NoExit ids) \<Rightarrow> \<exists>b \<in> set bs. ids = sorted_list_of_set b \<and> leaving_edges g b = []
   | Inl (UngatedExit ids i) \<Rightarrow> \<exists>b \<in> set bs. \<exists>e \<in> set (leaving_edges g b). ids = sorted_list_of_set b \<and> ge_id e = i
       \<and> \<not> (\<exists>gt \<in> set (ge_gates e). references_loop_control gt)"
proof (induction bs)
  case (Cons b bs)
  show ?case
  proof (cases "find (\<lambda>e. \<not> list_ex references_loop_control (ge_gates e)) (leaving_edges g b)")
    case None
    then have "\<forall>e \<in> set (leaving_edges g b). \<exists>gt \<in> set (ge_gates e). references_loop_control gt"
      by (auto simp: find_None_iff list_ex_iff)
    then show ?thesis using Cons None by (auto simp: terminable_def split: sum.splits loop_terminability_violation.splits)
  next
    case (Some e)
    then have "e \<in> set (leaving_edges g b)" "\<not> list_ex references_loop_control (ge_gates e)" by (auto simp: find_Some_iff)
    then show ?thesis using Some by (auto simp: list_ex_iff)
  qed
qed simp

section \<open>Properties\<close>

text \<open>C37. The seal returns on every definition. It keeps every edge and only appends plain edges from the
  start to tasks that were not entered and from tasks that were not left to the end. Afterwards every
  task is entered and left, alone or with its loop body.\<close>

theorem seal_closes:
  "\<exists>es. seal fresh p = Some (p\<lparr> pg_graph := extended (pg_graph p) es \<rparr>)
    \<and> (\<forall>e \<in> set es. \<exists>t \<in> set (pg_task_ids p). seal_edge (tg_start (pg_graph p)) t e \<and> \<not> entered (pg_graph p) t
         \<or> seal_edge t (tg_end (pg_graph p)) e \<and> \<not> exited (pg_graph p) t)
    \<and> (\<forall>t \<in> set (pg_task_ids p). entered (extended (pg_graph p) es) t \<and> exited (extended (pg_graph p) es) t)"
  by (rule seal_effect [of fresh p], intro exI conjI)

text \<open>Two tasks in a ring without any other edge.\<close>

theorem seal_closes_witness:
  "let p = \<lparr> pg_task_ids = [''a'', ''b''], pg_graph = \<lparr> tg_nodes = [], tg_edges =
         [\<lparr> ge_id = ''e'', ge_sources = [''a''], ge_targets = [''b''], ge_kind = EDGE_KIND_LOOP, ge_gates = [] \<rparr>,
          \<lparr> ge_id = ''f'', ge_sources = [''b''], ge_targets = [''a''], ge_kind = EDGE_KIND_LOOP, ge_gates = [] \<rparr>],
         tg_start = ''start'', tg_end = ''end'' \<rparr> \<rparr>
   in \<exists>p'. seal (\<lambda>k. ''seal'') p = Some p' \<and> entered (pg_graph p') ''a'' \<and> exited (pg_graph p') ''b''"
proof -
  let ?p = "\<lparr> pg_task_ids = [''a'', ''b''], pg_graph = \<lparr> tg_nodes = [], tg_edges =
         [\<lparr> ge_id = ''e'', ge_sources = [''a''], ge_targets = [''b''], ge_kind = EDGE_KIND_LOOP, ge_gates = [] \<rparr>,
          \<lparr> ge_id = ''f'', ge_sources = [''b''], ge_targets = [''a''], ge_kind = EDGE_KIND_LOOP, ge_gates = [] \<rparr>],
         tg_start = ''start'', tg_end = ''end'' \<rparr> \<rparr>"
  obtain es where "seal (\<lambda>k. ''seal'') ?p = Some (?p\<lparr> pg_graph := extended (pg_graph ?p) es \<rparr>)"
    "\<forall>t \<in> set (pg_task_ids ?p). entered (extended (pg_graph ?p) es) t \<and> exited (extended (pg_graph ?p) es) t"
    using seal_closes [of "\<lambda>k. ''seal''" ?p] by blast
  then show ?thesis by (simp add: Let_def)
qed

text \<open>Sealing a sealed definition changes nothing.\<close>

lemma seal_idempotent: "Option.bind (seal fresh p) (seal fresh') = seal fresh p"
proof -
  obtain es where "seal fresh p = Some (p\<lparr> pg_graph := extended (pg_graph p) es \<rparr>)"
    "\<forall>t \<in> set (pg_task_ids p). entered (extended (pg_graph p) es) t \<and> exited (extended (pg_graph p) es) t"
    by (rule seal_effect)
  then show ?thesis using seal_closed [of "p\<lparr> pg_graph := extended (pg_graph p) es \<rparr>" fresh'] by simp
qed

text \<open>C38. The terminability check returns on every graph. It succeeds exactly when every loop body can be left
  and every edge that leaves one is gated on \<open>loop_control\<close>; otherwise it names, sorted, a loop body
  that cannot be left, or one with an ungated exit and that exit.\<close>

theorem terminability_correct:
  "\<exists>r. validate_loop_terminability g = Some r \<and> (case r of
      Inr _ \<Rightarrow> \<forall>v. cyclic g v \<longrightarrow> terminable g (loop_body_of g v)
    | Inl (NoExit ids) \<Rightarrow> \<exists>v. cyclic g v \<and> ids = sorted_list_of_set (loop_body_of g v) \<and> leaving_edges g (loop_body_of g v) = []
    | Inl (UngatedExit ids i) \<Rightarrow> \<exists>v. cyclic g v \<and> ids = sorted_list_of_set (loop_body_of g v)
        \<and> (\<exists>e \<in> set (leaving_edges g (loop_body_of g v)). ge_id e = i \<and> \<not> (\<exists>gt \<in> set (ge_gates e). references_loop_control gt)))"
proof -
  obtain bodies where b: "loop_sccs g = Some bodies" "bodies_of g bodies" by (rule loop_sccs_bodies)
  show ?thesis
    using b check_bodies_correct [where g = g and bs = bodies]
    by (auto simp: validate_loop_terminability_def bodies_of_def split: sum.splits loop_terminability_violation.splits)
qed

theorem terminability_correct_witness:
  "let g = \<lparr> tg_nodes = [], tg_edges =
       [\<lparr> ge_id = ''e'', ge_sources = [''a''], ge_targets = [''a''], ge_kind = EDGE_KIND_LOOP, ge_gates = [] \<rparr>,
        \<lparr> ge_id = ''f'', ge_sources = [''a''], ge_targets = [''end''], ge_kind = EDGE_KIND_CONTROL,
          ge_gates = [Some (PredicateHolds \<lparr> ph_routing_var = ''loop_control'', ph_op = 0, ph_value = None, ph_timeout = None \<rparr>)] \<rparr>],
       tg_start = ''start'', tg_end = ''end'' \<rparr>
   in validate_loop_terminability g = Some (Inr ()) \<and> cyclic g ''a'' \<and> terminable g (loop_body_of g ''a'')"
proof -
  let ?g = "\<lparr> tg_nodes = [], tg_edges =
       [\<lparr> ge_id = ''e'', ge_sources = [''a''], ge_targets = [''a''], ge_kind = EDGE_KIND_LOOP, ge_gates = [] \<rparr>,
        \<lparr> ge_id = ''f'', ge_sources = [''a''], ge_targets = [''end''], ge_kind = EDGE_KIND_CONTROL,
          ge_gates = [Some (PredicateHolds \<lparr> ph_routing_var = ''loop_control'', ph_op = 0, ph_value = None, ph_timeout = None \<rparr>)] \<rparr>],
       tg_start = ''start'', tg_end = ''end'' \<rparr>"
  have v: "validate_loop_terminability ?g = Some (Inr ())" by code_simp
  have "(''a'', ''a'') \<in> loop_step ?g" by (simp add: loop_step_def is_loop_edge_def)
  then have c: "cyclic ?g ''a''" by (auto simp: cyclic_def)
  have "\<forall>v. cyclic ?g v \<longrightarrow> terminable ?g (loop_body_of ?g v)" using terminability_correct [of ?g, unfolded v] by simp
  with v c show ?thesis unfolding Let_def by blast
qed

end
