(* ===== verification/Definition_Dominance.thy ===== *)
theory Definition_Dominance
  imports Definition_Graph
begin

text \<open>
  Correctness of the searches of \<^verbatim>\<open>definition_graph.rs\<close>: the breadth-first search returns on every
  graph, with a path exactly when there is one; the two dominance checks decide dominance over the
  walks of the graph; resolved signal inputs are dominated by their gate.
\<close>

section \<open>Breadth-first search\<close>

text \<open>The nodes from \<open>v\<close> back to the start, along the parents.\<close>

fun chain :: "(string \<rightharpoonup> string) \<Rightarrow> string \<Rightarrow> string \<Rightarrow> string list \<Rightarrow> bool" where
  "chain par s v [] \<longleftrightarrow> v = s \<and> par v = None"
| "chain par s v (p # ps) \<longleftrightarrow> par v = Some p \<and> chain par s p ps"

lemma chain_upd: "chain par s v ps \<Longrightarrow> m \<noteq> v \<Longrightarrow> m \<notin> set ps \<Longrightarrow> chain (par(m \<mapsto> n)) s v ps"
  by (induction ps arbitrary: v) auto

lemma trace_parents_chain: "chain par s v ps \<Longrightarrow> trace_parents par v path = Some (path @ ps)"
  by (induction ps arbitrary: v path) (auto simp: trace_parents.simps)

definition is_path :: "adjacency \<Rightarrow> string list \<Rightarrow> bool" where
  "is_path adj p \<longleftrightarrow> successively (\<lambda>a b. (a, b) \<in> set adj) p"

lemma chain_path:
  assumes "chain par s v ps" and "\<And>m p. par m = Some p \<Longrightarrow> (p, m) \<in> set adj"
  shows "is_path adj (rev (v # ps)) \<and> hd (rev (v # ps)) = s \<and> last (rev (v # ps)) = v"
  using assms(1)
proof (induction ps arbitrary: v)
  case (Cons p ps)
  then have "is_path adj (rev (p # ps))" "hd (rev (p # ps)) = s" "par v = Some p" by auto
  with assms(2) [of v p] show ?case by (auto simp: is_path_def successively_append_iff hd_append)
qed (simp add: is_path_def)

definition tree_inv :: "adjacency \<Rightarrow> string \<Rightarrow> bfs \<Rightarrow> bool" where
  "tree_inv adj s b \<longleftrightarrow> s \<in> b_visited b \<and> (\<forall>v \<in> b_visited b. \<exists>ps. chain (b_parent b) s v ps \<and> set ps \<subseteq> b_visited b)
     \<and> (\<forall>m p. b_parent b m = Some p \<longrightarrow> (p, m) \<in> set adj)"

lemma bfs_visit_tree:
  assumes "tree_inv adj s b" and "node \<in> b_visited b" and "\<forall>m \<in> set ms. (node, m) \<in> set adj"
  shows "tree_inv adj s (bfs_visit node ms b)"
  using assms
proof (induction node ms b rule: bfs_visit.induct)
  case (2 node m ms b)
  show ?case
  proof (cases "m \<in> b_visited b")
    case False
    let ?b = "b\<lparr> b_visited := insert m (b_visited b), b_parent := (b_parent b)(m \<mapsto> node), b_queue := b_queue b @ [m] \<rparr>"
    have old: "\<exists>ps. chain (b_parent ?b) s v ps \<and> set ps \<subseteq> b_visited b" if v: "v \<in> b_visited b" for v
    proof -
      obtain ps where "chain (b_parent b) s v ps" "set ps \<subseteq> b_visited b" using 2(3) v by (auto simp: tree_inv_def)
      moreover from this v False have "chain ((b_parent b)(m \<mapsto> node)) s v ps" by (intro chain_upd) auto
      ultimately show ?thesis by (intro exI [of _ ps]) simp
    qed
    obtain ps where "chain (b_parent ?b) s node ps" "set ps \<subseteq> b_visited b" using old 2(4) by blast
    then have m: "chain (b_parent ?b) s m (node # ps)" "set (node # ps) \<subseteq> b_visited ?b" using 2(4) by auto
    have "\<exists>ps. chain (b_parent ?b) s v ps \<and> set ps \<subseteq> b_visited ?b" if v: "v \<in> b_visited ?b" for v
    proof (cases "v = m")
      case True
      then show ?thesis using m by blast
    next
      case False
      then obtain qs where "chain (b_parent ?b) s v qs" "set qs \<subseteq> b_visited b" using old [of v] v by auto
      then show ?thesis by (intro exI [of _ qs]) auto
    qed
    then have "tree_inv adj s ?b" using 2(3,5) by (simp add: tree_inv_def)
    then show ?thesis using False 2(2,4,5) by simp
  qed (use 2 in simp)
qed simp

lemma bfs_visit_sets:
  "b_visited (bfs_visit node ms b) = b_visited b \<union> set ms"
  "set (b_queue (bfs_visit node ms b)) = set (b_queue b) \<union> (set ms - b_visited b)"
  by (induction node ms b rule: bfs_visit.induct) auto

definition bfs_inv :: "adjacency \<Rightarrow> string \<Rightarrow> string \<Rightarrow> bfs \<Rightarrow> bool" where
  "bfs_inv adj s t b \<longleftrightarrow> tree_inv adj s b \<and> set (b_queue b) \<subseteq> b_visited b
     \<and> (\<forall>v \<in> b_visited b - set (b_queue b). v \<noteq> t \<and> set (neighbours adj v) \<subseteq> b_visited b)"

lemma bfs_inv_step:
  assumes "bfs_inv adj s t b" and q: "b_queue b = node # q" and "node \<noteq> t"
  shows "bfs_inv adj s t (bfs_visit node (neighbours adj node) (b\<lparr> b_queue := q \<rparr>))"
proof -
  have "tree_inv adj s (b\<lparr> b_queue := q \<rparr>)" "node \<in> b_visited b"
    using assms by (auto simp: bfs_inv_def tree_inv_def)
  then have "tree_inv adj s (bfs_visit node (neighbours adj node) (b\<lparr> b_queue := q \<rparr>))"
    by (intro bfs_visit_tree) (auto simp: neighbours_iff)
  then show ?thesis using assms by (auto simp: bfs_inv_def bfs_visit_sets)
qed

lemma bfs_loop_correct:
  assumes "bfs_inv adj s t b"
  shows "case bfs_loop adj t b of
      None \<Rightarrow> (s, t) \<notin> (set adj)\<^sup>*
    | Some par \<Rightarrow> (\<exists>ps. chain par s t ps) \<and> (\<forall>m p. par m = Some p \<longrightarrow> (p, m) \<in> set adj)"
  using assms
proof (induction adj t b rule: bfs_loop.induct)
  case (1 adj t b)
  show ?case
  proof (cases "b_queue b")
    case Nil
    then have cl: "\<forall>v \<in> b_visited b. v \<noteq> t \<and> set (neighbours adj v) \<subseteq> b_visited b" and s: "s \<in> b_visited b"
      using 1(2) by (auto simp: bfs_inv_def tree_inv_def)
    have "v \<in> b_visited b" if "(s, v) \<in> (set adj)\<^sup>*" for v
      using that by (induction rule: rtrancl_induct) (use s cl in \<open>auto simp: neighbours_iff subset_iff\<close>)
    with cl have "(s, t) \<notin> (set adj)\<^sup>*" by blast
    then show ?thesis by (simp add: bfs_loop.simps [of adj t b] Nil)
  next
    case (Cons node q)
    show ?thesis
    proof (cases "node = t")
      case True
      then show ?thesis using 1(2) Cons by (auto simp: bfs_loop.simps [of adj t b] bfs_inv_def tree_inv_def)
    next
      case False
      then show ?thesis using 1(1) [OF Cons False bfs_inv_step [OF 1(2) Cons False]] Cons
        by (simp add: bfs_loop.simps [of adj t b])
    qed
  qed
qed

text \<open>The search returns on every input; it returns a path from the start to the target, or the
  target is not reachable.\<close>

lemma bfs_witness_correct:
  "(\<exists>p. bfs_witness adj s t = Some (Some p) \<and> is_path adj p \<and> p \<noteq> [] \<and> hd p = s \<and> last p = t)
   \<or> (bfs_witness adj s t = Some None \<and> (s, t) \<notin> (set adj)\<^sup>*)"
proof -
  let ?b = "\<lparr> b_visited = {s}, b_parent = Map.empty, b_queue = [s] \<rparr>"
  have "bfs_inv adj s t ?b"
    by (auto simp: bfs_inv_def tree_inv_def intro: exI [of _ "[]"])
  note c = bfs_loop_correct [OF this]
  show ?thesis
  proof (cases "bfs_loop adj t ?b")
    case None
    with c show ?thesis by (simp add: bfs_witness_def)
  next
    case (Some par)
    with c obtain ps where ch: "chain par s t ps" and e: "\<forall>m p. par m = Some p \<longrightarrow> (p, m) \<in> set adj" by auto
    have "bfs_witness adj s t = Some (Some (rev (t # ps)))"
      by (simp add: bfs_witness_def Some trace_parents_chain [OF ch])
    with chain_path [OF ch] e show ?thesis by auto
  qed
qed

lemma is_path_rtrancl: "is_path adj p \<Longrightarrow> p \<noteq> [] \<Longrightarrow> (hd p, last p) \<in> (set adj)\<^sup>*"
  unfolding is_path_def by (induction p rule: induct_list012) (auto intro: converse_rtrancl_into_rtrancl)

lemma bfs_witness_None_iff: "bfs_witness adj s t = Some None \<longleftrightarrow> (s, t) \<notin> (set adj)\<^sup>*"
  using bfs_witness_correct [of adj s t] is_path_rtrancl [of adj] by auto

section \<open>Walks\<close>

text \<open>A walk from \<open>u\<close> to \<open>v\<close>: the edges taken, each with the target it is left by.\<close>

fun walk :: "task_graph \<Rightarrow> string \<Rightarrow> (edge \<times> string) list \<Rightarrow> string \<Rightarrow> bool" where
  "walk g u [] v \<longleftrightarrow> u = v"
| "walk g u ((e, w) # es) v \<longleftrightarrow> e \<in> set (tg_edges g) \<and> u \<in> set (ge_sources e) \<and> w \<in> set (ge_targets e) \<and> walk g w es v"

text \<open>The nodes a walk leaves.\<close>

fun walk_nodes :: "string \<Rightarrow> (edge \<times> string) list \<Rightarrow> string list" where
  "walk_nodes u [] = []"
| "walk_nodes u ((e, w) # es) = u # walk_nodes w es"

definition edge_dominates :: "task_graph \<Rightarrow> string \<Rightarrow> string \<Rightarrow> bool" where
  "edge_dominates g gate task \<longleftrightarrow> (\<forall>es. walk g (tg_start g) es task \<longrightarrow> (\<exists>(e, w) \<in> set es. ge_id e = gate))"

definition task_dominates :: "task_graph \<Rightarrow> string \<Rightarrow> string \<Rightarrow> bool" where
  "task_dominates g a d \<longleftrightarrow> (\<forall>es. walk g (tg_start g) es d \<longrightarrow> a \<in> set (walk_nodes (tg_start g) es) \<or> a = d)"

lemma edge_pairs_iff: "(s, t) \<in> set (edge_pairs e) \<longleftrightarrow> s \<in> set (ge_sources e) \<and> t \<in> set (ge_targets e)"
  by (auto simp: edge_pairs_def)

lemma walk_rtrancl_minus_gate:
  "(u, v) \<in> (set (adjacency_minus_gate g gate))\<^sup>* \<longleftrightarrow> (\<exists>es. walk g u es v \<and> (\<forall>(e, w) \<in> set es. ge_id e \<noteq> gate))"
proof
  assume "(u, v) \<in> (set (adjacency_minus_gate g gate))\<^sup>*"
  then show "\<exists>es. walk g u es v \<and> (\<forall>(e, w) \<in> set es. ge_id e \<noteq> gate)"
  proof (induction rule: converse_rtrancl_induct)
    case base
    show ?case by (rule exI [of _ "[]"]) simp
  next
    case (step u w)
    then obtain e es where "e \<in> set (tg_edges g)" "ge_id e \<noteq> gate" "(u, w) \<in> set (edge_pairs e)"
      and "walk g w es v" "\<forall>(e, w) \<in> set es. ge_id e \<noteq> gate" by (auto simp: adjacency_minus_gate_def)
    then show ?case by (intro exI [of _ "(e, w) # es"]) (auto simp: edge_pairs_iff)
  qed
next
  assume "\<exists>es. walk g u es v \<and> (\<forall>(e, w) \<in> set es. ge_id e \<noteq> gate)"
  then obtain es where "walk g u es v" "\<forall>(e, w) \<in> set es. ge_id e \<noteq> gate" by blast
  then show "(u, v) \<in> (set (adjacency_minus_gate g gate))\<^sup>*"
  proof (induction g u es v rule: walk.induct)
    case (2 g u e w es v)
    then have "(u, w) \<in> set (adjacency_minus_gate g gate)" by (auto simp: adjacency_minus_gate_def edge_pairs_iff)
    with 2 show ?case by (auto intro: converse_rtrancl_into_rtrancl)
  qed simp
qed

lemma walk_rtrancl_avoiding:
  "(u, v) \<in> (set (adjacency_avoiding g a))\<^sup>* \<longleftrightarrow> (\<exists>es. walk g u es v \<and> a \<notin> set (walk_nodes u es))"
proof
  assume "(u, v) \<in> (set (adjacency_avoiding g a))\<^sup>*"
  then show "\<exists>es. walk g u es v \<and> a \<notin> set (walk_nodes u es)"
  proof (induction rule: converse_rtrancl_induct)
    case base
    show ?case by (rule exI [of _ "[]"]) simp
  next
    case (step u w)
    then obtain e es where "e \<in> set (tg_edges g)" "u \<noteq> a" "(u, w) \<in> set (edge_pairs e)"
      and "walk g w es v" "a \<notin> set (walk_nodes w es)" by (auto simp: adjacency_avoiding_def)
    then show ?case by (intro exI [of _ "(e, w) # es"]) (auto simp: edge_pairs_iff)
  qed
next
  assume "\<exists>es. walk g u es v \<and> a \<notin> set (walk_nodes u es)"
  then obtain es where "walk g u es v" "a \<notin> set (walk_nodes u es)" by blast
  then show "(u, v) \<in> (set (adjacency_avoiding g a))\<^sup>*"
  proof (induction g u es v rule: walk.induct)
    case (2 g u e w es v)
    then have "(u, w) \<in> set (adjacency_avoiding g a)" by (auto simp: adjacency_avoiding_def edge_pairs_iff)
    with 2 show ?case by (auto intro: converse_rtrancl_into_rtrancl)
  qed simp
qed

lemma validate_dominates_iff:
  "validate_dominates g task gate = Some (Inr ()) \<longleftrightarrow> gate \<in> ge_id ` set (tg_edges g) \<and> edge_dominates g gate task"
proof -
  have "edge_dominates g gate task \<longleftrightarrow> (tg_start g, task) \<notin> (set (adjacency_minus_gate g gate))\<^sup>*"
    unfolding edge_dominates_def walk_rtrancl_minus_gate by fast
  moreover have "bfs_witness (adjacency_minus_gate g gate) (tg_start g) task = Some None \<longleftrightarrow>
      (tg_start g, task) \<notin> (set (adjacency_minus_gate g gate))\<^sup>*" by (rule bfs_witness_None_iff)
  ultimately show ?thesis
    by (auto simp: validate_dominates_def image_iff split: option.splits)
qed

section \<open>Resolution of signal inputs\<close>

lemma validate_task_dominates_iff: "validate_task_dominates g a d = Some (Inr ()) \<longleftrightarrow> task_dominates g a d"
proof (cases "a = d")
  case False
  have "task_dominates g a d \<longleftrightarrow> (tg_start g, d) \<notin> (set (adjacency_avoiding g a))\<^sup>*"
    using False by (auto simp: task_dominates_def walk_rtrancl_avoiding)
  then show ?thesis
    using bfs_witness_correct [of "adjacency_avoiding g a" "tg_start g" d] bfs_witness_None_iff [of "adjacency_avoiding g a" "tg_start g" d] False
    by (auto simp: validate_task_dominates_def split: option.splits)
qed (simp add: task_dominates_def validate_task_dominates_def)

lemma validate_task_dominates_total: "\<exists>r. validate_task_dominates g a d = Some r"
  using bfs_witness_correct [of "adjacency_avoiding g a" "tg_start g" d] by (auto simp: validate_task_dominates_def)

lemma validate_dominates_total: "\<exists>r. validate_dominates g task gate = Some r"
  using bfs_witness_correct [of "adjacency_minus_gate g gate" "tg_start g" task] by (auto simp: validate_dominates_def)

definition signal_edges :: "task_graph \<Rightarrow> string \<Rightarrow> string \<Rightarrow> edge list" where
  "signal_edges g task name = filter (\<lambda>e. carries_signal name e \<and> edge_dominates g (ge_id e) task) (tg_edges g)"

lemma dominating_edges_eq:
  "dominating_edges g task name (tg_edges g) = Some (map ge_id (signal_edges g task name))"
proof -
  have "dominating_edges g task name es =
      Some (map ge_id (filter (\<lambda>e. carries_signal name e \<and> edge_dominates g (ge_id e) task) es))"
    if "set es \<subseteq> set (tg_edges g)" for es
    using that
  proof (induction es)
    case (Cons e es)
    obtain r where r: "validate_dominates g task (ge_id e) = Some r" using validate_dominates_total by blast
    have "(\<exists>u. r = Inr u) \<longleftrightarrow> edge_dominates g (ge_id e) task"
      using validate_dominates_iff [of g task "ge_id e"] r Cons.prems by auto
    with Cons r show ?case by (cases r) auto
  qed simp
  then show ?thesis by (simp add: signal_edges_def)
qed

text \<open>What an unresolved signal slot is resolved to.\<close>

definition slot_result :: "task_graph \<Rightarrow> string \<Rightarrow> nat \<Rightarrow> string \<Rightarrow> signal_resolution_error + resolved_signal_source list" where
  "slot_result g task slot name = (case signal_edges g task name of
      [] \<Rightarrow> Inl (Unresolved task name)
    | [e] \<Rightarrow> Inr [\<lparr> rs_task_id = task, rs_slot = slot, rs_gate_edge_id = ge_id e \<rparr>]
    | es \<Rightarrow> Inl (Ambiguous task name (length es)))"

lemma resolve_slot_eq:
  "resolve_slot parse g task slot s = Some (case s of
      Some (Some (SignalSource name gate)) \<Rightarrow> if is_unresolved parse gate then slot_result g task slot name else Inr []
    | _ \<Rightarrow> Inr [])"
  by (auto simp: resolve_slot_def slot_result_def dominating_edges_eq split: option.splits input_source.splits list.splits)

text \<open>The slots of a task that need a gate.\<close>

definition open_slot :: "(string \<Rightarrow> uuid option) \<Rightarrow> task_definition \<Rightarrow> nat \<Rightarrow> string \<Rightarrow> bool" where
  "open_slot parse t i name \<longleftrightarrow> (\<exists>slots gate. td_input_sources t = Some slots \<and> i < length slots
     \<and> slots ! i = Some (Some (SignalSource name gate)) \<and> is_unresolved parse gate)"

lemma resolve_slots_correct:
  "\<exists>r. resolve_slots parse g task k ss = Some r \<and> (case r of
      Inr rs \<Rightarrow> (\<forall>i name gate. i < length ss \<longrightarrow> ss ! i = Some (Some (SignalSource name gate)) \<longrightarrow> is_unresolved parse gate \<longrightarrow>
          (\<exists>e. signal_edges g task name = [e] \<and> \<lparr> rs_task_id = task, rs_slot = k + i, rs_gate_edge_id = ge_id e \<rparr> \<in> set rs))
    | Inl err \<Rightarrow> (\<exists>i name gate. i < length ss \<and> ss ! i = Some (Some (SignalSource name gate)) \<and> is_unresolved parse gate
          \<and> slot_result g task (k + i) name = Inl err))"
proof (induction ss arbitrary: k)
  case (Cons s ss)
  obtain r where r: "resolve_slots parse g task (Suc k) ss = Some r" using Cons.IH by blast
  note IH = Cons.IH [of "Suc k", unfolded r]
  show ?case
  proof (cases "\<exists>name gate. s = Some (Some (SignalSource name gate)) \<and> is_unresolved parse gate")
    case False
    then have q: "resolve_slot parse g task k s = Some (Inr [])"
      by (auto simp: resolve_slot_eq split: option.splits input_source.splits)
    show ?thesis
    proof (cases r)
      case (Inl err)
      with IH obtain i name gate where "i < length ss" "ss ! i = Some (Some (SignalSource name gate))" "is_unresolved parse gate"
        "slot_result g task (Suc k + i) name = Inl err" by auto
      with q r Inl show ?thesis by (intro exI [of _ "Inl err"]) (auto intro!: exI [of _ "Suc i"])
    next
      case (Inr rs)
      with IH False q r show ?thesis by (intro exI [of _ "Inr rs"]) (auto simp: less_Suc_eq_0_disj)
    qed
  next
    case True
    then obtain name gate where s: "s = Some (Some (SignalSource name gate))" "is_unresolved parse gate" by blast
    show ?thesis
    proof (cases "slot_result g task k name")
      case (Inl err)
      with s show ?thesis by (intro exI [of _ "Inl err"]) (auto simp: resolve_slot_eq intro!: exI [of _ 0])
    next
      case (Inr xs)
      then obtain e where e: "signal_edges g task name = [e]" "xs = [\<lparr> rs_task_id = task, rs_slot = k, rs_gate_edge_id = ge_id e \<rparr>]"
        by (auto simp: slot_result_def split: list.splits)
      show ?thesis
      proof (cases r)
        case (Inl err)
        with IH obtain i name gate where "i < length ss" "ss ! i = Some (Some (SignalSource name gate))" "is_unresolved parse gate"
          "slot_result g task (Suc k + i) name = Inl err" by auto
        with s Inr r Inl show ?thesis
          by (intro exI [of _ "Inl err"]) (auto simp: resolve_slot_eq intro!: exI [of _ "Suc i"])
      next
        case (Inr rs)
        with IH s e r \<open>slot_result g task k name = Inr xs\<close> show ?thesis
          by (intro exI [of _ "Inr (xs @ rs)"]) (auto simp: resolve_slot_eq less_Suc_eq_0_disj)
      qed
    qed
  qed
qed simp

lemma resolve_sources_correct:
  "\<exists>r. resolve_signal_input_sources parse ts g = Some r \<and> (case r of
      Inr rs \<Rightarrow> (\<forall>t \<in> set ts. \<forall>i name. open_slot parse t i name \<longrightarrow>
          (\<exists>e. signal_edges g (td_id t) name = [e] \<and> \<lparr> rs_task_id = td_id t, rs_slot = i, rs_gate_edge_id = ge_id e \<rparr> \<in> set rs))
    | Inl err \<Rightarrow> (\<exists>t \<in> set ts. \<exists>i name. open_slot parse t i name \<and> slot_result g (td_id t) i name = Inl err))"
proof (induction ts)
  case (Cons t ts)
  then obtain r where r: "resolve_signal_input_sources parse ts g = Some r" by blast
  note IH = Cons.IH [unfolded r]
  show ?case
  proof (cases "td_input_sources t")
    case None
    then show ?thesis using IH r by (intro exI [of _ r]) (auto simp: open_slot_def split: sum.splits)
  next
    case (Some ss)
    obtain q where q: "resolve_slots parse g (td_id t) 0 ss = Some q" using resolve_slots_correct by blast
    note S = resolve_slots_correct [of parse g "td_id t" 0 ss, unfolded q]
    have op: "open_slot parse t i name \<longleftrightarrow> i < length ss \<and> (\<exists>gate. ss ! i = Some (Some (SignalSource name gate)) \<and> is_unresolved parse gate)" for i name
      by (auto simp: open_slot_def Some)
    show ?thesis
    proof (cases q)
      case (Inl err)
      with S have "\<exists>i name. open_slot parse t i name \<and> slot_result g (td_id t) i name = Inl err" by (auto simp: op)
      with Some q Inl show ?thesis by (intro exI [of _ "Inl err"]) auto
    next
      case (Inr xs)
      with S have x: "\<exists>e. signal_edges g (td_id t) name = [e] \<and> \<lparr> rs_task_id = td_id t, rs_slot = i, rs_gate_edge_id = ge_id e \<rparr> \<in> set xs"
        if "open_slot parse t i name" for i name using that by (auto simp: op)
      show ?thesis
      proof (cases r)
        case (Inl err)
        with IH Some q \<open>q = Inr xs\<close> r show ?thesis by (intro exI [of _ "Inl err"]) auto
      next
        case (Inr rs)
        with IH Some q \<open>q = Inr xs\<close> r x show ?thesis by (intro exI [of _ "Inr (xs @ rs)"]) fastforce
      qed
    qed
  qed
qed simp

section \<open>Properties\<close>

text \<open>C12. The dominance check of a gate's edge always returns. It succeeds exactly when the edge exists and
  every walk from the start to the task takes it. Otherwise it fails: with no path if the edge is
  missing, or with a path from the start to the task along the other edges.\<close>

theorem validate_dominates_correct:
  "(if gate \<in> ge_id ` set (tg_edges g) \<and> edge_dominates g gate task then validate_dominates g task gate = Some (Inr ())
    else \<exists>p. validate_dominates g task gate = Some (Inl \<lparr> dv_task_id = task, dv_gate_edge_id = gate, dv_bypass_path = p \<rparr>)
      \<and> (if gate \<in> ge_id ` set (tg_edges g)
         then is_path (adjacency_minus_gate g gate) p \<and> p \<noteq> [] \<and> hd p = tg_start g \<and> last p = task else p = []))"
proof (cases "gate \<in> ge_id ` set (tg_edges g) \<and> edge_dominates g gate task")
  case True
  then show ?thesis using validate_dominates_iff by simp
next
  case False
  show ?thesis
  proof (cases "gate \<in> ge_id ` set (tg_edges g)")
    case True
    with False have "bfs_witness (adjacency_minus_gate g gate) (tg_start g) task \<noteq> Some None"
      unfolding bfs_witness_None_iff walk_rtrancl_minus_gate edge_dominates_def by fast
    with True False bfs_witness_correct [of "adjacency_minus_gate g gate" "tg_start g" task] show ?thesis
      by (auto simp: validate_dominates_def)
  qed (auto simp: validate_dominates_def)
qed

text \<open>The dominance check of a task always returns, and succeeds exactly when every walk from the start
  to the descendant passes through the ancestor; otherwise it names a path that avoids it.\<close>

lemma validate_task_dominates_correct:
  "(if task_dominates g a d then validate_task_dominates g a d = Some (Inr ())
    else \<exists>p. validate_task_dominates g a d = Some (Inl \<lparr> dv_task_id = d, dv_gate_edge_id = a, dv_bypass_path = p \<rparr>)
      \<and> is_path (adjacency_avoiding g a) p \<and> p \<noteq> [] \<and> hd p = tg_start g \<and> last p = d)"
proof (cases "a = d")
  case False
  have "task_dominates g a d \<longleftrightarrow> (tg_start g, d) \<notin> (set (adjacency_avoiding g a))\<^sup>*"
    using False by (auto simp: task_dominates_def walk_rtrancl_avoiding)
  then show ?thesis
    using bfs_witness_correct [of "adjacency_avoiding g a" "tg_start g" d] bfs_witness_None_iff [of "adjacency_avoiding g a" "tg_start g" d] False
    by (auto simp: validate_task_dominates_def)
qed (simp add: task_dominates_def validate_task_dominates_def)

text \<open>C35. The resolution of signal inputs always returns. When it succeeds, every open signal slot is resolved
  to the one edge that carries its signal and lies on every walk from the start to its task, so that
  the signal was received whenever the task runs. When it fails, the error names a slot that has no
  such edge, or several.\<close>

theorem signal_inputs_resolved:
  "\<exists>r. resolve_signal_input_sources parse tasks g = Some r \<and> (case r of
      Inr rs \<Rightarrow> (\<forall>t \<in> set tasks. \<forall>i name. open_slot parse t i name \<longrightarrow>
          (\<exists>e. signal_edges g (td_id t) name = [e] \<and> edge_dominates g (ge_id e) (td_id t)
             \<and> \<lparr> rs_task_id = td_id t, rs_slot = i, rs_gate_edge_id = ge_id e \<rparr> \<in> set rs))
    | Inl (Unresolved task name) \<Rightarrow> (\<exists>t \<in> set tasks. \<exists>i. td_id t = task \<and> open_slot parse t i name \<and> signal_edges g task name = [])
    | Inl (Ambiguous task name n) \<Rightarrow> (\<exists>t \<in> set tasks. \<exists>i. td_id t = task \<and> open_slot parse t i name
          \<and> length (signal_edges g task name) = n \<and> 1 < n))"
proof -
  obtain r where r: "resolve_signal_input_sources parse tasks g = Some r" using resolve_sources_correct by blast
  note R = resolve_sources_correct [of parse tasks g, unfolded r]
  have dom: "edge_dominates g (ge_id e) task" if "signal_edges g task name = [e]" for e task name
  proof -
    have "e \<in> set (signal_edges g task name)" by (simp add: that)
    then show ?thesis by (simp add: signal_edges_def)
  qed
  show ?thesis
  proof (cases r)
    case (Inl err)
    with R obtain t i name where t: "t \<in> set tasks" "open_slot parse t i name" "slot_result g (td_id t) i name = Inl err" by auto
    from t(3) have "err = Unresolved (td_id t) name \<and> signal_edges g (td_id t) name = []
        \<or> err = Ambiguous (td_id t) name (length (signal_edges g (td_id t) name)) \<and> 1 < length (signal_edges g (td_id t) name)"
      by (auto simp: slot_result_def split: list.splits)
    with t r Inl show ?thesis by (intro exI [of _ "Inl err"]) (auto intro!: bexI [of _ t])
  next
    case (Inr rs)
    with R r dom show ?thesis by (intro exI [of _ "Inr rs"]) fastforce
  qed
qed

text \<open>A task behind a gated edge of the start, with one open slot for the gate's signal.\<close>

theorem signal_inputs_resolved_witness:
  "let t = default_task\<lparr> td_id := ''a'', td_input_sources := Some [Some (Some (SignalSource ''s'' []))] \<rparr>;
       g = \<lparr> tg_nodes = [], tg_edges = [\<lparr> ge_id = ''e'', ge_sources = [''start''], ge_targets = [''a''], ge_kind = EDGE_KIND_CONTROL,
               ge_gates = [Some (SignalReceived \<lparr> sr_signal_name = ''s'', sr_predicate = None, sr_captures_spec = [], sr_timeout = None \<rparr>)] \<rparr>], tg_start = ''start'', tg_end = ''end'' \<rparr>
   in resolve_signal_input_sources (\<lambda>_. None) [t] g
        = Some (Inr [\<lparr> rs_task_id = ''a'', rs_slot = 0, rs_gate_edge_id = ''e'' \<rparr>])
      \<and> edge_dominates g ''e'' ''a''"
proof -
  let ?t = "default_task\<lparr> td_id := ''a'', td_input_sources := Some [Some (Some (SignalSource ''s'' []))] \<rparr>"
  let ?g = "\<lparr> tg_nodes = [], tg_edges = [\<lparr> ge_id = ''e'', ge_sources = [''start''], ge_targets = [''a''], ge_kind = EDGE_KIND_CONTROL,
               ge_gates = [Some (SignalReceived \<lparr> sr_signal_name = ''s'', sr_predicate = None, sr_captures_spec = [], sr_timeout = None \<rparr>)] \<rparr>], tg_start = ''start'', tg_end = ''end'' \<rparr>"
  have r: "resolve_signal_input_sources (\<lambda>_. None) [?t] ?g
      = Some (Inr [\<lparr> rs_task_id = ''a'', rs_slot = 0, rs_gate_edge_id = ''e'' \<rparr>])"
    by (simp add: resolve_slot_def is_unresolved_def carries_signal_def validate_dominates_def bfs_witness_def bfs_loop.simps
        adjacency_minus_gate_def neighbours_def)
  have o: "open_slot (\<lambda>_. None) ?t 0 ''s''" by (simp add: open_slot_def is_unresolved_def)
  have "\<forall>t \<in> set [?t]. \<forall>i name. open_slot (\<lambda>_. None) t i name \<longrightarrow>
      (\<exists>e. signal_edges ?g (td_id t) name = [e] \<and> edge_dominates ?g (ge_id e) (td_id t)
         \<and> \<lparr> rs_task_id = td_id t, rs_slot = i, rs_gate_edge_id = ge_id e \<rparr> \<in> set [\<lparr> rs_task_id = ''a'', rs_slot = 0, rs_gate_edge_id = ''e'' \<rparr>])"
    using signal_inputs_resolved [of "\<lambda>_. None" "[?t]" ?g, unfolded r] by simp
  with o have "edge_dominates ?g ''e'' ''a''" by fastforce
  with r show ?thesis unfolding Let_def by (rule conjI)
qed

end
