(* ===== verification/Builder_Graph.thy ===== *)
theory Builder_Graph
  imports Workflow_Builder Seal_Properties Definition_Dominance
begin

text \<open>
  What the phases of the builder establish, one after the other: the identifiers of tasks, nodes and
  edges, and the endpoints of edges. The documented behaviour of \<open>uuid\<close> that is used: a printed identifier
  is parsed back, and the identifiers of version 4 that one definition takes are not repeated.
\<close>

section \<open>Results\<close>

lemma and_then_Inr: "and_then r f = Inr y \<longleftrightarrow> (\<exists>x. r = Inr x \<and> f x = Inr y)"
  by (simp add: and_then_def split: sum.splits)

lemma proceed_Inr: "proceed r f = Some (Inr y) \<longleftrightarrow> (\<exists>x. r = Some (Inr x) \<and> f x = Some (Inr y))"
  by (simp add: proceed_def split: option.splits sum.splits)

lemma proceed_None: "proceed r f = None \<longleftrightarrow> r = None \<or> (\<exists>x. r = Some (Inr x) \<and> f x = None)"
  by (auto simp: proceed_def split: option.splits sum.splits)

lemma all_checked_Inr: "all_checked f xs = Inr ys \<longleftrightarrow> list_all2 (\<lambda>x y. f x = Inr y) xs ys"
  by (induction xs arbitrary: ys) (auto simp: and_then_Inr list_all2_Cons1)

lemma all_ok_Inr: "all_ok f xs = Some (Inr ()) \<longleftrightarrow> (\<forall>x \<in> set xs. f x = Some (Inr ()))"
  by (induction xs) (auto simp: proceed_Inr)

lemma all_ok_total: "(\<And>x. x \<in> set xs \<Longrightarrow> f x \<noteq> None) \<Longrightarrow> all_ok f xs \<noteq> None"
  by (induction xs) (auto simp: proceed_None)

section \<open>Identifiers\<close>

definition uuid_texts :: "'n build_externals \<Rightarrow> bool" where
  "uuid_texts X \<longleftrightarrow> (\<forall>u. be_parse_uuid X (be_uuid_text X u) = Some u)"

definition v4_supply :: "(nat \<Rightarrow> uuid) \<Rightarrow> nat \<Rightarrow> bool" where
  "v4_supply fresh n \<longleftrightarrow> inj_on fresh {..<n}"

abbreviation fresh_text :: "'n build_externals \<Rightarrow> (nat \<Rightarrow> uuid) \<Rightarrow> nat \<Rightarrow> string" where
  "fresh_text X fresh k \<equiv> be_uuid_text X (fresh k)"

lemma uuid_text_inj: "uuid_texts X \<Longrightarrow> be_uuid_text X u = be_uuid_text X v \<longleftrightarrow> u = v"
  by (metis uuid_texts_def option.inject)

lemma fresh_text_distinct:
  assumes "uuid_texts X" and "v4_supply fresh n" and "distinct ks" and "set ks \<subseteq> {..<n}"
  shows "distinct (map (fresh_text X fresh) ks)"
proof -
  have "inj_on (fresh_text X fresh) (set ks)"
    using assms(2,4) uuid_text_inj [OF assms(1)] unfolding v4_supply_def inj_on_def by (metis subsetD)
  then show ?thesis using assms(3) by (simp add: distinct_map)
qed

section \<open>Tasks\<close>

text \<open>A signal slot that was not resolved yet.\<close>

definition open_slots :: "'n build_externals \<Rightarrow> task_definition \<Rightarrow> bool" where
  "open_slots X d \<longleftrightarrow> (\<forall>slots. td_input_sources d = Some slots \<longrightarrow>
     (\<forall>name i. Some (Some (SignalSource name i)) \<in> set slots \<longrightarrow> i = be_uuid_text X 0))"

lemma input_slot_open: "input_slot X b = Some (Some (SignalSource name i)) \<Longrightarrow> i = be_uuid_text X 0"
  by (cases "(X, b)" rule: input_slot.cases) auto

lemma proto_task_Inr:
  "proto_task X w i t = Inr d \<Longrightarrow> td_id d = be_uuid_text X i \<and> td_name d = pt_name t \<and> open_slots X d"
  by (auto simp: proto_task_def open_slots_def split: option.splits if_splits dest!: input_slot_open [OF sym])

text \<open>The name and the routing variables of a task are those of the parsed task.\<close>

definition declares :: "'n parsed_task \<Rightarrow> string \<times> routing_var_decl list" where
  "declares t = (pt_name t, map (\<lambda>rv. \<lparr> rd_name = prv_name rv, rd_var_type = prv_var_type rv \<rparr>) (pt_routing_vars t))"

definition declared :: "task_definition \<Rightarrow> string \<times> routing_var_decl list" where
  "declared d = (td_name d, td_routing_vars d)"

lemma proto_task_declared: "proto_task X w i t = Inr d \<Longrightarrow> declared d = declares t"
  by (auto simp: proto_task_def declared_def declares_def split: option.splits if_splits)

lemma group_to_proto_tasks_Inr:
  assumes "group_to_proto_tasks X fresh w k ts = Inr ds"
  shows "map td_id ds = map (fresh_text X fresh) [k..<k + length ts]" "map declared ds = map declares ts"
    "\<forall>d \<in> set ds. open_slots X d" "length ds = length ts"
proof -
  have "map td_id ds = map (fresh_text X fresh) [k..<k + length ts] \<and> map declared ds = map declares ts \<and> (\<forall>d \<in> set ds. open_slots X d)"
    using assms
  proof (induction ts arbitrary: k ds)
    case (Cons t ts)
    then obtain d ds' where d: "proto_task X w (fresh k) t = Inr d" "group_to_proto_tasks X fresh w (Suc k) ts = Inr ds'" "ds = d # ds'"
      by (auto simp: and_then_Inr)
    then show ?case using Cons.IH [OF d(2)] proto_task_Inr [OF d(1)] proto_task_declared [OF d(1)] by (simp add: upt_conv_Cons del: upt_Suc)
  qed simp
  then show "map td_id ds = map (fresh_text X fresh) [k..<k + length ts]" "map declared ds = map declares ts"
    "\<forall>d \<in> set ds. open_slots X d" "length ds = length ts" by (auto dest: map_eq_imp_length_eq)
qed

text \<open>What the stamps leave alone.\<close>

definition task_key :: "task_definition \<Rightarrow> string \<times> input_source option option list option \<times> string \<times> routing_var_decl list" where
  "task_key d = (td_id d, td_input_sources d, declared d)"

lemma stamp_timeouts_Inr:
  "stamp_timeouts ts ds = Some (Inr ds') \<Longrightarrow> map task_key ds' = map task_key ds"
proof (induction ts ds arbitrary: ds' rule: stamp_timeouts.induct)
  case (2 t ts ds)
  show ?case
  proof (cases "pt_timeout t")
    case None
    then show ?thesis using 2(1) [OF None] 2(3) by (cases ds) (auto simp: proceed_Inr)
  next
    case (Some raw)
    then show ?thesis using 2(2) [OF Some] 2(3) by (auto simp: proceed_Inr task_key_def declared_def split: sum.splits list.splits)
  qed
qed simp

lemma stamp_timeouts_total: "length ts = length ds \<Longrightarrow> stamp_timeouts ts ds \<noteq> None"
proof (induction ts ds rule: stamp_timeouts.induct)
  case (2 t ts ds)
  then obtain d ds' where ds: "ds = d # ds'" by (cases ds) auto
  show ?case
  proof (cases "pt_timeout t")
    case None
    then show ?thesis using 2(1) [OF None] 2(3) ds by (auto simp: proceed_None)
  next
    case (Some raw)
    show ?thesis
    proof (cases "parse_duration raw")
      case (Inr n)
      then show ?thesis using 2(2) [OF Some Inr ds] 2(3) Some ds by (auto simp: proceed_None)
    qed (simp add: Some)
  qed
qed simp

lemma stamp_loop_participants_keeps:
  "map task_key (stamp_loop_participants es ds) = map task_key ds"
  by (simp add: stamp_loop_participants_def Let_def task_key_def declared_def)

lemma task_ids_texts:
  assumes "uuid_texts X" and "map td_id ds = map (be_uuid_text X) us"
  shows "task_ids X ds = Some us"
  using assms(2)
proof (induction ds arbitrary: us)
  case (Cons d ds)
  then obtain u us' where "us = u # us'" "td_id d = be_uuid_text X u" "map td_id ds = map (be_uuid_text X) us'" by (cases us) auto
  then show ?case using Cons.IH assms(1) by (simp add: uuid_texts_def)
qed simp

text \<open>After any number of groups: the tasks have the identifiers minted so far, every name and every
  member of a group stands for a task, and no signal slot is resolved.\<close>

definition built :: "'n build_externals \<Rightarrow> (nat \<Rightarrow> uuid) \<Rightarrow> 'n parsed_task list \<Rightarrow> build_state \<Rightarrow> bool" where
  "built X fresh ps st \<longleftrightarrow> map td_id (bs_tasks st) = map (fresh_text X fresh) [0..<bs_fresh st]
     \<and> map declared (bs_tasks st) = map declares ps
     \<and> (\<forall>d \<in> set (bs_tasks st). open_slots X d)
     \<and> (\<forall>(n, i) \<in> set (bs_names st). \<exists>d \<in> set (bs_tasks st). td_name d = n \<and> td_id d = be_uuid_text X i)
     \<and> (\<forall>ids \<in> set (bs_groups st). be_uuid_text X ` set ids \<subseteq> td_id ` set (bs_tasks st))"

lemma group_steps:
  assumes X: "uuid_texts X" and g: "group_to_proto_tasks X fresh w k ts = Inr ds0" and t: "stamp_timeouts ts ds0 = Some (Inr ds1)"
    and ds: "ds = stamp_loop_participants es ds1"
  shows "map td_id ds = map (fresh_text X fresh) [k..<k + length ds]" "\<forall>d \<in> set ds. open_slots X d"
    "task_ids X ds = Some (map fresh [k..<k + length ds])" "map declared ds = map declares ts"
proof -
  have key: "map task_key ds = map task_key ds0" using stamp_timeouts_Inr [OF t] stamp_loop_participants_keeps [of es ds1] by (simp add: ds)
  then have len: "length ds = length ds0" by (rule map_eq_imp_length_eq)
  have nth: "task_key (ds ! i) = task_key (ds0 ! i)" if "i < length ds" for i
    using arg_cong [OF key, of "\<lambda>xs. xs ! i"] that len by simp
  have "map td_id ds = map td_id ds0" "map declared ds = map declared ds0" using nth len by (auto simp: list_eq_iff_nth_eq task_key_def)
  then show ids: "map td_id ds = map (fresh_text X fresh) [k..<k + length ds]" and "map declared ds = map declares ts"
    using group_to_proto_tasks_Inr(1,2,4) [OF g] len by simp_all
  have "open_slots X (ds ! i)" if "i < length ds" for i
  proof -
    have "open_slots X (ds0 ! i)" using group_to_proto_tasks_Inr(3) [OF g] that len by simp
    then show ?thesis using nth [OF that] by (simp add: task_key_def open_slots_def)
  qed
  then show "\<forall>d \<in> set ds. open_slots X d" by (simp add: all_set_conv_all_nth)
  show "task_ids X ds = Some (map fresh [k..<k + length ds])" by (rule task_ids_texts [OF X]) (simp add: ids comp_def)
qed

lemma build_group_built:
  assumes X: "uuid_texts X" and st: "built X fresh ps st" and b: "build_group X fresh w g st = Some (Inr st')"
  shows "built X fresh (ps @ pgr_tasks g) st'"
proof -
  obtain ds0 ds1 where d: "group_to_proto_tasks X fresh w (bs_fresh st) (pgr_tasks g) = Inr ds0" "stamp_timeouts (pgr_tasks g) ds0 = Some (Inr ds1)"
    using b by (auto simp: build_group_def proceed_Inr)
  define ds where "ds = stamp_loop_participants (pgr_edges g) ds1"
  note G = group_steps [OF X d ds_def] and S = st [unfolded built_def]
  let ?k = "bs_fresh st" let ?ids = "map fresh [?k..<?k + length ds]"
  have st': "st' = \<lparr> bs_tasks = bs_tasks st @ ds, bs_names = rev (zip (map td_name ds) ?ids) @ bs_names st,
      bs_groups = bs_groups st @ [?ids], bs_fresh = ?k + length ds \<rparr>"
    using b d G(3) by (simp add: build_group_def proceed_def Let_def ds_def)
  have ids: "be_uuid_text X (?ids ! i) = td_id (ds ! i)" if "i < length ds" for i
    using arg_cong [OF G(1), of "\<lambda>xs. xs ! i"] that by simp
  have "\<exists>d \<in> set ds. td_name d = n \<and> td_id d = be_uuid_text X i" if "(n, i) \<in> set (zip (map td_name ds) ?ids)" for n i
    using that ids by (fastforce simp: in_set_conv_nth intro: nth_mem)
  then have "\<forall>(n, i) \<in> set (rev (zip (map td_name ds) ?ids) @ bs_names st).
      \<exists>d \<in> set (bs_tasks st @ ds). td_name d = n \<and> td_id d = be_uuid_text X i"
    using S unfolding set_append set_rev by blast
  moreover have "be_uuid_text X ` set ?ids \<subseteq> td_id ` set ds"
    using arg_cong [OF G(1), of set] by (simp add: image_image)
  then have "\<forall>ids \<in> set (bs_groups st @ [?ids]). be_uuid_text X ` set ids \<subseteq> td_id ` set (bs_tasks st @ ds)"
    using S unfolding set_append image_Un list.set by blast
  moreover have "map td_id (bs_tasks st @ ds) = map (fresh_text X fresh) [0..<?k + length ds]"
    using S G(1) by (simp add: upt_add_eq_append [of 0 ?k "length ds"])
  moreover have "\<forall>d \<in> set (bs_tasks st @ ds). open_slots X d" using S G(2) by auto
  ultimately show ?thesis using S G(4) unfolding st' built_def by simp
qed

lemma build_group_total:
  assumes X: "uuid_texts X"
  shows "build_group X fresh w g st \<noteq> None"
proof (cases "group_to_proto_tasks X fresh w (bs_fresh st) (pgr_tasks g)")
  case (Inr ds)
  have len: "length (pgr_tasks g) = length ds" using group_to_proto_tasks_Inr(4) [OF Inr] by simp
  obtain r where r: "stamp_timeouts (pgr_tasks g) ds = Some r" using stamp_timeouts_total [OF len] by blast
  show ?thesis
  proof (cases r)
    case (Inr ds1)
    with r have "stamp_timeouts (pgr_tasks g) ds = Some (Inr ds1)" by simp
    from group_steps(3) [OF X \<open>group_to_proto_tasks X fresh w (bs_fresh st) (pgr_tasks g) = Inr ds\<close> this refl, of "pgr_edges g"]
    show ?thesis using \<open>group_to_proto_tasks X fresh w (bs_fresh st) (pgr_tasks g) = Inr ds\<close> r Inr
      by (simp add: build_group_def proceed_def Let_def)
  qed (simp add: build_group_def proceed_def Inr r)
qed (simp add: build_group_def proceed_def)

lemma build_groups_built:
  "uuid_texts X \<Longrightarrow> built X fresh ps st \<Longrightarrow> build_groups X fresh w gs st = Some (Inr st')
    \<Longrightarrow> built X fresh (ps @ concat (map pgr_tasks gs)) st'"
  by (induction gs arbitrary: ps st) (fastforce simp: proceed_Inr dest: build_group_built)+

lemma build_groups_total: "uuid_texts X \<Longrightarrow> build_groups X fresh w gs st \<noteq> None"
  by (induction gs arbitrary: st) (auto simp: proceed_None build_group_total)

section \<open>Edges\<close>

text \<open>The edges have the next fresh identifiers and connect nodes of \<open>N\<close>.\<close>

definition edges_between :: "'n build_externals \<Rightarrow> (nat \<Rightarrow> uuid) \<Rightarrow> nat \<Rightarrow> string set \<Rightarrow> edge list \<Rightarrow> bool" where
  "edges_between X fresh k N es \<longleftrightarrow> map ge_id es = map (fresh_text X fresh) [k..<k + length es]
     \<and> (\<forall>e \<in> set es. set (ge_sources e) \<union> set (ge_targets e) \<subseteq> N)"

lemma edges_between_Nil [simp]: "edges_between X fresh k N []"
  by (simp add: edges_between_def)

lemma edges_between_Cons:
  "edges_between X fresh (Suc k) N es \<Longrightarrow> ge_id e = fresh_text X fresh k \<Longrightarrow> set (ge_sources e) \<union> set (ge_targets e) \<subseteq> N
    \<Longrightarrow> edges_between X fresh k N (e # es)"
  by (simp add: edges_between_def upt_conv_Cons del: upt_Suc)

lemma edges_between_append:
  "edges_between X fresh k N es \<Longrightarrow> edges_between X fresh (k + length es) N fs \<Longrightarrow> edges_between X fresh k N (es @ fs)"
  by (auto simp: edges_between_def upt_add_eq_append [of k "k + length es" "length fs"] simp flip: add.assoc)

lemma chain_edges_between: "be_uuid_text X ` set ids \<subseteq> N \<Longrightarrow> edges_between X fresh k N (chain_edges X fresh k ids)"
  by (induction X fresh k ids rule: chain_edges.induct) (auto intro!: edges_between_Cons)

lemma resolve_names_in:
  assumes "\<forall>(n, i) \<in> set names. be_uuid_text X i \<in> N" and "be_uuid_text X s \<in> N" "be_uuid_text X e \<in> N"
    and "all_checked (resolve_name X names s e) ns = Inr ys"
  shows "set ys \<subseteq> N"
proof -
  have "y \<in> N" if "resolve_name X names s e n = Inr y" for n y
    using that assms(1-3) by (auto simp: resolve_name_def split: option.splits if_splits dest: map_of_SomeD)
  then show ?thesis using assms(4) by (fastforce simp: all_checked_Inr list_all2_conv_all_nth in_set_conv_nth)
qed

lemma proto_edges_between:
  assumes "\<forall>(n, i) \<in> set names. be_uuid_text X i \<in> N" and "be_uuid_text X s \<in> N" "be_uuid_text X e \<in> N"
  shows "proto_edges X fresh names s e label k es = Inr ds \<Longrightarrow> edges_between X fresh k N ds"
proof (induction es arbitrary: k ds)
  case (Cons p es)
  then obtain d ds' where d: "proto_edge X names s e label (fresh k) p = Inr d" "proto_edges X fresh names s e label (Suc k) es = Inr ds'"
    "ds = d # ds'" by (auto simp: and_then_Inr)
  from d(1) have "ge_id d = fresh_text X fresh k" "set (ge_sources d) \<subseteq> N" "set (ge_targets d) \<subseteq> N"
    by (auto simp: proto_edge_def and_then_Inr dest!: resolve_names_in [OF assms])
  then show ?case using Cons.IH [OF d(2)] d(3) by (simp add: edges_between_Cons)
qed simp

lemma all_edges_between:
  assumes "\<forall>(n, i) \<in> set names. be_uuid_text X i \<in> N" and "be_uuid_text X s \<in> N" "be_uuid_text X e \<in> N"
    and "\<forall>(g, ids) \<in> set gs. be_uuid_text X ` set ids \<subseteq> N"
  shows "all_edges X fresh names s e label k gs = Inr es \<Longrightarrow> edges_between X fresh k N es"
  using assms(4)
proof (induction gs arbitrary: k es)
  case (Cons p gs)
  obtain g ids where p: "p = (g, ids)" by (cases p)
  with Cons.prems obtain es1 es2 where e: "(if pgr_edges g = [] then Inr (chain_edges X fresh k ids)
      else proto_edges X fresh names s e label k (pgr_edges g)) = Inr es1"
    "all_edges X fresh names s e label (k + length es1) gs = Inr es2" "es = es1 @ es2" by (auto simp: and_then_Inr)
  have "edges_between X fresh k N es1"
    using e(1) Cons.prems(2) p chain_edges_between [of X ids N fresh k] proto_edges_between [OF assms(1-3)] by (auto split: if_splits)
  then show ?case using Cons.IH [OF e(2)] Cons.prems(2) e(3) by (simp add: edges_between_append)
qed simp

end
