(* ===== verification/Builder_Properties.thy ===== *)
theory Builder_Properties
  imports Builder_Graph
begin

text \<open>
  What a definition that the builder accepts satisfies: the graph is well formed, sealed and terminable,
  every signal input names the edge that delivers its signal, and every predicate gate is decided when its
  edge is looked at.
\<close>

section \<open>Resolved signal slots\<close>

lemma bind_sum_Inr:
  assumes "Option.bind r (\<lambda>x. case x of Inl e \<Rightarrow> Some (Inl e) | Inr xs \<Rightarrow> map_option (map_sum id ((@) xs)) q) = Some (Inr rs)"
  obtains xs ys where "r = Some (Inr xs)" "q = Some (Inr ys)" "rs = xs @ ys"
proof -
  obtain x where x: "r = Some x" using assms by (cases r) auto
  obtain xs where xs: "x = Inr xs" using assms x by (cases x) auto
  obtain y where y: "q = Some y" "map_sum id ((@) xs) y = Inr rs" using assms x xs by auto
  then show ?thesis using that x xs by (cases y) auto
qed

lemma resolve_slots_sound:
  "resolve_slots parse g task k ss = Some (Inr rs) \<Longrightarrow> r \<in> set rs \<Longrightarrow>
    \<exists>i name gate e. i < length ss \<and> ss ! i = Some (Some (SignalSource name gate)) \<and> is_unresolved parse gate
      \<and> signal_edges g task name = [e] \<and> r = \<lparr> rs_task_id = task, rs_slot = k + i, rs_gate_edge_id = ge_id e \<rparr>"
proof (induction ss arbitrary: k rs)
  case (Cons s ss)
  obtain xs ys where x: "resolve_slot parse g task k s = Some (Inr xs)" "resolve_slots parse g task (Suc k) ss = Some (Inr ys)" "rs = xs @ ys"
    using Cons.prems(1) unfolding resolve_slots.simps by (rule bind_sum_Inr)
  show ?case
  proof (cases "r \<in> set ys")
    case True
    then obtain i name gate e where "i < length ss" "ss ! i = Some (Some (SignalSource name gate))" "is_unresolved parse gate"
      "signal_edges g task name = [e]" "r = \<lparr> rs_task_id = task, rs_slot = Suc k + i, rs_gate_edge_id = ge_id e \<rparr>"
      using Cons.IH [OF x(2)] by blast
    then show ?thesis by (intro exI [of _ "Suc i"] exI [of _ name] exI [of _ gate] exI [of _ e]) simp
  next
    case False
    then have "r \<in> set xs" using Cons.prems(2) x(3) by simp
    then obtain name gate e where "s = Some (Some (SignalSource name gate))" "is_unresolved parse gate" "signal_edges g task name = [e]"
      "r = \<lparr> rs_task_id = task, rs_slot = k, rs_gate_edge_id = ge_id e \<rparr>"
      using x(1) by (auto simp: resolve_slot_eq slot_result_def split: option.splits input_source.splits if_splits list.splits)
    then show ?thesis by (intro exI [of _ 0] exI [of _ name] exI [of _ gate] exI [of _ e]) simp
  qed
qed simp

lemma resolve_sources_sound:
  assumes "resolve_signal_input_sources parse ts g = Some (Inr rs)" and "r \<in> set rs"
  shows "\<exists>t \<in> set ts. \<exists>name e. open_slot parse t (rs_slot r) name \<and> rs_task_id r = td_id t
    \<and> signal_edges g (td_id t) name = [e] \<and> rs_gate_edge_id r = ge_id e"
  using assms
proof (induction ts arbitrary: rs)
  case (Cons t ts)
  show ?case
  proof (cases "td_input_sources t")
    case None
    then show ?thesis using Cons by auto
  next
    case (Some ss)
    obtain xs ys where x: "resolve_slots parse g (td_id t) 0 ss = Some (Inr xs)"
      "resolve_signal_input_sources parse ts g = Some (Inr ys)" "rs = xs @ ys"
      using Cons.prems(1) unfolding resolve_signal_input_sources.simps Some option.case by (rule bind_sum_Inr)
    show ?thesis
    proof (cases "r \<in> set ys")
      case True
      then show ?thesis using Cons.IH [OF x(2)] by auto
    next
      case False
      then have "r \<in> set xs" using Cons.prems(2) x(3) by simp
      from resolve_slots_sound [OF x(1) this] Some show ?thesis by (auto simp: open_slot_def)
    qed
  qed
qed simp

definition patch_one :: "resolved_signal_source \<Rightarrow> task_definition \<Rightarrow> task_definition" where
  "patch_one r t = (if td_id t = rs_task_id r then t\<lparr> td_input_sources := map_option (patch_slots r) (td_input_sources t) \<rparr> else t)"

lemma patch_one_id [simp]: "td_id (patch_one r t) = td_id t"
  by (simp add: patch_one_def)

lemma patch_task_map: "distinct (map td_id ts) \<Longrightarrow> patch_task r ts = map (patch_one r) ts"
proof (induction ts)
  case (Cons t ts)
  show ?case
  proof (cases "td_id t = rs_task_id r")
    case True
    then have "map (patch_one r) ts = ts" using Cons.prems by (intro map_idI) (force simp: patch_one_def)
    then show ?thesis using True by (simp add: patch_one_def [of r t])
  next
    case False
    then show ?thesis using Cons by (simp add: patch_one_def [of r t])
  qed
qed simp

lemma fold_patch_task: "distinct (map td_id ts) \<Longrightarrow> fold patch_task rs ts = map (fold patch_one rs) ts"
proof (induction rs arbitrary: ts)
  case (Cons r rs)
  have "distinct (map td_id (map (patch_one r) ts))" using Cons.prems by (simp add: comp_def)
  then show ?case using Cons.IH [of "map (patch_one r) ts"] Cons.prems by (simp add: patch_task_map)
qed simp

lemma fold_patch_one:
  "td_id (fold patch_one rs t) = td_id t"
  "td_outputs (fold patch_one rs t) = td_outputs t"
  "td_input_sources (fold patch_one rs t)
    = map_option (fold patch_slots (filter (\<lambda>r. rs_task_id r = td_id t) rs)) (td_input_sources t)"
  by (induction rs arbitrary: t) (auto simp: patch_one_def option.map_comp comp_def option.map_id)

lemma patch_slots_nth:
  assumes "patch_slots r slots ! i = Some (Some (SignalSource name gid))"
  shows "\<exists>gid0. slots ! i = Some (Some (SignalSource name gid0)) \<and> (if rs_slot r = i \<and> i < length slots then gid = rs_gate_edge_id r else gid = gid0)"
  using assms by (cases "rs_slot r = i") (auto simp: patch_slots_def split: if_splits option.splits input_source.splits)

lemma patch_slots_length [simp]: "length (patch_slots r slots) = length slots"
  by (auto simp: patch_slots_def split: option.splits input_source.splits)

lemma fold_patch_slots_nth:
  assumes "fold patch_slots rs slots ! i = Some (Some (SignalSource name gid))" and "i < length slots"
  shows "\<exists>gid0. slots ! i = Some (Some (SignalSource name gid0))
    \<and> (gid = gid0 \<and> (\<forall>r \<in> set rs. rs_slot r \<noteq> i) \<or> (\<exists>r \<in> set rs. rs_slot r = i \<and> gid = rs_gate_edge_id r))"
  using assms
proof (induction rs arbitrary: slots)
  case (Cons r rs)
  obtain gid1 where g1: "patch_slots r slots ! i = Some (Some (SignalSource name gid1))"
    "gid = gid1 \<and> (\<forall>r \<in> set rs. rs_slot r \<noteq> i) \<or> (\<exists>r \<in> set rs. rs_slot r = i \<and> gid = rs_gate_edge_id r)"
    using Cons.IH [of "patch_slots r slots"] Cons.prems by auto
  obtain gid0 where g0: "slots ! i = Some (Some (SignalSource name gid0))" "if rs_slot r = i then gid1 = rs_gate_edge_id r else gid1 = gid0"
    using patch_slots_nth [OF g1(1)] Cons.prems(2) by auto
  then show ?case using g1(2) by (auto split: if_splits)
qed simp

text \<open>A signal slot of a task names the only edge that carries its signal and dominates the task.\<close>

definition signals_bound :: "task_graph \<Rightarrow> task_definition \<Rightarrow> bool" where
  "signals_bound g t \<longleftrightarrow> (\<forall>slots name gid. td_input_sources t = Some slots \<longrightarrow> Some (Some (SignalSource name gid)) \<in> set slots \<longrightarrow>
     (\<exists>e \<in> set (tg_edges g). ge_id e = gid \<and> carries_signal name e \<and> edge_dominates g gid (td_id t)
        \<and> (\<forall>e' \<in> set (tg_edges g). carries_signal name e' \<and> edge_dominates g (ge_id e') (td_id t) \<longrightarrow> ge_id e' = gid)))"

lemma signal_edges_single:
  assumes "signal_edges g task name = [e]"
  shows "e \<in> set (tg_edges g) \<and> carries_signal name e \<and> edge_dominates g (ge_id e) task
    \<and> (\<forall>e' \<in> set (tg_edges g). carries_signal name e' \<and> edge_dominates g (ge_id e') task \<longrightarrow> ge_id e' = ge_id e)"
proof -
  have "e' \<in> set (tg_edges g) \<and> carries_signal name e' \<and> edge_dominates g (ge_id e') task \<longleftrightarrow> e' = e" for e'
    using arg_cong [OF assms, of set] by (auto simp: signal_edges_def set_eq_iff)
  then show ?thesis by metis
qed

lemma resolved_slot:
  assumes rs: "resolve_signal_input_sources parse ts g = Some (Inr rs)" and d: "distinct (map td_id ts)"
    and t: "t \<in> set ts" and op: "open_slot parse t i name"
  shows "\<exists>r \<in> set rs. rs_task_id r = td_id t \<and> rs_slot r = i"
    "r \<in> set rs \<Longrightarrow> rs_task_id r = td_id t \<Longrightarrow> rs_slot r = i \<Longrightarrow> \<exists>e. signal_edges g (td_id t) name = [e] \<and> rs_gate_edge_id r = ge_id e"
proof -
  have "\<forall>t \<in> set ts. \<forall>i name. open_slot parse t i name \<longrightarrow> (\<exists>e. signal_edges g (td_id t) name = [e]
      \<and> \<lparr> rs_task_id = td_id t, rs_slot = i, rs_gate_edge_id = ge_id e \<rparr> \<in> set rs)"
    using resolve_sources_correct [of parse ts g, unfolded rs] by simp
  with t op obtain e :: edge where "\<lparr> rs_task_id = td_id t, rs_slot = i, rs_gate_edge_id = ge_id e \<rparr> \<in> set rs" by blast
  then show "\<exists>r \<in> set rs. rs_task_id r = td_id t \<and> rs_slot r = i" by (rule rev_bexI) simp
next
  assume r: "r \<in> set rs" "rs_task_id r = td_id t" "rs_slot r = i"
  obtain t2 name2 e where t2: "t2 \<in> set ts" "open_slot parse t2 i name2" "td_id t2 = td_id t"
    "signal_edges g (td_id t2) name2 = [e]" "rs_gate_edge_id r = ge_id e" using resolve_sources_sound [OF rs r(1)] r by auto
  have "t2 = t" using d t2(1,3) t by (auto simp: distinct_map dest: inj_onD)
  moreover have "name2 = name" using t2(2) op \<open>t2 = t\<close> by (auto simp: open_slot_def)
  ultimately show "\<exists>e. signal_edges g (td_id t) name = [e] \<and> rs_gate_edge_id r = ge_id e" using t2(4,5) by blast
qed

lemma fold_patch_slots_length [simp]: "length (fold patch_slots rs slots) = length slots"
  by (induction rs arbitrary: slots) simp_all

lemma patched_task_bound:
  assumes X: "uuid_texts X" and d: "distinct (map td_id ts)" and t: "t \<in> set ts" and o: "open_slots X t"
    and rs: "resolve_signal_input_sources (be_parse_uuid X) ts g = Some (Inr rs)"
  shows "signals_bound g (fold patch_one rs t)"
  unfolding signals_bound_def
proof (intro allI impI)
  fix slots name gid
  assume s: "td_input_sources (fold patch_one rs t) = Some slots" and m: "Some (Some (SignalSource name gid)) \<in> set slots"
  let ?rs = "filter (\<lambda>r. rs_task_id r = td_id t) rs"
  obtain slots0 where s0: "td_input_sources t = Some slots0" "slots = fold patch_slots ?rs slots0" using s by (auto simp: fold_patch_one)
  obtain i where i: "i < length slots0" "fold patch_slots ?rs slots0 ! i = Some (Some (SignalSource name gid))"
    using m by (auto simp: s0(2) in_set_conv_nth)
  obtain gid0 where g0: "slots0 ! i = Some (Some (SignalSource name gid0))"
    "gid = gid0 \<and> (\<forall>r \<in> set ?rs. rs_slot r \<noteq> i) \<or> (\<exists>r \<in> set ?rs. rs_slot r = i \<and> gid = rs_gate_edge_id r)"
    using fold_patch_slots_nth [OF i(2,1)] by blast
  have "Some (Some (SignalSource name gid0)) \<in> set slots0" using g0(1) i(1) nth_mem by metis
  then have "gid0 = be_uuid_text X 0" using o s0(1) by (auto simp: open_slots_def)
  then have "open_slot (be_parse_uuid X) t i name" using g0(1) i(1) s0(1) X by (auto simp: open_slot_def is_unresolved_def uuid_texts_def)
  note R = resolved_slot [OF rs d t this]
  obtain r where "r \<in> set rs" "rs_task_id r = td_id t" "rs_slot r = i" "gid = rs_gate_edge_id r" using g0(2) R(1) by auto
  with R(2) obtain e where e: "signal_edges g (td_id t) name = [e]" "gid = ge_id e" by auto
  show "\<exists>e \<in> set (tg_edges g). ge_id e = gid \<and> carries_signal name e \<and> edge_dominates g gid (td_id (fold patch_one rs t))
      \<and> (\<forall>e' \<in> set (tg_edges g). carries_signal name e' \<and> edge_dominates g (ge_id e') (td_id (fold patch_one rs t)) \<longrightarrow> ge_id e' = gid)"
    using signal_edges_single [OF e(1)] by (intro bexI [of _ e]) (simp_all add: fold_patch_one e(2))
qed

lemma apply_signal_resolution_bound:
  assumes X: "uuid_texts X" and d: "distinct (map td_id ts)" and o: "\<forall>t \<in> set ts. open_slots X t"
    and a: "apply_signal_resolution X g ts = Some (Inr ts')"
  shows "map td_id ts' = map td_id ts" "\<forall>t \<in> set ts'. signals_bound g t"
proof -
  obtain rs where rs: "resolve_signal_input_sources (be_parse_uuid X) ts g = Some (Inr rs)" "ts' = map (fold patch_one rs) ts"
    using a fold_patch_task [OF d] by (auto simp: apply_signal_resolution_def split: option.splits sum.splits)
  show "map td_id ts' = map td_id ts" by (simp add: rs(2) fold_patch_one comp_def)
  show "\<forall>t \<in> set ts'. signals_bound g t" using patched_task_bound [OF X d _ _ rs(1)] o by (simp add: rs(2))
qed

lemma apply_signal_resolution_length:
  assumes "apply_signal_resolution X g ts = Some (Inr ts')"
  shows "length ts' = length ts"
proof -
  have "length (patch_task r ts) = length ts" for r ts by (induction r ts rule: patch_task.induct) simp_all
  then have "length (fold patch_task rs ts) = length ts" for rs ts by (induction rs arbitrary: ts) simp_all
  then show ?thesis using assms by (auto simp: apply_signal_resolution_def split: option.splits sum.splits)
qed

lemma apply_signal_resolution_declared:
  assumes "distinct (map td_id ts)" and "apply_signal_resolution X g ts = Some (Inr ts')"
  shows "map declared ts' = map declared ts"
proof -
  have "declared (fold patch_one rs t) = declared t" for rs t
    by (induction rs arbitrary: t) (simp_all add: declared_def patch_one_def)
  then show ?thesis
    using assms(2) fold_patch_task [OF assms(1)] by (auto simp: apply_signal_resolution_def split: option.splits sum.splits)
qed

section \<open>Predicate gates\<close>

text \<open>A gate on a routing variable is decided at a source when the producer dominates it, or when the
  variable is the loop control and the source is in the producer's loop body.\<close>

definition decided_at :: "task_graph \<Rightarrow> string \<Rightarrow> string \<Rightarrow> string \<Rightarrow> bool" where
  "decided_at g var producer src \<longleftrightarrow> task_dominates g producer src \<or> var = ''loop_control'' \<and> cyclic g producer \<and> src \<in> loop_body_of g producer"

lemma check_source_decided:
  assumes b: "bodies_of g bodies" and "check_source g (if var = ''loop_control'' then find (\<lambda>b. p \<in> b) bodies else None) var name p src = Some (Inr ())"
  shows "decided_at g var p src"
proof -
  let ?body = "if var = ''loop_control'' then find (\<lambda>b. p \<in> b) bodies else None"
  show ?thesis
  proof (cases "case ?body of Some c \<Rightarrow> src \<in> c | None \<Rightarrow> False")
    case True
    then show ?thesis using find_body [OF b, of p] by (auto simp: decided_at_def split: if_splits)
  next
    case False
    then have "validate_task_dominates g p src = Some (Inr ())"
      using assms(2) by (auto simp: check_source_def split: option.splits sum.splits if_splits)
    then show ?thesis by (simp add: validate_task_dominates_iff decided_at_def)
  qed
qed

lemma predicate_gates_decided:
  assumes v: "validate_predicate_gate_dominators_proto X w names g = Some (Inr ())"
    and e: "e \<in> set (tg_edges g)" and ph: "Some (PredicateHolds ph) \<in> set (ge_gates e)"
  shows "\<exists>n i. (ph_routing_var ph, n) \<in> set (routing_owners w) \<and> (n, i) \<in> set names
    \<and> (\<forall>src \<in> set (ge_sources e). decided_at g (ph_routing_var ph) (be_uuid_text X i) src)"
proof -
  obtain bodies where b: "loop_sccs g = Some bodies" "bodies_of g bodies" by (rule loop_sccs_bodies)
  have c: "check_gate X (rev (routing_owners w)) names g bodies e (Some (PredicateHolds ph)) = Some (Inr ())"
    using v e ph by (simp add: validate_predicate_gate_dominators_proto_def b(1) all_ok_Inr)
  then obtain n i where n: "map_of (rev (routing_owners w)) (ph_routing_var ph) = Some n" "map_of names n = Some i"
    by (auto simp: check_gate_def Let_def split: option.splits)
  with c have "\<forall>src \<in> set (ge_sources e). decided_at g (ph_routing_var ph) (be_uuid_text X i) src"
    by (simp add: check_gate_def Let_def all_ok_Inr) (blast intro: check_source_decided [OF b(2)])
  moreover have "(ph_routing_var ph, n) \<in> set (routing_owners w)" "(n, i) \<in> set names" using map_of_SomeD [OF n(1)] map_of_SomeD [OF n(2)] by simp_all
  ultimately show ?thesis by blast
qed

section \<open>No panic\<close>

lemma apply_signal_resolution_total: "apply_signal_resolution X g ts \<noteq> None"
proof -
  obtain r where "resolve_signal_input_sources (be_parse_uuid X) ts g = Some r" using resolve_sources_correct by blast
  then show ?thesis by (cases r) (simp_all add: apply_signal_resolution_def)
qed

lemma predicate_gates_total: "validate_predicate_gate_dominators_proto X w names g \<noteq> None"
proof -
  obtain bodies where b: "loop_sccs g = Some bodies" by (rule loop_sccs_bodies)
  have s: "check_source g body var n p src \<noteq> None" for body var n p src
    using validate_task_dominates_total [of g p src] by (auto simp: check_source_def split: sum.splits option.splits)
  have "check_gate X producers names g bodies e gt \<noteq> None" for producers e gt
    using all_ok_total [OF s] by (auto simp: check_gate_def Let_def split: option.splits gate_kind.splits)
  then show ?thesis unfolding validate_predicate_gate_dominators_proto_def b option.case by (intro all_ok_total)
qed

lemma seal_total: "seal fresh p \<noteq> None"
  using seal_effect [of fresh p] by (metis option.distinct(1))

lemma terminability_total: "validate_loop_terminability g \<noteq> None"
  by (rule loop_sccs_bodies [of g]) (simp add: validate_loop_terminability_def)

lemma close_definition_total: "close_definition X fresh w names k d \<noteq> None"
proof -
  obtain model where m: "seal (\<lambda>j. be_uuid_text X (fresh (k + j))) (from_definition d) = Some model" using seal_total by blast
  obtain r where r: "validate_loop_terminability (pg_graph model) = Some r" using terminability_total by blast
  have "(case r of Inl v \<Rightarrow> Some (Inl (NonTerminableLoop (pw_name w) v)) | Inr u \<Rightarrow> proceed (Some (build_trigger X w tasks)) (\<lambda>t. Some (Inr (f t)))) \<noteq> None"
    for tasks and f :: "trigger_kind option \<Rightarrow> workflow_definition" by (cases r) (simp_all add: proceed_None)
  then show ?thesis
    by (auto simp: close_definition_def m Let_def proceed_None r apply_signal_resolution_total predicate_gates_total simp del: not_None_eq)
qed

section \<open>Accepted definitions\<close>

lemma close_definition_Inr:
  assumes c: "close_definition X fresh w names k d = Some (Inr d')" and g: "wd_task_graph d = Some g"
  obtains es tasks trigger where
    "map ge_id es = map (fresh_text X fresh) [k..<k + length es]"
    "\<forall>e \<in> set es. \<exists>t \<in> td_id ` set (wd_tasks d). seal_edge (tg_start g) t e \<or> seal_edge t (tg_end g) e"
    "\<forall>t \<in> set (wd_tasks d). entered (extended g es) (td_id t) \<and> exited (extended g es) (td_id t)"
    "apply_signal_resolution X (extended g es) (wd_tasks d) = Some (Inr tasks)"
    "validate_predicate_gate_dominators_proto X w names (extended g es) = Some (Inr ())"
    "validate_loop_terminability (extended g es) = Some (Inr ())"
    "d' = d\<lparr> wd_tasks := tasks, wd_task_graph := Some (extended g es), wd_captures := map to_proto_capture (pw_captures w), wd_trigger := Some trigger \<rparr>"
proof -
  let ?p = "from_definition d" and ?f = "\<lambda>j. be_uuid_text X (fresh (k + j))"
  have p: "pg_graph ?p = g" "set (pg_task_ids ?p) = td_id ` set (wd_tasks d)" using g by (simp_all add: from_definition_def)
  obtain es where s: "seal ?f ?p = Some (?p\<lparr> pg_graph := extended g es \<rparr>)"
    and e: "\<forall>e \<in> set es. \<exists>t \<in> td_id ` set (wd_tasks d). seal_edge (tg_start g) t e \<and> \<not> entered g t \<or> seal_edge t (tg_end g) e \<and> \<not> exited g t"
    and t: "\<forall>t \<in> td_id ` set (wd_tasks d). entered (extended g es) t \<and> exited (extended g es) t" using seal_effect [of ?f ?p] unfolding p by blast
  have "map ge_id es = map ?f [0..<length es]" using seal_ids [of ?f ?p es] s p(1) by simp
  moreover have "[k..<k + length es] = map (\<lambda>j. k + j) [0..<length es]" using map_add_upt [of k "length es"] by (simp add: add.commute)
  ultimately have ids: "map ge_id es = map (fresh_text X fresh) [k..<k + length es]" by simp
  have edges: "\<forall>e \<in> set es. \<exists>t \<in> td_id ` set (wd_tasks d). seal_edge (tg_start g) t e \<or> seal_edge t (tg_end g) e" using e by blast
  have closed: "\<forall>t \<in> set (wd_tasks d). entered (extended g es) (td_id t) \<and> exited (extended g es) (td_id t)" using t by blast
  obtain tasks u where a: "apply_signal_resolution X (extended g es) (wd_tasks d) = Some (Inr tasks)"
    "validate_predicate_gate_dominators_proto X w names (extended g es) = Some (Inr u)"
    using c s by (auto simp: close_definition_def Let_def proceed_Inr)
  obtain trigger where b: "validate_loop_terminability (extended g es) = Some (Inr ())"
    "d' = d\<lparr> wd_tasks := tasks, wd_task_graph := Some (extended g es), wd_captures := map to_proto_capture (pw_captures w), wd_trigger := Some trigger \<rparr>"
    using c s a by (auto simp: close_definition_def Let_def proceed_Inr split: option.splits sum.splits)
  show ?thesis by (rule that [OF ids edges closed a(1) _ b]) (use a(2) in simp)
qed

lemma built_texts:
  assumes "built X fresh ps st"
  shows "(m, i) \<in> set (bs_names st) \<Longrightarrow> be_uuid_text X i \<in> td_id ` set (bs_tasks st)"
    "ids \<in> set (bs_groups st) \<Longrightarrow> be_uuid_text X ` set ids \<subseteq> td_id ` set (bs_tasks st)"
proof -
  assume "(m, i) \<in> set (bs_names st)"
  then obtain d where "d \<in> set (bs_tasks st)" "td_id d = be_uuid_text X i" using assms unfolding built_def by blast
  then show "be_uuid_text X i \<in> td_id ` set (bs_tasks st)" by (metis imageI)
next
  show "ids \<in> set (bs_groups st) \<Longrightarrow> be_uuid_text X ` set ids \<subseteq> td_id ` set (bs_tasks st)" using assms unfolding built_def by blast
qed

lemma unsealed_graph_Inr:
  assumes b: "built X fresh ps st" and u: "unsealed_graph X fresh w st = Inr (g, k)"
  shows "map gn_id (tg_nodes g) = tg_start g # tg_end g # map td_id (bs_tasks st)"
    "map gn_id (tg_nodes g) = map (fresh_text X fresh) (bs_fresh st # Suc (bs_fresh st) # [0..<bs_fresh st])"
    "edges_between X fresh (bs_fresh st + 2) (set (map gn_id (tg_nodes g))) (tg_edges g)" "k = bs_fresh st + 2 + length (tg_edges g)"
proof -
  let ?n = "bs_fresh st"
  obtain es where es: "all_edges X fresh (bs_names st) (fresh ?n) (fresh (?n + 1)) (pw_name w) (?n + 2) (zip (pw_tasks w) (bs_groups st)) = Inr es"
    "g = \<lparr> tg_nodes = graph_nodes X (fresh ?n) (fresh (?n + 1)) (bs_tasks st), tg_edges = es, tg_start = fresh_text X fresh ?n, tg_end = fresh_text X fresh (?n + 1) \<rparr>"
    "k = ?n + 2 + length es" using u by (auto simp: unsealed_graph_def Let_def and_then_Inr)
  have g: "tg_start g = fresh_text X fresh ?n" "tg_end g = fresh_text X fresh (Suc ?n)" "tg_edges g = es" by (simp_all add: es(2))
  show n: "map gn_id (tg_nodes g) = tg_start g # tg_end g # map td_id (bs_tasks st)" by (simp add: es(2) graph_nodes_def comp_def)
  show "map gn_id (tg_nodes g) = map (fresh_text X fresh) (?n # Suc ?n # [0..<?n])" unfolding n g using b by (simp add: built_def)
  show "k = ?n + 2 + length (tg_edges g)" using es(3) g(3) by simp
  let ?N = "set (map gn_id (tg_nodes g))"
  have N: "fresh_text X fresh ?n \<in> ?N" "fresh_text X fresh (?n + 1) \<in> ?N" "td_id ` set (bs_tasks st) \<subseteq> ?N" unfolding n g by auto
  have "\<forall>(m, i) \<in> set (bs_names st). be_uuid_text X i \<in> ?N" using built_texts(1) [OF b] N(3) by blast
  moreover have "\<forall>(p, ids) \<in> set (zip (pw_tasks w) (bs_groups st)). be_uuid_text X ` set ids \<subseteq> ?N"
  proof (intro ballI, clarify)
    fix p ids i assume "(p, ids) \<in> set (zip (pw_tasks w) (bs_groups st))" "i \<in> set ids"
    then have "be_uuid_text X i \<in> td_id ` set (bs_tasks st)" using built_texts(2) [OF b, of ids] set_zip_rightD [of p ids] by blast
    then show "be_uuid_text X i \<in> ?N" using N(3) by blast
  qed
  ultimately show "edges_between X fresh (?n + 2) ?N (tg_edges g)" unfolding g(3) by (rule all_edges_between [OF _ N(1,2) _ es(1)])
qed

lemma parse_Inr:
  assumes X: "uuid_texts X" and p: "parse_workflow_from_json_for_tenant X fresh json tenant ns0 = Some (Inr d)"
  obtains w ns i timeout st g k d0 where "admit_workflow X json tenant ns0 = Inr (w, ns, i, timeout)" "built X fresh (all_tasks w) st"
    "unsealed_graph X fresh w st = Inr (g, k)" "close_definition X fresh w (bs_names st) k d0 = Some (Inr d)"
    "wd_task_graph d0 = Some g" "wd_tasks d0 = bs_tasks st" "wd_tags d0 = pw_tags w" "wd_id d0 = be_uuid_text X i"
    "wd_namespace d0 = ns" "wd_slug d0 = pw_slug w"
proof -
  let ?st0 = "\<lparr> bs_tasks = [], bs_names = [], bs_groups = [], bs_fresh = 0 \<rparr>"
  obtain w ns i timeout st g k where a: "admit_workflow X json tenant ns0 = Inr (w, ns, i, timeout)"
    "build_groups X fresh i (pw_tasks w) ?st0 = Some (Inr st)" "unsealed_graph X fresh w st = Inr (g, k)"
    and c: "close_definition X fresh w (bs_names st) k
       \<lparr> wd_id = be_uuid_text X i, wd_tenant_id = be_uuid_text X tenant, wd_namespace = ns, wd_slug = pw_slug w,
         wd_name = pw_name w, wd_version = 0, wd_tasks = bs_tasks st, wd_task_graph = Some g, wd_trigger = None,
         wd_status = WORKFLOW_STATUS_INACTIVE, wd_captures = [], wd_timeout_secs = timeout, wd_tags = pw_tags w \<rparr> = Some (Inr d)"
    using p by (auto simp: parse_workflow_from_json_for_tenant_def proceed_Inr)
  have "built X fresh ([] @ concat (map pgr_tasks (pw_tasks w))) st"
    by (rule build_groups_built [OF X _ a(2)]) (simp add: built_def)
  then show ?thesis using that [OF a(1) _ a(3) c] by (simp add: all_tasks_def)
qed

text \<open>How many identifiers of version 4 a definition took.\<close>

definition minted :: "workflow_definition \<Rightarrow> nat" where
  "minted d = length (wd_tasks d) + 2 + (case wd_task_graph d of Some g \<Rightarrow> length (tg_edges g) | None \<Rightarrow> 0)"

definition well_formed_graph :: "task_definition list \<Rightarrow> task_graph \<Rightarrow> bool" where
  "well_formed_graph tasks g \<longleftrightarrow> map gn_id (tg_nodes g) = tg_start g # tg_end g # map td_id tasks
     \<and> distinct (map gn_id (tg_nodes g)) \<and> distinct (map ge_id (tg_edges g))
     \<and> (\<forall>e \<in> set (tg_edges g). set (ge_sources e) \<union> set (ge_targets e) \<subseteq> set (map gn_id (tg_nodes g)))
     \<and> (\<forall>t \<in> set tasks. entered g (td_id t) \<and> exited g (td_id t))
     \<and> (\<forall>v. cyclic g v \<longrightarrow> terminable g (loop_body_of g v))"

lemma edges_between_distinct:
  assumes "uuid_texts X" and "v4_supply fresh n" and "edges_between X fresh k N es" and "k + length es \<le> n"
  shows "distinct (map ge_id es)"
proof -
  have "set [k..<k + length es] \<subseteq> {..<n}" using assms(4) by auto
  then have "distinct (map (fresh_text X fresh) [k..<k + length es])" by (rule fresh_text_distinct [OF assms(1,2) distinct_upt])
  then show ?thesis using assms(3) by (simp add: edges_between_def)
qed

lemma seal_edges_between:
  assumes "map ge_id es = map (fresh_text X fresh) [k..<k + length es]" and "tg_start g \<in> N" "tg_end g \<in> N" "T \<subseteq> N"
    and "\<forall>e \<in> set es. \<exists>t \<in> T. seal_edge (tg_start g) t e \<or> seal_edge t (tg_end g) e"
  shows "edges_between X fresh k N es"
proof -
  have "set (ge_sources e) \<union> set (ge_targets e) \<subseteq> N" if "e \<in> set es" for e
    using assms(2-5) that unfolding seal_edge_def by fastforce
  then show ?thesis using assms(1) by (simp add: edges_between_def)
qed

lemma terminability_sound:
  assumes "validate_loop_terminability g = Some (Inr ())" and "cyclic g v"
  shows "terminable g (loop_body_of g v)"
proof -
  obtain bodies where b: "loop_sccs g = Some bodies" "bodies_of g bodies" by (rule loop_sccs_bodies)
  then have "check_bodies g bodies = Inr ()" using assms(1) by (simp add: validate_loop_terminability_def)
  then have "\<forall>c \<in> set bodies. terminable g c" using check_bodies_correct [where g = g and bs = bodies] by simp
  then show ?thesis using b(2) assms(2) unfolding bodies_of_def by blast
qed

lemma built_distinct:
  assumes X: "uuid_texts X" and b: "built X fresh ps st" and u: "unsealed_graph X fresh w st = Inr (g, k)" and f: "v4_supply fresh n" "bs_fresh st + 2 \<le> n"
  shows "distinct (map gn_id (tg_nodes g))" "distinct (map td_id (bs_tasks st))"
proof -
  show d: "distinct (map gn_id (tg_nodes g))" unfolding unsealed_graph_Inr(2) [OF b u]
    by (rule fresh_text_distinct [OF X f(1)]) (use f(2) in auto)
  show "distinct (map td_id (bs_tasks st))" using d unfolding unsealed_graph_Inr(1) [OF b u] by simp
qed

lemma sealed_well_formed:
  assumes X: "uuid_texts X" and b: "built X fresh ps st" and u: "unsealed_graph X fresh w st = Inr (g, k)"
    and f: "v4_supply fresh (bs_fresh st + 2 + length (tg_edges g @ es))"
    and ids: "map ge_id es = map (fresh_text X fresh) [k..<k + length es]"
    and se: "\<forall>e \<in> set es. \<exists>t \<in> td_id ` set (bs_tasks st). seal_edge (tg_start g) t e \<or> seal_edge t (tg_end g) e"
    and cl: "\<forall>t \<in> set (bs_tasks st). entered (extended g es) (td_id t) \<and> exited (extended g es) (td_id t)"
    and te: "validate_loop_terminability (extended g es) = Some (Inr ())" and ts: "map td_id tasks = map td_id (bs_tasks st)"
  shows "well_formed_graph tasks (extended g es)"
proof -
  let ?g = "extended g es" and ?N = "set (map gn_id (tg_nodes g))"
  note U = unsealed_graph_Inr [OF b u]
  have nodes: "tg_nodes ?g = tg_nodes g" by (simp add: extended_def)
  have N: "tg_start g \<in> ?N" "tg_end g \<in> ?N" "td_id ` set (bs_tasks st) \<subseteq> ?N" unfolding U(1) by auto
  have "edges_between X fresh k ?N es" by (rule seal_edges_between [OF ids N se])
  then have eb: "edges_between X fresh (bs_fresh st + 2) ?N (tg_edges ?g)" using edges_between_append [OF U(3)] U(4) by simp
  have "distinct (map gn_id (tg_nodes ?g))" unfolding nodes by (rule built_distinct [OF X b u f]) simp
  moreover have "distinct (map ge_id (tg_edges ?g))" by (rule edges_between_distinct [OF X f eb]) simp
  moreover have "\<forall>e \<in> set (tg_edges ?g). set (ge_sources e) \<union> set (ge_targets e) \<subseteq> ?N" using eb unfolding edges_between_def by (rule conjunct2)
  moreover have "td_id ` set tasks = td_id ` set (bs_tasks st)" using arg_cong [OF ts, of set] by simp
  then have "\<forall>t \<in> set tasks. entered ?g (td_id t) \<and> exited ?g (td_id t)" using cl by (metis imageE imageI)
  moreover have "map gn_id (tg_nodes ?g) = tg_start ?g # tg_end ?g # map td_id tasks" using U(1) ts nodes by simp
  ultimately show ?thesis using terminability_sound [OF te] unfolding well_formed_graph_def nodes by blast
qed

text \<open>What an accepted definition is made of.\<close>

lemma accepted_parts:
  assumes X: "uuid_texts X" and p: "parse_workflow_from_json_for_tenant X fresh json tenant ns0 = Some (Inr d)"
    and f: "v4_supply fresh (minted d)"
  obtains g w st where "wd_task_graph d = Some g" "well_formed_graph (wd_tasks d) g" "\<forall>t \<in> set (wd_tasks d). signals_bound g t"
    "built X fresh (all_tasks w) st" "map td_id (wd_tasks d) = map td_id (bs_tasks st)" "map declared (wd_tasks d) = map declared (bs_tasks st)"
    "validate_predicate_gate_dominators_proto X w (bs_names st) g = Some (Inr ())"
proof -
  obtain w st g0 k d0 where b: "built X fresh (all_tasks w) st" and u: "unsealed_graph X fresh w st = Inr (g0, k)"
    and c: "close_definition X fresh w (bs_names st) k d0 = Some (Inr d)" and d0: "wd_task_graph d0 = Some g0" "wd_tasks d0 = bs_tasks st"
    using parse_Inr [OF X p] by metis
  obtain es tasks trigger where ids: "map ge_id es = map (fresh_text X fresh) [k..<k + length es]"
    and se: "\<forall>e \<in> set es. \<exists>t \<in> td_id ` set (wd_tasks d0). seal_edge (tg_start g0) t e \<or> seal_edge t (tg_end g0) e"
    and cl: "\<forall>t \<in> set (wd_tasks d0). entered (extended g0 es) (td_id t) \<and> exited (extended g0 es) (td_id t)"
    and ap: "apply_signal_resolution X (extended g0 es) (wd_tasks d0) = Some (Inr tasks)"
    and pg: "validate_predicate_gate_dominators_proto X w (bs_names st) (extended g0 es) = Some (Inr ())"
    and te: "validate_loop_terminability (extended g0 es) = Some (Inr ())"
    and d: "d = d0\<lparr> wd_tasks := tasks, wd_task_graph := Some (extended g0 es), wd_captures := map to_proto_capture (pw_captures w), wd_trigger := Some trigger \<rparr>"
    by (rule close_definition_Inr [OF c d0(1)])
  have bt: "map td_id (bs_tasks st) = map (fresh_text X fresh) [0..<bs_fresh st]" "\<forall>t \<in> set (bs_tasks st). open_slots X t"
    using b by (simp_all add: built_def)
  have "length tasks = bs_fresh st" using apply_signal_resolution_length [OF ap] d0(2) map_eq_imp_length_eq [OF bt(1)] by simp
  then have f': "v4_supply fresh (bs_fresh st + 2 + length (tg_edges g0 @ es))" using f by (simp add: minted_def d)
  have dt: "distinct (map td_id (bs_tasks st))" by (rule built_distinct(2) [OF X b u f']) simp
  have sr: "map td_id tasks = map td_id (bs_tasks st)" "\<forall>t \<in> set tasks. signals_bound (extended g0 es) t"
    "map declared tasks = map declared (bs_tasks st)"
    using apply_signal_resolution_bound [OF X dt bt(2)] apply_signal_resolution_declared [OF dt] ap d0(2) by simp_all
  have "well_formed_graph tasks (extended g0 es)" by (rule sealed_well_formed [OF X b u f' ids se [unfolded d0(2)] cl [unfolded d0(2)] te sr(1)])
  then show ?thesis using that [of "extended g0 es" w st] b sr pg by (simp add: d)
qed

lemma proceed_total: "r \<noteq> None \<Longrightarrow> (\<And>x. f x \<noteq> None) \<Longrightarrow> proceed r f \<noteq> None"
  by (auto simp: proceed_None simp del: not_None_eq)

lemma case_prod_total: "(\<And>a b. f a b \<noteq> None) \<Longrightarrow> case_prod f x \<noteq> None"
  by (cases x) simp

lemma built_name_task:
  assumes "built X fresh ts st" and "(n, i) \<in> set (bs_names st)"
    and "map td_id ds = map td_id (bs_tasks st)" "map declared ds = map declared (bs_tasks st)"
  shows "\<exists>u \<in> set ds. td_name u = n \<and> td_id u = be_uuid_text X i"
proof -
  obtain b where b: "b \<in> set (bs_tasks st)" "td_name b = n" "td_id b = be_uuid_text X i"
    using assms(1,2) unfolding built_def by blast
  obtain j where j: "j < length (bs_tasks st)" "bs_tasks st ! j = b" using b(1) unfolding in_set_conv_nth by blast
  have len: "length ds = length (bs_tasks st)" using map_eq_imp_length_eq [OF assms(3)] .
  have "td_id (ds ! j) = td_id b" "declared (ds ! j) = declared b"
    using nth_map [of j ds td_id] nth_map [of j ds declared] nth_map [of j "bs_tasks st"] j len assms(3,4) by simp_all
  then have "td_name (ds ! j) = n \<and> td_id (ds ! j) = be_uuid_text X i" using b by (simp add: declared_def)
  moreover have "ds ! j \<in> set ds" using j(1) len by simp
  ultimately show ?thesis by blast
qed

lemma owner_declares:
  assumes "(v, n) \<in> set (routing_owners w)"
  shows "\<exists>t \<in> set (all_tasks w). fst (declares t) = n \<and> v \<in> rd_name ` set (snd (declares t))"
  using assms by (force simp: routing_owners_def declares_def)

section \<open>Properties\<close>

text \<open>C8. Every definition that the builder accepts has a well-formed graph: its nodes are the start, the end
  and the tasks, with distinct identifiers; its edges have distinct identifiers and connect nodes; every
  task is entered and left, alone or with its loop body; and every loop body can be left, only through
  gates on the loop control.\<close>

theorem accepted_definition_well_formed:
  assumes "uuid_texts X" and "parse_workflow_from_json_for_tenant X fresh json tenant ns0 = Some (Inr d)" and "v4_supply fresh (minted d)"
  shows "\<exists>g. wd_task_graph d = Some g \<and> well_formed_graph (wd_tasks d) g"
  by (rule accepted_parts [OF assms]) blast

text \<open>C9. In an accepted definition every signal input names the one edge that delivers its signal before the
  task can run. And for every gate on a routing variable some task declares the variable, and a task
  of that name lies on every walk from the start to each source of the edge; only a loop control may
  instead be produced in the loop body of the source. When the names of the tasks are distinct these are
  one task; the builder does not refuse a name that two groups declare, and takes the later one.\<close>

theorem accepted_gates_decided:
  assumes X: "uuid_texts X" and p: "parse_workflow_from_json_for_tenant X fresh json tenant ns0 = Some (Inr d)"
    and f: "v4_supply fresh (minted d)" and g: "wd_task_graph d = Some g"
  shows "(\<forall>t \<in> set (wd_tasks d). signals_bound g t)
    \<and> (\<forall>e \<in> set (tg_edges g). \<forall>ph. Some (PredicateHolds ph) \<in> set (ge_gates e) \<longrightarrow>
        (\<exists>t \<in> set (wd_tasks d). \<exists>u \<in> set (wd_tasks d).
           ph_routing_var ph \<in> rd_name ` set (td_routing_vars t) \<and> td_name u = td_name t
           \<and> (\<forall>src \<in> set (ge_sources e). decided_at g (ph_routing_var ph) (td_id u) src)
           \<and> (distinct (map td_name (wd_tasks d)) \<longrightarrow> u = t)))"
proof -
  obtain g' w st where P: "wd_task_graph d = Some g'" "\<forall>t \<in> set (wd_tasks d). signals_bound g' t" "built X fresh (all_tasks w) st"
    "map td_id (wd_tasks d) = map td_id (bs_tasks st)" "map declared (wd_tasks d) = map declared (bs_tasks st)"
    "validate_predicate_gate_dominators_proto X w (bs_names st) g' = Some (Inr ())" by (rule accepted_parts [OF X p f])
  have g': "g' = g" using P(1) g by simp
  have "\<exists>t \<in> set (wd_tasks d). \<exists>u \<in> set (wd_tasks d).
      ph_routing_var ph \<in> rd_name ` set (td_routing_vars t) \<and> td_name u = td_name t
      \<and> (\<forall>src \<in> set (ge_sources e). decided_at g (ph_routing_var ph) (td_id u) src)
      \<and> (distinct (map td_name (wd_tasks d)) \<longrightarrow> u = t)"
    if e: "e \<in> set (tg_edges g)" "Some (PredicateHolds ph) \<in> set (ge_gates e)" for e ph
  proof -
    obtain n i where n: "(ph_routing_var ph, n) \<in> set (routing_owners w)" "(n, i) \<in> set (bs_names st)"
      "\<forall>src \<in> set (ge_sources e). decided_at g (ph_routing_var ph) (be_uuid_text X i) src"
      using predicate_gates_decided [OF P(6) [unfolded g'] e] by blast
    obtain u where u: "u \<in> set (wd_tasks d)" "td_name u = n" "td_id u = be_uuid_text X i"
      using built_name_task [OF P(3) n(2) P(4,5)] by blast
    obtain t where t: "t \<in> set (all_tasks w)" "fst (declares t) = n" "ph_routing_var ph \<in> rd_name ` set (snd (declares t))"
      using owner_declares [OF n(1)] by blast
    have "map declared (bs_tasks st) = map declares (all_tasks w)" using P(3) by (simp add: built_def)
    then have "declares t \<in> declared ` set (wd_tasks d)" using t(1) P(5) by (metis image_eqI set_map)
    then obtain t' where t': "t' \<in> set (wd_tasks d)" "declared t' = declares t" by (metis imageE)
    have "td_name t' = n" "ph_routing_var ph \<in> rd_name ` set (td_routing_vars t')"
      using t(2,3) arg_cong [OF t'(2), of fst] arg_cong [OF t'(2), of snd] by (simp_all add: declared_def)
    moreover have "distinct (map td_name (wd_tasks d)) \<longrightarrow> u = t'" using u t'(1) calculation(1) by (metis distinct_map_inj)
    ultimately show ?thesis using n(3) u t'(1) by metis
  qed
  then show ?thesis using P(2) [unfolded g'] by blast
qed

text \<open>C14. The builder returns on every input: it yields a definition or an error, and never panics.\<close>

theorem builder_never_panics:
  assumes "uuid_texts X"
  shows "\<exists>r. parse_workflow_from_json_for_tenant X fresh json tenant ns0 = Some r"
proof -
  have "parse_workflow_from_json_for_tenant X fresh json tenant ns0 \<noteq> None"
    unfolding parse_workflow_from_json_for_tenant_def
    by (intro proceed_total case_prod_total build_groups_total [OF assms] close_definition_total) simp_all
  then show ?thesis by simp
qed

end
