(* ===== verification/Definition_Renaming.thy ===== *)
theory Definition_Renaming
  imports Seal_Properties Definition_Dominance
begin

text \<open>
  What the algorithms on definition graphs yield does not depend on the identifiers: under a renaming of
  all identifiers by a bijection, the seal, the resolution of signal inputs, the dominance checks and the
  terminability check give the renamed result. The searches visit nodes in the order of their identifiers;
  that their results are nevertheless stable rests on what they compute, not on how.
\<close>

section \<open>Renaming\<close>

definition rename_edge :: "(string \<Rightarrow> string) \<Rightarrow> edge \<Rightarrow> edge" where
  "rename_edge \<rho> e = e\<lparr> ge_id := \<rho> (ge_id e), ge_sources := map \<rho> (ge_sources e), ge_targets := map \<rho> (ge_targets e) \<rparr>"

definition rename_graph :: "(string \<Rightarrow> string) \<Rightarrow> task_graph \<Rightarrow> task_graph" where
  "rename_graph \<rho> g = \<lparr> tg_nodes = map (\<lambda>n. n\<lparr> gn_id := \<rho> (gn_id n) \<rparr>) (tg_nodes g), tg_edges = map (rename_edge \<rho>) (tg_edges g),
     tg_start = \<rho> (tg_start g), tg_end = \<rho> (tg_end g) \<rparr>"

lemma rename_edge_simps [simp]:
  "ge_id (rename_edge \<rho> e) = \<rho> (ge_id e)" "ge_sources (rename_edge \<rho> e) = map \<rho> (ge_sources e)"
  "ge_targets (rename_edge \<rho> e) = map \<rho> (ge_targets e)" "ge_kind (rename_edge \<rho> e) = ge_kind e" "ge_gates (rename_edge \<rho> e) = ge_gates e"
  "is_loop_edge (rename_edge \<rho> e) = is_loop_edge e" "carries_signal name (rename_edge \<rho> e) = carries_signal name e"
  by (simp_all add: rename_edge_def is_loop_edge_def carries_signal_def)

lemma rename_graph_simps [simp]:
  "tg_edges (rename_graph \<rho> g) = map (rename_edge \<rho>) (tg_edges g)" "tg_start (rename_graph \<rho> g) = \<rho> (tg_start g)"
  "tg_end (rename_graph \<rho> g) = \<rho> (tg_end g)"
  by (simp_all add: rename_graph_def)

lemma rename_inverse:
  assumes "bij \<rho>"
  shows "rename_edge (inv \<rho>) (rename_edge \<rho> e) = e" "rename_graph (inv \<rho>) (rename_graph \<rho> g) = g"
proof -
  have i: "inv \<rho> (\<rho> s) = s" for s using assms by (simp add: bij_is_inj)
  show e: "rename_edge (inv \<rho>) (rename_edge \<rho> e) = e" for e by (simp add: rename_edge_def i comp_def)
  show "rename_graph (inv \<rho>) (rename_graph \<rho> g) = g" by (simp add: rename_graph_def i comp_def e)
qed

lemma mem_rename [simp]: "bij \<rho> \<Longrightarrow> \<rho> s \<in> \<rho> ` A \<longleftrightarrow> s \<in> A"
  by (auto simp: inj_image_mem_iff bij_is_inj)

section \<open>Loops\<close>

lemma non_loop_rename:
  assumes "bij \<rho>"
  shows "has_non_loop_incoming (rename_graph \<rho> g) (\<rho> t) = has_non_loop_incoming g t"
    "has_non_loop_outgoing (rename_graph \<rho> g) (\<rho> t) = has_non_loop_outgoing g t"
    "has_non_loop_edge_leaving_body (rename_graph \<rho> g) (\<rho> ` b) = has_non_loop_edge_leaving_body g b"
  using assms by (simp_all add: has_non_loop_incoming_def has_non_loop_outgoing_def has_non_loop_edge_leaving_body_def)

lemma trancl_rename:
  assumes "bij \<rho>" and "\<And>a b. (\<rho> a, \<rho> b) \<in> S \<longleftrightarrow> (a, b) \<in> R"
  shows "(\<rho> a, \<rho> b) \<in> S\<^sup>+ \<longleftrightarrow> (a, b) \<in> R\<^sup>+"
proof
  assume "(a, b) \<in> R\<^sup>+"
  then show "(\<rho> a, \<rho> b) \<in> S\<^sup>+" by (induction rule: trancl_induct) (auto intro: assms(2) [THEN iffD2] trancl_into_trancl)
next
  assume "(\<rho> a, \<rho> b) \<in> S\<^sup>+"
  then have "(inv \<rho> (\<rho> a), inv \<rho> (\<rho> b)) \<in> R\<^sup>+"
  proof (induction rule: trancl_induct)
    case (base y)
    then show ?case using assms by (metis bij_inv_eq_iff r_into_trancl)
  next
    case (step y z)
    have "(inv \<rho> y, inv \<rho> z) \<in> R" using step(2) assms by (metis bij_inv_eq_iff)
    then show ?case using step(3) by (rule trancl_into_trancl [rotated])
  qed
  then show "(a, b) \<in> R\<^sup>+" using assms(1) by (simp add: bij_is_inj)
qed

lemma loop_step_rename: "bij \<rho> \<Longrightarrow> (\<rho> a, \<rho> b) \<in> loop_step (rename_graph \<rho> g) \<longleftrightarrow> (a, b) \<in> loop_step g"
  by (simp add: loop_step_def)

lemma cyclic_rename: "bij \<rho> \<Longrightarrow> cyclic (rename_graph \<rho> g) (\<rho> t) \<longleftrightarrow> cyclic g t"
  unfolding cyclic_def by (rule trancl_rename) (simp_all add: loop_step_rename)

lemma loop_body_rename:
  assumes "bij \<rho>"
  shows "loop_body_of (rename_graph \<rho> g) (\<rho> t) = \<rho> ` loop_body_of g t"
proof -
  have r: "(\<rho> a, \<rho> b) \<in> (loop_step (rename_graph \<rho> g))\<^sup>* \<longleftrightarrow> (a, b) \<in> (loop_step g)\<^sup>*" for a b
    using trancl_rename [OF assms loop_step_rename [OF assms, of _ _ g], of a b] assms by (auto simp: rtrancl_eq_or_trancl bij_def inj_eq)
  have "x \<in> loop_body_of (rename_graph \<rho> g) (\<rho> t) \<longleftrightarrow> x \<in> \<rho> ` loop_body_of g t" for x
  proof -
    obtain y where y: "x = \<rho> y" using assms by (metis bij_pointE)
    show ?thesis unfolding y using assms by (simp add: loop_body_of_def r)
  qed
  then show ?thesis by blast
qed

section \<open>The seal\<close>

lemma add_seal_edge_rename: "add_seal_edge (\<rho> i) (\<rho> s) (\<rho> t) (rename_graph \<rho> g) = rename_graph \<rho> (add_seal_edge i s t g)"
  by (simp add: add_seal_edge_def rename_graph_def rename_edge_def)

lemma in_entered_body_rename:
  assumes r: "bij \<rho>" and "bodies_of g bodies" and "bodies_of (rename_graph \<rho> g) bodies'"
  shows "in_entered_body bodies' (rename_graph \<rho> h) (\<rho> t) = in_entered_body bodies h t"
  by (simp add: in_entered_body_iff [OF assms(2)] in_entered_body_iff [OF assms(3)] cyclic_rename [OF r] loop_body_rename [OF r] non_loop_rename [OF r])

lemma wire_count:
  "k \<le> fst (wire_starts f bodies ts (k, h)) \<and> length (tg_edges (snd (wire_starts f bodies ts (k, h)))) + k = fst (wire_starts f bodies ts (k, h)) + length (tg_edges h)"
  "k \<le> fst (wire_ends f ex ts (k, h)) \<and> length (tg_edges (snd (wire_ends f ex ts (k, h)))) + k = fst (wire_ends f ex ts (k, h)) + length (tg_edges h)"
proof (induction ts arbitrary: k h)
  case (Cons t ts)
  { case 1 show ?case using Cons(1) [of k h] Cons(1) [of "Suc k" "add_seal_edge (f k) (tg_start h) t h"] by (auto simp: add_seal_edge_def) }
  { case 2 show ?case using Cons(2) [of k h] Cons(2) [of "Suc k" "add_seal_edge (f k) t (tg_end h) h"] by (auto simp: add_seal_edge_def) }
qed simp_all

lemma wire_starts_rename:
  assumes "bij \<rho>" and "bodies_of g bodies" and "bodies_of (rename_graph \<rho> g) bodies'"
    and "\<And>j. j < fst (wire_starts f bodies ts (k, h)) \<Longrightarrow> f' j = \<rho> (f j)"
  shows "wire_starts f' bodies' (map \<rho> ts) (k, rename_graph \<rho> h) = map_prod id (rename_graph \<rho>) (wire_starts f bodies ts (k, h))"
  using assms(4)
proof (induction ts arbitrary: k h)
  case (Cons t ts)
  note rename = in_entered_body_rename [OF assms(1-3)] non_loop_rename [OF assms(1)] add_seal_edge_rename
  show ?case
  proof (cases "has_non_loop_incoming h t \<or> in_entered_body bodies h t")
    case False
    have "f' k = \<rho> (f k)" using Cons(2) [of k] wire_count(1) [of "Suc k" f bodies ts "add_seal_edge (f k) (tg_start h) t h"] False by simp
    then show ?thesis using False Cons(1) [of "Suc k" "add_seal_edge (f k) (tg_start h) t h"] Cons(2) by (simp add: rename)
  qed (use Cons in \<open>simp add: rename\<close>)
qed simp

lemma wire_ends_rename:
  assumes "bij \<rho>" and "\<And>t. \<rho> t \<in> ex' \<longleftrightarrow> t \<in> ex" and "\<And>j. j < fst (wire_ends f ex ts (k, h)) \<Longrightarrow> f' j = \<rho> (f j)"
  shows "wire_ends f' ex' (map \<rho> ts) (k, rename_graph \<rho> h) = map_prod id (rename_graph \<rho>) (wire_ends f ex ts (k, h))"
  using assms(3)
proof (induction ts arbitrary: k h)
  case (Cons t ts)
  note rename = assms(2) non_loop_rename [OF assms(1)] add_seal_edge_rename
  show ?case
  proof (cases "\<not> has_non_loop_outgoing h t \<and> t \<notin> ex")
    case True
    have "f' k = \<rho> (f k)" using Cons(2) [of k] wire_count(2) [of "Suc k" f ex ts "add_seal_edge (f k) t (tg_end h) h"] True by simp
    then show ?thesis using True Cons(1) [of "Suc k" "add_seal_edge (f k) t (tg_end h) h"] Cons(2) by (simp add: rename)
  next
    case False
    then show ?thesis using Cons(1) [of k h] Cons(2) by (cases "t \<in> ex") (simp_all add: rename)
  qed
qed simp

lemma seal_rename:
  assumes r: "bij \<rho>" and s: "seal f p = Some p'"
    and f: "\<And>j. length (tg_edges (pg_graph p)) + j < length (tg_edges (pg_graph p')) \<Longrightarrow> f' j = \<rho> (f j)"
    and q: "pg_task_ids q = map \<rho> (pg_task_ids p)" "pg_graph q = rename_graph \<rho> (pg_graph p)"
  shows "\<exists>q'. seal f' q = Some q' \<and> pg_graph q' = rename_graph \<rho> (pg_graph p')"
proof -
  let ?g = "pg_graph p" and ?ts = "pg_task_ids p"
  obtain bodies where b: "loop_sccs ?g = Some bodies" "bodies_of ?g bodies" by (rule loop_sccs_bodies)
  obtain bodies' where b': "loop_sccs (rename_graph \<rho> ?g) = Some bodies'" "bodies_of (rename_graph \<rho> ?g) bodies'" by (rule loop_sccs_bodies)
  obtain k g1 where w: "wire_starts f bodies ?ts (0, ?g) = (k, g1)" by fastforce
  let ?ex = "exiting_loop_members bodies g1" and ?ex' = "exiting_loop_members bodies' (rename_graph \<rho> g1)"
  obtain n g2 where e: "wire_ends f ?ex ?ts (k, g1) = (n, g2)" by fastforce
  have p': "pg_graph p' = g2" using s b(1) w e by (auto simp: seal_def)
  have kn: "k \<le> n" "length (tg_edges g2) = length (tg_edges ?g) + n"
    using wire_count(1) [of 0 f bodies ?ts ?g] wire_count(2) [of k f ?ex ?ts g1] w e by simp_all
  then have f': "f' j = \<rho> (f j)" if "j < n" for j using f [of j] that p' by simp
  have w': "wire_starts f' bodies' (map \<rho> ?ts) (0, rename_graph \<rho> ?g) = (k, rename_graph \<rho> g1)"
    using wire_starts_rename [OF r b(2) b'(2), of f ?ts 0 ?g f'] f' w kn by simp
  have "\<rho> t \<in> ?ex' \<longleftrightarrow> t \<in> ?ex" for t
    by (simp add: exiting_iff [OF b(2)] exiting_iff [OF b'(2)] cyclic_rename [OF r] loop_body_rename [OF r] non_loop_rename [OF r])
  then have "wire_ends f' ?ex' (map \<rho> ?ts) (k, rename_graph \<rho> g1) = (n, rename_graph \<rho> g2)"
    using wire_ends_rename [OF r, of ?ex' ?ex f ?ts k g1 f'] f' e by simp
  then show ?thesis using b'(1) w' q p' by (simp add: seal_def)
qed

section \<open>Dominance\<close>

lemma walk_rename: "walk g u es v \<Longrightarrow> walk (rename_graph \<rho> g) (\<rho> u) (map (\<lambda>(e, w). (rename_edge \<rho> e, \<rho> w)) es) (\<rho> v)"
  by (induction g u es v rule: walk.induct) auto

lemma walk_nodes_rename: "walk_nodes (\<rho> u) (map (\<lambda>(e, w). (rename_edge \<rho> e, \<rho> w)) es) = map \<rho> (walk_nodes u es)"
  by (induction u es rule: walk_nodes.induct) auto

lemma dominates_rename_mono:
  assumes "bij \<rho>"
  shows "edge_dominates g gate t \<Longrightarrow> edge_dominates (rename_graph \<rho> g) (\<rho> gate) (\<rho> t)"
    "task_dominates g a t \<Longrightarrow> task_dominates (rename_graph \<rho> g) (\<rho> a) (\<rho> t)"
proof -
  let ?undo = "map (\<lambda>(e, w). (rename_edge (inv \<rho>) e, inv \<rho> w))"
  have i: "inv \<rho> (\<rho> s) = s" "inv \<rho> x = s \<longleftrightarrow> x = \<rho> s" for s x using assms by (simp add: bij_is_inj) (metis assms bij_inv_eq_iff)
  have w: "walk g (tg_start g) (?undo es) t" if "walk (rename_graph \<rho> g) (\<rho> (tg_start g)) es (\<rho> t)" for es
    using walk_rename [OF that, of "inv \<rho>"] by (simp add: rename_inverse [OF assms] i(1))
  show "edge_dominates (rename_graph \<rho> g) (\<rho> gate) (\<rho> t)" if d: "edge_dominates g gate t"
    unfolding edge_dominates_def
  proof (intro allI impI)
    fix es assume "walk (rename_graph \<rho> g) (tg_start (rename_graph \<rho> g)) es (\<rho> t)"
    then obtain e x where "(e, x) \<in> set es" "inv \<rho> (ge_id e) = gate" using d w [of es] unfolding edge_dominates_def by fastforce
    then show "\<exists>(e, x) \<in> set es. ge_id e = \<rho> gate" using i(2) by auto
  qed
  show "task_dominates (rename_graph \<rho> g) (\<rho> a) (\<rho> t)" if d: "task_dominates g a t"
    unfolding task_dominates_def
  proof (intro allI impI)
    fix es assume "walk (rename_graph \<rho> g) (tg_start (rename_graph \<rho> g)) es (\<rho> t)"
    then have "a \<in> set (walk_nodes (inv \<rho> (\<rho> (tg_start g))) (?undo es)) \<or> a = t" using d w [of es] unfolding task_dominates_def i(1) by simp
    then show "\<rho> a \<in> set (walk_nodes (tg_start (rename_graph \<rho> g)) es) \<or> \<rho> a = \<rho> t"
      unfolding walk_nodes_rename using surj_f_inv_f [OF bij_is_surj [OF assms]] by auto
  qed
qed

lemma dominates_rename:
  assumes "bij \<rho>"
  shows "edge_dominates (rename_graph \<rho> g) (\<rho> gate) (\<rho> t) \<longleftrightarrow> edge_dominates g gate t"
    "task_dominates (rename_graph \<rho> g) (\<rho> a) (\<rho> t) \<longleftrightarrow> task_dominates g a t"
  using dominates_rename_mono [OF assms, of g] dominates_rename_mono [OF bij_imp_bij_inv [OF assms], of "rename_graph \<rho> g"] assms
  by (fastforce simp: rename_inverse [OF assms] bij_is_inj)+

lemma signal_edges_rename:
  assumes "bij \<rho>"
  shows "signal_edges (rename_graph \<rho> g) (\<rho> t) name = map (rename_edge \<rho>) (signal_edges g t name)"
  by (simp add: signal_edges_def filter_map comp_def dominates_rename [OF assms])

section \<open>Signal inputs\<close>

lemma map_sum_Inr: "map_sum f h z = Inr y \<longleftrightarrow> (\<exists>x. z = Inr x \<and> y = h x)"
  by (cases z) auto

lemma resolve_slots_rename:
  assumes "bij \<rho>" and "resolve_slots parse g task k ss = Some (Inr rs)"
  shows "\<exists>rs'. resolve_slots parse (rename_graph \<rho> g) (\<rho> task) k ss = Some (Inr rs')"
  using assms(2)
proof (induction ss arbitrary: k rs)
  case (Cons s ss)
  obtain xs ys where xs: "resolve_slot parse g task k s = Some (Inr xs)" and ys: "resolve_slots parse g task (Suc k) ss = Some (Inr ys)"
    using Cons(2) by (auto simp: map_sum_Inr split: bind_splits sum.splits)
  obtain ys' where ys': "resolve_slots parse (rename_graph \<rho> g) (\<rho> task) (Suc k) ss = Some (Inr ys')" using Cons(1) [OF ys] by blast
  have "\<exists>xs'. resolve_slot parse (rename_graph \<rho> g) (\<rho> task) k s = Some (Inr xs')"
    using xs unfolding resolve_slot_eq slot_result_def signal_edges_rename [OF assms(1)]
    by (auto split: option.splits input_source.splits if_splits list.splits)
  then show ?case using ys' by auto
qed simp

lemma resolve_sources_rename:
  assumes "bij \<rho>" and "resolve_signal_input_sources parse ts g = Some (Inr rs)" and "map td_id ts' = map (\<rho> \<circ> td_id) ts"
    and "map td_input_sources ts' = map td_input_sources ts"
  shows "\<exists>rs'. resolve_signal_input_sources parse ts' (rename_graph \<rho> g) = Some (Inr rs')"
  using assms(2-4)
proof (induction ts arbitrary: ts' rs)
  case (Cons t ts)
  obtain u us where u: "ts' = u # us" "td_id u = \<rho> (td_id t)" "td_input_sources u = td_input_sources t"
    "map td_id us = map (\<rho> \<circ> td_id) ts" "map td_input_sources us = map td_input_sources ts" using Cons(3,4) by (cases ts') auto
  show ?case
  proof (cases "td_input_sources t")
    case None
    then show ?thesis using Cons(1) [OF _ u(4,5), of rs] Cons(2) u by simp
  next
    case (Some slots)
    obtain xs ys where xs: "resolve_slots parse g (td_id t) 0 slots = Some (Inr xs)" and ys: "resolve_signal_input_sources parse ts g = Some (Inr ys)"
      using Cons(2) Some by (auto simp: map_sum_Inr split: bind_splits sum.splits)
    then show ?thesis using resolve_slots_rename [OF assms(1) xs] Cons(1) [OF ys u(4,5)] Some u by auto
  qed
qed simp

section \<open>Terminability\<close>

lemma check_bodies_Inr: "check_bodies g bs = Inr () \<longleftrightarrow> (\<forall>b \<in> set bs. terminable g b)"
proof (induction bs)
  case (Cons b bs)
  show ?case
  proof (cases "find (\<lambda>e. \<not> list_ex references_loop_control (ge_gates e)) (leaving_edges g b)")
    case None
    then have "\<forall>e \<in> set (leaving_edges g b). \<exists>gt \<in> set (ge_gates e). references_loop_control gt" by (auto simp: find_None_iff list_ex_iff)
    then have "terminable g b \<longleftrightarrow> leaving_edges g b \<noteq> []" by (simp add: terminable_def)
    then show ?thesis using Cons None by simp
  next
    case (Some e)
    then have "e \<in> set (leaving_edges g b)" "\<not> list_ex references_loop_control (ge_gates e)" by (auto simp: find_Some_iff)
    then have "\<not> terminable g b" by (auto simp: terminable_def list_ex_iff)
    then show ?thesis using Some by simp
  qed
qed simp

lemma terminability_iff: "validate_loop_terminability g = Some (Inr ()) \<longleftrightarrow> (\<forall>v. cyclic g v \<longrightarrow> terminable g (loop_body_of g v))"
proof -
  obtain bodies where b: "loop_sccs g = Some bodies" "bodies_of g bodies" by (rule loop_sccs_bodies)
  show ?thesis using b check_bodies_Inr [of g bodies] unfolding validate_loop_terminability_def bodies_of_def by auto
qed

lemma terminability_rename:
  assumes "bij \<rho>" and "validate_loop_terminability g = Some (Inr ())"
  shows "validate_loop_terminability (rename_graph \<rho> g) = Some (Inr ())"
proof -
  have "leaving_edges (rename_graph \<rho> g) (\<rho> ` b) = map (rename_edge \<rho>) (leaving_edges g b)" for b
    using assms(1) by (simp add: leaving_edges_def filter_map comp_def)
  then have "terminable (rename_graph \<rho> g) (\<rho> ` b) \<longleftrightarrow> terminable g b" for b by (simp add: terminable_def)
  then have "cyclic (rename_graph \<rho> g) (\<rho> v) \<Longrightarrow> terminable (rename_graph \<rho> g) (loop_body_of (rename_graph \<rho> g) (\<rho> v))" for v
    using assms(2) unfolding terminability_iff by (simp add: cyclic_rename [OF assms(1)] loop_body_rename [OF assms(1)])
  then show ?thesis unfolding terminability_iff using assms(1) by (metis bij_pointE)
qed

end
