(* ===== verification/Builder_Renaming.thy ===== *)
theory Builder_Renaming
  imports Builder_Properties Definition_Renaming
begin

text \<open>
  Two runs of the builder on the same text differ in the identifiers that \<open>Uuid::new_v4\<close> returns. Here a
  permutation \<open>\<sigma>\<close> of identifiers takes those of one run to those of the other, and \<open>\<rho>\<close> does so for their
  texts: each phase of the second run gives the renamed result of the first.
\<close>

definition renames :: "'n build_externals \<Rightarrow> (nat \<Rightarrow> uuid) \<Rightarrow> (nat \<Rightarrow> uuid) \<Rightarrow> nat \<Rightarrow> (uuid \<Rightarrow> uuid) \<Rightarrow> (string \<Rightarrow> string) \<Rightarrow> bool" where
  "renames X fresh fresh' n \<sigma> \<rho> \<longleftrightarrow> bij \<rho> \<and> (\<forall>i. be_uuid_text X (\<sigma> i) = \<rho> (be_uuid_text X i)) \<and> (\<forall>k < n. fresh' k = \<sigma> (fresh k))"

lemma renamesD:
  assumes "renames X fresh fresh' n \<sigma> \<rho>"
  shows "bij \<rho>" "be_uuid_text X (\<sigma> i) = \<rho> (be_uuid_text X i)" "k < n \<Longrightarrow> fresh' k = \<sigma> (fresh k)"
    "k < n \<Longrightarrow> be_uuid_text X (fresh' k) = \<rho> (be_uuid_text X (fresh k))"
  using assms by (auto simp: renames_def)

definition rename_task :: "(string \<Rightarrow> string) \<Rightarrow> task_definition \<Rightarrow> task_definition" where
  "rename_task \<rho> t = t\<lparr> td_id := \<rho> (td_id t) \<rparr>"

definition rename_state :: "(uuid \<Rightarrow> uuid) \<Rightarrow> (string \<Rightarrow> string) \<Rightarrow> build_state \<Rightarrow> build_state" where
  "rename_state \<sigma> \<rho> st = \<lparr> bs_tasks = map (rename_task \<rho>) (bs_tasks st), bs_names = map (apsnd \<sigma>) (bs_names st),
     bs_groups = map (map \<sigma>) (bs_groups st), bs_fresh = bs_fresh st \<rparr>"

lemma rename_task_simps [simp]: "td_id (rename_task \<rho> t) = \<rho> (td_id t)" "td_name (rename_task \<rho> t) = td_name t"
    "td_input_sources (rename_task \<rho> t) = td_input_sources t" "td_outputs (rename_task \<rho> t) = td_outputs t"
  by (simp_all add: rename_task_def)

section \<open>Tasks\<close>

lemma proto_task_rename: "be_uuid_text X i' = \<rho> (be_uuid_text X i) \<Longrightarrow> proto_task X w i' t = map_sum id (rename_task \<rho>) (proto_task X w i t)"
  by (auto simp: proto_task_def rename_task_def split: option.splits)

lemma group_to_proto_tasks_rename:
  assumes R: "renames X fresh fresh' n \<sigma> \<rho>"
  shows "group_to_proto_tasks X fresh w k ts = Inr ds \<Longrightarrow> k + length ts \<le> n \<Longrightarrow> group_to_proto_tasks X fresh' w k ts = Inr (map (rename_task \<rho>) ds)"
proof (induction ts arbitrary: k ds)
  case (Cons t ts)
  obtain d ds' where d: "ds = d # ds'" "proto_task X w (fresh k) t = Inr d" "group_to_proto_tasks X fresh w (Suc k) ts = Inr ds'"
    using Cons(2) by (auto simp: and_then_Inr)
  have "be_uuid_text X (fresh' k) = \<rho> (be_uuid_text X (fresh k))" using renamesD(4) [OF R, of k] Cons(3) by simp
  from proto_task_rename [where \<rho> = \<rho>, OF this, of w t] have "proto_task X w (fresh' k) t = Inr (rename_task \<rho> d)" using d(2) by simp
  then show ?case using Cons(1) [OF d(3)] Cons(3) d(1) by (simp add: and_then_Inr)
qed simp

lemma stamp_timeouts_rename:
  "stamp_timeouts ts ds = Some (Inr ds') \<Longrightarrow> stamp_timeouts ts (map (rename_task \<rho>) ds) = Some (Inr (map (rename_task \<rho>) ds'))"
proof (induction ts ds arbitrary: ds' rule: stamp_timeouts.induct)
  case (2 t ts ds)
  show ?case
  proof (cases "pt_timeout t")
    case None
    then show ?thesis using 2 by (auto simp: proceed_Inr take_map map_tl)
  next
    case (Some raw)
    then obtain secs d rest where "parse_duration raw = Inr secs" "ds = d # rest" using 2(3) by (auto split: sum.splits list.splits)
    then show ?thesis using 2 Some by (auto simp: proceed_Inr rename_task_def)
  qed
qed simp

lemma stamp_loop_participants_rename: "stamp_loop_participants es (map (rename_task \<rho>) ds) = map (rename_task \<rho>) (stamp_loop_participants es ds)"
  unfolding stamp_loop_participants_def Let_def map_map comp_def rename_task_def by (intro map_cong refl) (auto simp: rename_task_def)

lemma apsnd_names: "map (apsnd \<sigma>) (rev (zip ns ids)) = rev (zip ns (map \<sigma> ids))"
  by (simp add: zip_map2 rev_map apsnd_def map_prod_def)

lemma build_group_rename:
  assumes X: "uuid_texts X" and R: "renames X fresh fresh' n \<sigma> \<rho>" and b: "build_group X fresh w g st = Some (Inr st')" and n: "bs_fresh st' \<le> n"
  shows "build_group X fresh' w g (rename_state \<sigma> \<rho> st) = Some (Inr (rename_state \<sigma> \<rho> st'))"
proof -
  let ?k = "bs_fresh st" and ?stamp = "stamp_loop_participants (pgr_edges g)"
  obtain ds0 ds1 ids where d: "group_to_proto_tasks X fresh w ?k (pgr_tasks g) = Inr ds0" "stamp_timeouts (pgr_tasks g) ds0 = Some (Inr ds1)"
    "task_ids X (?stamp ds1) = Some ids" and st': "st' = \<lparr> bs_tasks = bs_tasks st @ ?stamp ds1, bs_names = rev (zip (map td_name (?stamp ds1)) ids) @ bs_names st,
        bs_groups = bs_groups st @ [ids], bs_fresh = ?k + length (?stamp ds1) \<rparr>"
    using b by (auto simp: build_group_def proceed_Inr Let_def split: option.splits)
  have ids: "ids = map fresh [?k..<?k + length (?stamp ds1)]" using group_steps(3) [OF X d(1,2) refl, of "pgr_edges g"] d(3) by simp
  have len: "length (?stamp ds1) = length (pgr_tasks g)" using map_eq_imp_length_eq [OF group_steps(4) [OF X d(1,2) refl, of "pgr_edges g"]] .
  have g': "group_to_proto_tasks X fresh' w ?k (pgr_tasks g) = Inr (map (rename_task \<rho>) ds0)"
    by (rule group_to_proto_tasks_rename [OF R d(1)]) (use n len st' in simp)
  have t': "stamp_timeouts (pgr_tasks g) (map (rename_task \<rho>) ds0) = Some (Inr (map (rename_task \<rho>) ds1))" by (rule stamp_timeouts_rename [OF d(2)])
  have "task_ids X (map (rename_task \<rho>) (?stamp ds1)) = Some (map fresh' [?k..<?k + length (?stamp ds1)])"
    using group_steps(3) [OF X g' t' refl, of "pgr_edges g"] by (simp add: stamp_loop_participants_rename)
  moreover have "map fresh' [?k..<?k + length (?stamp ds1)] = map \<sigma> ids" using renamesD(3) [OF R] n st' by (simp add: ids)
  ultimately show ?thesis using g' t'
    by (simp add: build_group_def proceed_Inr Let_def rename_state_def st' stamp_loop_participants_rename comp_def apsnd_names)
qed

lemma build_group_fresh: "build_group X fresh w g st = Some (Inr st') \<Longrightarrow> bs_fresh st \<le> bs_fresh st'"
  by (auto simp: build_group_def proceed_Inr Let_def split: option.splits)

lemma build_groups_fresh: "build_groups X fresh w gs st = Some (Inr st') \<Longrightarrow> bs_fresh st \<le> bs_fresh st'"
proof (induction gs arbitrary: st)
  case (Cons g gs)
  then show ?case by (fastforce simp: proceed_Inr dest: build_group_fresh)
qed simp

lemma build_groups_rename:
  assumes X: "uuid_texts X" and R: "renames X fresh fresh' n \<sigma> \<rho>"
  shows "build_groups X fresh w gs st = Some (Inr st') \<Longrightarrow> bs_fresh st' \<le> n
    \<Longrightarrow> build_groups X fresh' w gs (rename_state \<sigma> \<rho> st) = Some (Inr (rename_state \<sigma> \<rho> st'))"
proof (induction gs arbitrary: st)
  case (Cons g gs)
  obtain st1 where st1: "build_group X fresh w g st = Some (Inr st1)" "build_groups X fresh w gs st1 = Some (Inr st')"
    using Cons(2) by (auto simp: proceed_Inr)
  then have "bs_fresh st1 \<le> n" using build_groups_fresh [OF st1(2)] Cons(3) by simp
  from build_group_rename [OF X R st1(1) this] show ?case using Cons(1) [OF st1(2) Cons(3)] by (simp add: proceed_Inr)
qed simp

section \<open>Edges\<close>

lemma all_checked_rename:
  assumes "\<And>x y. f x = Inr y \<Longrightarrow> f' x = Inr (h y)"
  shows "all_checked f xs = Inr ys \<Longrightarrow> all_checked f' xs = Inr (map h ys)"
  using assms by (auto simp: all_checked_Inr list_all2_conv_all_nth)

lemma resolve_name_rename:
  assumes R: "renames X fresh fresh' n \<sigma> \<rho>" and "resolve_name X names s e m = Inr y"
  shows "resolve_name X (map (apsnd \<sigma>) names) (\<sigma> s) (\<sigma> e) m = Inr (\<rho> y)"
proof -
  have "map_of (map (apsnd \<sigma>) names) m = map_option \<sigma> (map_of names m)" by (simp add: apsnd_def map_prod_def map_of_map)
  then show ?thesis using assms(2) by (auto simp: resolve_name_def renamesD(2) [OF R] split: option.splits if_splits)
qed

lemma proto_edge_rename:
  assumes R: "renames X fresh fresh' n \<sigma> \<rho>" and "proto_edge X names s e label i pe = Inr d" and "be_uuid_text X i' = \<rho> (be_uuid_text X i)"
  shows "proto_edge X (map (apsnd \<sigma>) names) (\<sigma> s) (\<sigma> e) label i' pe = Inr (rename_edge \<rho> d)"
proof -
  obtain ss ts gs where a: "all_checked (resolve_name X names s e) (pe_sources pe) = Inr ss" "all_checked (resolve_name X names s e) (pe_targets pe) = Inr ts"
    "(case pe_gate pe of None \<Rightarrow> Inr [] | Some g \<Rightarrow> and_then (project_gate_proto X label g) (\<lambda>gt. Inr [gt])) = Inr gs"
    "d = \<lparr> ge_id = be_uuid_text X i, ge_sources = ss, ge_targets = ts, ge_kind = edge_kind_to_proto (pe_kind pe), ge_gates = gs \<rparr>"
    using assms(2) by (auto simp: proto_edge_def and_then_Inr)
  have c: "all_checked (resolve_name X names s e) ns = Inr ys
      \<Longrightarrow> all_checked (resolve_name X (map (apsnd \<sigma>) names) (\<sigma> s) (\<sigma> e)) ns = Inr (map \<rho> ys)" for ns ys
    by (rule all_checked_rename [OF resolve_name_rename [OF R]])
  show ?thesis using c [OF a(1)] c [OF a(2)] a(3,4) assms(3) by (simp add: proto_edge_def and_then_Inr rename_edge_def)
qed

lemma proto_edges_rename:
  assumes R: "renames X fresh fresh' n \<sigma> \<rho>"
  shows "proto_edges X fresh names s e label k es = Inr ds \<Longrightarrow> k + length ds \<le> n
    \<Longrightarrow> proto_edges X fresh' (map (apsnd \<sigma>) names) (\<sigma> s) (\<sigma> e) label k es = Inr (map (rename_edge \<rho>) ds)"
proof (induction es arbitrary: k ds)
  case (Cons pe es)
  obtain d ds' where d: "ds = d # ds'" "proto_edge X names s e label (fresh k) pe = Inr d" "proto_edges X fresh names s e label (Suc k) es = Inr ds'"
    using Cons(2) by (auto simp: and_then_Inr)
  have "proto_edge X (map (apsnd \<sigma>) names) (\<sigma> s) (\<sigma> e) label (fresh' k) pe = Inr (rename_edge \<rho> d)"
    by (rule proto_edge_rename [OF R d(2)]) (rule renamesD(4) [OF R], use Cons(3) d(1) in simp)
  then show ?case using Cons(1) [OF d(3)] Cons(3) d(1) by (simp add: and_then_Inr)
qed simp

lemma chain_edges_rename:
  assumes R: "renames X fresh fresh' n \<sigma> \<rho>"
  shows "k + length (chain_edges X fresh k ids) \<le> n \<Longrightarrow> chain_edges X fresh' k (map \<sigma> ids) = map (rename_edge \<rho>) (chain_edges X fresh k ids)"
proof (induction ids arbitrary: k rule: induct_list012)
  case (3 a b ids)
  have "be_uuid_text X (fresh' k) = \<rho> (be_uuid_text X (fresh k))" by (rule renamesD(4) [OF R]) (use 3(3) in simp)
  moreover have "chain_edges X fresh' (Suc k) (map \<sigma> (b # ids)) = map (rename_edge \<rho>) (chain_edges X fresh (Suc k) (b # ids))"
    by (rule 3(2)) (use 3(3) in simp)
  ultimately show ?case by (simp add: rename_edge_def renamesD(2) [OF R])
qed simp_all

lemma all_edges_rename:
  assumes R: "renames X fresh fresh' n \<sigma> \<rho>"
  shows "all_edges X fresh names s e label k gs = Inr es \<Longrightarrow> k + length es \<le> n
    \<Longrightarrow> all_edges X fresh' (map (apsnd \<sigma>) names) (\<sigma> s) (\<sigma> e) label k (map (apsnd (map \<sigma>)) gs) = Inr (map (rename_edge \<rho>) es)"
proof (induction gs arbitrary: k es)
  case (Cons p gs)
  obtain g ids where p: "p = (g, ids)" by fastforce
  obtain ds fs where d: "(if pgr_edges g = [] then Inr (chain_edges X fresh k ids) else proto_edges X fresh names s e label k (pgr_edges g)) = Inr ds"
    "all_edges X fresh names s e label (k + length ds) gs = Inr fs" "es = ds @ fs" using Cons(2) p by (auto simp: and_then_Inr)
  have "k + length ds \<le> n" using Cons(3) d(3) by simp
  then have "(if pgr_edges g = [] then Inr (chain_edges X fresh' k (map \<sigma> ids))
      else proto_edges X fresh' (map (apsnd \<sigma>) names) (\<sigma> s) (\<sigma> e) label k (pgr_edges g)) = Inr (map (rename_edge \<rho>) ds)"
    using d(1) chain_edges_rename [OF R, of k ids] proto_edges_rename [OF R, of names s e label k "pgr_edges g" ds] by (auto split: if_splits)
  then show ?case using Cons(1) [OF d(2)] Cons(3) d(3) p by (simp add: and_then_Inr)
qed simp

lemma unsealed_graph_rename:
  assumes R: "renames X fresh fresh' n \<sigma> \<rho>" and u: "unsealed_graph X fresh w st = Inr (g, k)" and n: "k \<le> n"
  shows "unsealed_graph X fresh' w (rename_state \<sigma> \<rho> st) = Inr (rename_graph \<rho> g, k)"
proof -
  let ?k = "bs_fresh st"
  obtain es where es: "all_edges X fresh (bs_names st) (fresh ?k) (fresh (?k + 1)) (pw_name w) (?k + 2) (zip (pw_tasks w) (bs_groups st)) = Inr es"
    "k = ?k + 2 + length es" and g: "g = \<lparr> tg_nodes = graph_nodes X (fresh ?k) (fresh (?k + 1)) (bs_tasks st), tg_edges = es,
        tg_start = be_uuid_text X (fresh ?k), tg_end = be_uuid_text X (fresh (?k + 1)) \<rparr>"
    using u by (auto simp: unsealed_graph_def Let_def and_then_Inr)
  have f: "fresh' ?k = \<sigma> (fresh ?k)" "fresh' (?k + 1) = \<sigma> (fresh (?k + 1))" using renamesD(3) [OF R] es(2) n by simp_all
  have z: "zip (pw_tasks w) (map (map \<sigma>) (bs_groups st)) = map (apsnd (map \<sigma>)) (zip (pw_tasks w) (bs_groups st))"
    by (simp add: zip_map2 apsnd_def map_prod_def)
  have "graph_nodes X (\<sigma> (fresh ?k)) (\<sigma> (fresh (?k + 1))) (map (rename_task \<rho>) (bs_tasks st))
      = map (\<lambda>m. m\<lparr> gn_id := \<rho> (gn_id m) \<rparr>) (graph_nodes X (fresh ?k) (fresh (?k + 1)) (bs_tasks st))"
    by (simp add: graph_nodes_def renamesD(2) [OF R] comp_def)
  then show ?thesis using all_edges_rename [OF R es(1)] es(2) n f z
    by (simp add: unsealed_graph_def rename_state_def Let_def and_then_Inr g rename_graph_def renamesD(2) [OF R])
qed

section \<open>The last phases\<close>

text \<open>A task without its identifier and without the edges its signal inputs were resolved to.\<close>

fun erase_gate :: "input_source \<Rightarrow> input_source" where
  "erase_gate (SignalSource name _) = SignalSource name []"
| "erase_gate s = s"

definition task_core :: "task_definition \<Rightarrow> task_definition" where
  "task_core t = t\<lparr> td_id := [], td_input_sources := map_option (map (map_option (map_option erase_gate))) (td_input_sources t) \<rparr>"

lemma task_core_rename [simp]: "task_core (rename_task \<rho> t) = task_core t"
  by (simp add: task_core_def rename_task_def)

lemma patch_slots_erase: "map (map_option (map_option erase_gate)) (patch_slots r slots) = map (map_option (map_option erase_gate)) slots"
proof -
  have "(map (map_option (map_option erase_gate)) slots)[i := Some (Some (SignalSource name []))] = map (map_option (map_option erase_gate)) slots"
    if "i < length slots" "slots ! i = Some (Some (SignalSource name gate))" for i name gate
    using that by (metis (no_types, lifting) erase_gate.simps(1) list_update_id map_update option.map(2))
  then show ?thesis by (auto simp: patch_slots_def map_update split: option.splits input_source.splits)
qed

lemma patch_task_core: "map task_core (patch_task r ts) = map task_core ts \<and> map td_id (patch_task r ts) = map td_id ts"
  by (induction ts) (auto simp: task_core_def option.map_comp comp_def patch_slots_erase)

lemma fold_patch_core: "map task_core (fold patch_task rs ts) = map task_core ts \<and> map td_id (fold patch_task rs ts) = map td_id ts"
  by (induction rs arbitrary: ts) (simp_all add: patch_task_core)

lemma signal_resolution_rename:
  assumes R: "renames X fresh fresh' n \<sigma> \<rho>" and a: "apply_signal_resolution X g ts = Some (Inr us)"
  shows "\<exists>us'. apply_signal_resolution X (rename_graph \<rho> g) (map (rename_task \<rho>) ts) = Some (Inr us')
    \<and> map task_core us' = map task_core us \<and> map td_id us' = map (\<rho> \<circ> td_id) us"
proof -
  obtain rs where rs: "resolve_signal_input_sources (be_parse_uuid X) ts g = Some (Inr rs)" "us = fold patch_task rs ts"
    using a by (auto simp: apply_signal_resolution_def split: option.splits sum.splits)
  obtain rs' where rs': "resolve_signal_input_sources (be_parse_uuid X) (map (rename_task \<rho>) ts) (rename_graph \<rho> g) = Some (Inr rs')"
    using resolve_sources_rename [OF renamesD(1) [OF R] rs(1), of "map (rename_task \<rho>) ts"] by (auto simp: comp_def)
  have "map (\<rho> \<circ> td_id) us = map \<rho> (map td_id us)" by simp
  then show ?thesis using rs' fold_patch_core [of rs ts] fold_patch_core [of rs' "map (rename_task \<rho>) ts"]
    by (simp add: apply_signal_resolution_def rs(2) comp_def del: map_map) (simp add: comp_def)
qed

lemma check_source_ok:
  "check_source g body var name p src = Some (Inr ()) \<longleftrightarrow> (case body of Some b \<Rightarrow> src \<in> b | None \<Rightarrow> False) \<or> task_dominates g p src"
proof -
  obtain r where r: "validate_task_dominates g p src = Some r" using validate_task_dominates_total by blast
  then have "r = Inr () \<longleftrightarrow> task_dominates g p src" using validate_task_dominates_iff [of g p src] by simp
  then show ?thesis using r by (cases r) (auto simp: check_source_def)
qed

lemma check_gate_rename:
  assumes R: "renames X fresh fresh' n \<sigma> \<rho>" and b: "bodies_of g bodies" "bodies_of (rename_graph \<rho> g) bodies'"
    and c: "check_gate X ps names g bodies e gt = Some (Inr ())"
  shows "check_gate X ps (map (apsnd \<sigma>) names) (rename_graph \<rho> g) bodies' (rename_edge \<rho> e) gt = Some (Inr ())"
proof (cases "\<exists>ph. gt = Some (PredicateHolds ph)")
  case True
  then obtain ph where ph: "gt = Some (PredicateHolds ph)" by blast
  note r = renamesD(1) [OF R]
  obtain m i where m: "map_of ps (ph_routing_var ph) = Some m" "map_of names m = Some i"
    using c ph by (auto simp: check_gate_def Let_def split: option.splits)
  have names: "map_of (map (apsnd \<sigma>) names) m = Some (\<sigma> i)" using m(2) by (simp add: apsnd_def map_prod_def map_of_map)
  have find: "find (\<lambda>b. \<rho> p \<in> b) bodies' = map_option ((`) \<rho>) (find (\<lambda>b. p \<in> b) bodies)" for p
    by (simp add: find_body [OF b(1)] find_body [OF b(2)] cyclic_rename [OF r] loop_body_rename [OF r])
  show ?thesis using c m names r
    by (auto simp: ph check_gate_def Let_def all_ok_Inr renamesD(2) [OF R] find check_source_ok dominates_rename [OF r] split: option.splits)
next
  case False
  then show ?thesis by (auto simp: check_gate_def split: option.splits gate_kind.splits)
qed

lemma predicate_gates_rename:
  assumes R: "renames X fresh fresh' n \<sigma> \<rho>" and v: "validate_predicate_gate_dominators_proto X w names g = Some (Inr ())"
  shows "validate_predicate_gate_dominators_proto X w (map (apsnd \<sigma>) names) (rename_graph \<rho> g) = Some (Inr ())"
proof -
  obtain bodies where b: "loop_sccs g = Some bodies" "bodies_of g bodies" by (rule loop_sccs_bodies)
  obtain bodies' where b': "loop_sccs (rename_graph \<rho> g) = Some bodies'" "bodies_of (rename_graph \<rho> g) bodies'" by (rule loop_sccs_bodies)
  show ?thesis using v check_gate_rename [OF R b(2) b'(2)]
    by (simp add: validate_predicate_gate_dominators_proto_def b(1) b'(1) all_ok_Inr)
qed

lemma build_trigger_rename: "map task_core us' = map task_core us \<Longrightarrow> build_trigger X w us' = build_trigger X w us"
proof -
  assume a: "map task_core us' = map task_core us"
  have o: "map td_outputs ts = map td_outputs (map task_core ts)" for ts by (simp add: task_core_def)
  have "map td_outputs us' = map td_outputs us" unfolding o [of us] o [of us'] a ..
  then have "validate_captures_with_outputs X cs us' = validate_captures_with_outputs X cs us" for cs by (simp add: validate_captures_with_outputs_def)
  then show ?thesis by (auto simp: build_trigger_def split: option.splits parsed_trigger_config.splits)
qed

text \<open>Two definitions with the same content: they differ in the identifiers of tasks, nodes and edges.\<close>

definition same_content :: "(string \<Rightarrow> string) \<Rightarrow> workflow_definition \<Rightarrow> workflow_definition \<Rightarrow> bool" where
  "same_content \<rho> d d' \<longleftrightarrow> map task_core (wd_tasks d') = map task_core (wd_tasks d) \<and> map td_id (wd_tasks d') = map (\<rho> \<circ> td_id) (wd_tasks d)
     \<and> wd_task_graph d' = map_option (rename_graph \<rho>) (wd_task_graph d)
     \<and> d'\<lparr> wd_tasks := [], wd_task_graph := None \<rparr> = d\<lparr> wd_tasks := [], wd_task_graph := None \<rparr>"

lemma close_definition_rename:
  assumes R: "renames X fresh fresh' n \<sigma> \<rho>" and c: "close_definition X fresh w names k d = Some (Inr e)"
    and g: "wd_task_graph d = Some g" and g': "wd_task_graph e = Some h" and n: "k + length (tg_edges h) \<le> n + length (tg_edges g)"
  shows "\<exists>e'. close_definition X fresh' w (map (apsnd \<sigma>) names) k (d\<lparr> wd_tasks := map (rename_task \<rho>) (wd_tasks d), wd_task_graph := Some (rename_graph \<rho> g) \<rparr>)
      = Some (Inr e') \<and> same_content \<rho> e e'"
proof -
  let ?d' = "d\<lparr> wd_tasks := map (rename_task \<rho>) (wd_tasks d), wd_task_graph := Some (rename_graph \<rho> g) \<rparr>"
  let ?f = "\<lambda>j. be_uuid_text X (fresh (k + j))" and ?f' = "\<lambda>j. be_uuid_text X (fresh' (k + j))"
  obtain m where m: "seal ?f (from_definition d) = Some m" using c by (auto simp: close_definition_def split: option.splits)
  obtain tasks u where a: "apply_signal_resolution X (pg_graph m) (wd_tasks d) = Some (Inr tasks)"
    and p: "validate_predicate_gate_dominators_proto X w names (pg_graph m) = Some (Inr u)" using c m by (auto simp: close_definition_def Let_def proceed_Inr)
  obtain trigger where t: "validate_loop_terminability (pg_graph m) = Some (Inr ())" and tr: "build_trigger X w tasks = Inr trigger"
    and e: "e = d\<lparr> wd_tasks := tasks, wd_task_graph := Some (pg_graph m), wd_captures := map to_proto_capture (pw_captures w), wd_trigger := Some trigger \<rparr>"
    using c m a p by (auto simp: close_definition_def Let_def proceed_Inr split: option.splits sum.splits)
  have h: "pg_graph m = h" using g' e by simp
  have p0: "pg_graph (from_definition d) = g" "pg_task_ids (from_definition d) = map td_id (wd_tasks d)" using g by (simp_all add: from_definition_def)
  obtain m' where m': "seal ?f' (from_definition ?d') = Some m'" "pg_graph m' = rename_graph \<rho> h"
    using seal_rename [OF renamesD(1) [OF R] m, of ?f' "from_definition ?d'"] renamesD(4) [OF R] n p0 h
    by (auto simp: from_definition_def comp_def)
  obtain tasks' where a': "apply_signal_resolution X (rename_graph \<rho> h) (map (rename_task \<rho>) (wd_tasks d)) = Some (Inr tasks')"
    "map task_core tasks' = map task_core tasks" "map td_id tasks' = map (\<rho> \<circ> td_id) tasks" using signal_resolution_rename [OF R a] h by auto
  have "validate_predicate_gate_dominators_proto X w (map (apsnd \<sigma>) names) (rename_graph \<rho> h) = Some (Inr ())"
    using predicate_gates_rename [OF R, of w names h] p h by simp
  moreover have "validate_loop_terminability (rename_graph \<rho> h) = Some (Inr ())" using terminability_rename [OF renamesD(1) [OF R]] t h by simp
  moreover have "build_trigger X w tasks' = Inr trigger" using build_trigger_rename [OF a'(2), of X w] tr by simp
  ultimately show ?thesis using m' a' by (simp add: close_definition_def Let_def proceed_Inr same_content_def e h)
qed

lemma close_definition_sizes:
  assumes "close_definition X fresh w names k d = Some (Inr d')" and "wd_task_graph d = Some g"
  shows "\<exists>es. wd_task_graph d' = Some (extended g es) \<and> length (wd_tasks d') = length (wd_tasks d)"
  by (rule close_definition_Inr [OF assms]) (use apply_signal_resolution_length in fastforce)

lemma parse_rename:
  assumes X: "uuid_texts X" and R: "renames X fresh fresh' (minted d) \<sigma> \<rho>" and p: "parse_workflow_from_json_for_tenant X fresh json tenant ns0 = Some (Inr d)"
  shows "\<exists>d'. parse_workflow_from_json_for_tenant X fresh' json tenant ns0 = Some (Inr d') \<and> same_content \<rho> d d'"
proof -
  let ?st0 = "\<lparr> bs_tasks = [], bs_names = [], bs_groups = [], bs_fresh = 0 \<rparr>"
  let ?d0 = "\<lambda>w ns i timeout tasks g. \<lparr> wd_id = be_uuid_text X i, wd_tenant_id = be_uuid_text X tenant, wd_namespace = ns, wd_slug = pw_slug w,
         wd_name = pw_name w, wd_version = 0, wd_tasks = tasks, wd_task_graph = Some g, wd_trigger = None,
         wd_status = WORKFLOW_STATUS_INACTIVE, wd_captures = [], wd_timeout_secs = timeout, wd_tags = pw_tags w \<rparr>"
  obtain w ns i timeout st g k where a: "admit_workflow X json tenant ns0 = Inr (w, ns, i, timeout)"
    and b: "build_groups X fresh i (pw_tasks w) ?st0 = Some (Inr st)" and u: "unsealed_graph X fresh w st = Inr (g, k)"
    and c: "close_definition X fresh w (bs_names st) k (?d0 w ns i timeout (bs_tasks st) g) = Some (Inr d)"
    using p by (auto simp: parse_workflow_from_json_for_tenant_def proceed_Inr)
  obtain es where d: "wd_task_graph d = Some (extended g es)" "length (wd_tasks d) = length (bs_tasks st)"
    using close_definition_sizes [OF c, of g] by auto
  have "built X fresh ([] @ concat (map pgr_tasks (pw_tasks w))) st" by (rule build_groups_built [OF X _ b]) (simp add: built_def)
  note B = this
  have len: "length (wd_tasks d) = bs_fresh st" using d(2) B map_eq_imp_length_eq [of td_id "bs_tasks st" "fresh_text X fresh" "[0..<bs_fresh st]"] by (simp add: built_def)
  have k: "k = bs_fresh st + 2 + length (tg_edges g)" by (rule unsealed_graph_Inr(4) [OF B u])
  have n: "minted d = k + length es" using len k d(1) by (simp add: minted_def)
  have "build_groups X fresh' i (pw_tasks w) ?st0 = Some (Inr (rename_state \<sigma> \<rho> st))"
    using build_groups_rename [OF X R b] n k by (simp add: rename_state_def)
  moreover have "unsealed_graph X fresh' w (rename_state \<sigma> \<rho> st) = Inr (rename_graph \<rho> g, k)" by (rule unsealed_graph_rename [OF R u]) (use n in simp)
  moreover obtain d' where "close_definition X fresh' w (map (apsnd \<sigma>) (bs_names st)) k (?d0 w ns i timeout (map (rename_task \<rho>) (bs_tasks st)) (rename_graph \<rho> g)) = Some (Inr d')"
    "same_content \<rho> d d'" using close_definition_rename [OF R c, of g "extended g es"] n by (auto simp: d)
  ultimately show ?thesis using a by (auto simp: parse_workflow_from_json_for_tenant_def proceed_Inr rename_state_def)
qed

section \<open>The permutation of two runs\<close>

lemma extend_to_bij:
  fixes f g :: "nat \<Rightarrow> 'a :: finite"
  assumes "inj_on f {..<n}" "inj_on g {..<n}"
  shows "\<exists>\<sigma>. bij \<sigma> \<and> (\<forall>k < n. g k = \<sigma> (f k))"
proof -
  let ?A = "f ` {..<n}" and ?B = "g ` {..<n}" and ?h = "\<lambda>x. g (the_inv_into {..<n} f x)"
  have h: "bij_betw ?h ?A ?B"
    using bij_betw_trans [OF bij_betw_the_inv_into [OF inj_on_imp_bij_betw [OF assms(1)]] inj_on_imp_bij_betw [OF assms(2)]] by (simp add: comp_def)
  have "card (- ?A) = card (- ?B)" using bij_betw_same_card [OF h] by (simp add: Compl_eq_Diff_UNIV card_Diff_subset)
  then obtain c where c: "bij_betw c (- ?A) (- ?B)" using finite_same_card_bij [of "- ?A" "- ?B"] by auto
  define \<sigma> where "\<sigma> = (\<lambda>x. if x \<in> ?A then ?h x else c x)"
  have "bij_betw \<sigma> ?A ?B" using h by (rule bij_betw_cong [THEN iffD1, rotated]) (simp add: \<sigma>_def)
  moreover have "bij_betw \<sigma> (- ?A) (- ?B)" using c by (rule bij_betw_cong [THEN iffD1, rotated]) (auto simp: \<sigma>_def)
  ultimately have "bij_betw \<sigma> (?A \<union> - ?A) (?B \<union> - ?B)" by (rule bij_betw_combine) auto
  moreover have "?A \<union> - ?A = UNIV" "?B \<union> - ?B = UNIV" by (rule Compl_partition)+
  ultimately have "bij \<sigma>" by simp
  moreover have "g k = \<sigma> (f k)" if "k < n" for k
  proof -
    have "f k \<in> ?A" "the_inv_into {..<n} f (f k) = k" using that the_inv_into_f_f [OF assms(1), of k] by simp_all
    then show ?thesis by (simp only: \<sigma>_def if_True)
  qed
  ultimately show ?thesis by blast
qed

lemma lift_to_texts:
  assumes X: "uuid_texts X" and s: "bij \<sigma>"
  shows "\<exists>\<rho>. bij \<rho> \<and> (\<forall>i. be_uuid_text X (\<sigma> i) = \<rho> (be_uuid_text X i))"
proof -
  let ?R = "range (be_uuid_text X)"
  define \<rho> where "\<rho> = (\<lambda>t. if t \<in> ?R then be_uuid_text X (\<sigma> (the (be_parse_uuid X t))) else t)"
  have e: "\<rho> (be_uuid_text X i) = be_uuid_text X (\<sigma> i)" for i using X by (simp add: \<rho>_def uuid_texts_def)
  have "inj \<rho>"
  proof (rule injI)
    fix a b assume ab: "\<rho> a = \<rho> b"
    then have "a \<in> ?R \<longleftrightarrow> b \<in> ?R" by (auto simp: \<rho>_def split: if_splits)
    then show "a = b" using ab e uuid_text_inj [OF X] bij_is_inj [OF s] by (auto simp: \<rho>_def inj_eq split: if_splits)
  qed
  moreover have "\<exists>x. y = \<rho> x" for y
  proof (cases "y \<in> ?R")
    case True
    then obtain u where "y = be_uuid_text X u" by blast
    then have "y = \<rho> (be_uuid_text X (inv \<sigma> u))" using e [of "inv \<sigma> u"] s by (simp add: bij_is_surj surj_f_inv_f)
    then show ?thesis by blast
  next
    case False
    then have "y = \<rho> y" by (simp add: \<rho>_def)
    then show ?thesis by blast
  qed
  then have "surj \<rho>" by (auto simp: surj_def)
  ultimately show ?thesis using e by (auto simp: bij_def)
qed

lemma renames_exist:
  assumes "uuid_texts X" and "v4_supply fresh n" and "v4_supply fresh' n"
  obtains \<sigma> \<rho> where "renames X fresh fresh' n \<sigma> \<rho>"
proof -
  obtain \<sigma> where s: "bij \<sigma>" "\<forall>k < n. fresh' k = \<sigma> (fresh k)" using extend_to_bij [of fresh n fresh'] assms(2,3) by (auto simp: v4_supply_def)
  obtain \<rho> where "bij \<rho>" "\<forall>i. be_uuid_text X (\<sigma> i) = \<rho> (be_uuid_text X i)" using lift_to_texts [OF assms(1) s(1)] by blast
  then have "renames X fresh fresh' n \<sigma> \<rho>" using s(2) unfolding renames_def by blast
  then show ?thesis by (rule that)
qed

end
