(* ===== verification/Workflow_Identity.thy ===== *)
theory Workflow_Identity
  imports Builder_Properties
begin

text \<open>
  The identity of a workflow (\<open>validate_identity_segment\<close> of \<^verbatim>\<open>src/src/conductor/src/parser/builder.rs\<close> and
  \<open>derive_workflow_id\<close> of \<^verbatim>\<open>src/src/proto/src/tenant.rs\<close>): the text that \<open>Uuid::new_v5\<close> hashes determines
  the tenant, the namespace and the slug, because none of the three contains the separator.
\<close>

text \<open>The text of an identifier has no dot (it is hyphenated).\<close>

definition dotless_uuids :: "'n build_externals \<Rightarrow> bool" where
  "dotless_uuids X \<longleftrightarrow> (\<forall>u. CHR ''.'' \<notin> set (be_uuid_text X u))"

lemma identity_segment_Inr:
  "validate_identity_segment s what = Inr u \<longleftrightarrow> s \<noteq> [] \<and> length s \<le> 64 \<and> list_all identity_char s"
proof -
  have "chars_count s = length s" if "list_all identity_char s"
  proof -
    have "\<not> (128 \<le> (of_char c :: nat) \<and> (of_char c :: nat) < 192)" if "c \<in> set s" for c
      using \<open>list_all identity_char s\<close> that by (auto simp: list_all_iff identity_char_def is_ascii_digit_def)
    then show ?thesis unfolding chars_count_def by (metis (no_types, lifting) filter_True)
  qed
  then show ?thesis by (auto simp: validate_identity_segment_def Suc_le_eq)
qed

lemma identity_char_no_dot: "list_all identity_char s \<Longrightarrow> CHR ''.'' \<notin> set s"
  by (auto simp: list_all_iff identity_char_def is_ascii_digit_def)

lemma admit_workflow_Inr:
  assumes "admit_workflow X json tenant ns0 = Inr (w, ns, i, timeout)"
  shows "list_all identity_char ns" "list_all identity_char (pw_slug w)" "i = derive_workflow_id X tenant ns (pw_slug w)"
    "ns = (if is_blank ns0 then ''default'' else ns0)"
  using assms by (auto simp: admit_workflow_def Let_def and_then_Inr identity_segment_Inr split: sum.splits if_splits)

lemma separated_eq:
  assumes "x \<notin> set a" "x \<notin> set b"
  shows "a @ x # c = b @ x # d \<longleftrightarrow> a = b \<and> c = d"
  using assms
proof (induction a arbitrary: b)
  case Nil
  then show ?case by (cases b) auto
next
  case (Cons y a)
  then show ?case by (cases b) auto
qed

lemma identity_seed_eq:
  assumes "dotless_uuids X" "CHR ''.'' \<notin> set ns" "CHR ''.'' \<notin> set ns'"
  shows "identity_seed X t ns s = identity_seed X t' ns' s' \<longleftrightarrow> be_uuid_text X t = be_uuid_text X t' \<and> ns = ns' \<and> s = s'"
  using assms separated_eq [of "CHR ''.''" "be_uuid_text X t" "be_uuid_text X t'"] separated_eq [of "CHR ''.''" ns ns' s s']
  by (simp add: identity_seed_def dotless_uuids_def)

lemma parse_identity:
  assumes X: "uuid_texts X" and p: "parse_workflow_from_json_for_tenant X fresh json tenant ns0 = Some (Inr d)"
  shows "wd_id d = be_uuid_text X (derive_workflow_id X tenant (wd_namespace d) (wd_slug d))" "CHR ''.'' \<notin> set (wd_namespace d)"
proof -
  obtain w ns i timeout st g k d0 where a: "admit_workflow X json tenant ns0 = Inr (w, ns, i, timeout)" "built X fresh (all_tasks w) st"
    "unsealed_graph X fresh w st = Inr (g, k)" and c: "close_definition X fresh w (bs_names st) k d0 = Some (Inr d)" "wd_task_graph d0 = Some g"
    and d0: "wd_tasks d0 = bs_tasks st" "wd_tags d0 = pw_tags w" "wd_id d0 = be_uuid_text X i" "wd_namespace d0 = ns" "wd_slug d0 = pw_slug w"
    by (rule parse_Inr [OF X p])
  obtain tasks g' cs tr where "d = d0\<lparr> wd_tasks := tasks, wd_task_graph := g', wd_captures := cs, wd_trigger := tr \<rparr>"
    using close_definition_Inr [OF c] by metis
  then show "wd_id d = be_uuid_text X (derive_workflow_id X tenant (wd_namespace d) (wd_slug d))" "CHR ''.'' \<notin> set (wd_namespace d)"
    using d0 admit_workflow_Inr(1,3) [OF a(1)] identity_char_no_dot by simp_all
qed

section \<open>Properties\<close>

text \<open>C36. The identifier of an accepted definition is derived from its tenant, namespace and slug, and the text
  it is derived from is the same for two accepted definitions only when all three agree: no pair of
  tenants, namespaces or slugs shares a preimage.\<close>

theorem workflow_identity_injective:
  assumes "uuid_texts X" and "dotless_uuids X"
    and "parse_workflow_from_json_for_tenant X fresh json tenant ns0 = Some (Inr d)"
    and "parse_workflow_from_json_for_tenant X fresh' json' tenant' ns0' = Some (Inr d')"
  shows "wd_id d = be_uuid_text X (be_new_v5 X NAMESPACE_OID (identity_seed X tenant (wd_namespace d) (wd_slug d)))
    \<and> (identity_seed X tenant (wd_namespace d) (wd_slug d) = identity_seed X tenant' (wd_namespace d') (wd_slug d')
        \<longleftrightarrow> tenant = tenant' \<and> wd_namespace d = wd_namespace d' \<and> wd_slug d = wd_slug d')"
  using parse_identity [OF assms(1,3)] parse_identity [OF assms(1,4)] uuid_text_inj [OF assms(1)]
  by (simp add: identity_seed_eq [OF assms(2)] derive_workflow_id_def)

end
