(* ===== verification/Builder_Demo.thy ===== *)
theory Builder_Demo
  imports Workflow_Identity
begin

text \<open>
  The builder run on one workflow: three tasks in one group, where \<open>plan\<close> decides whether \<open>apply\<close> runs, and
  \<open>report\<close> waits for a signal and reads it. The functions of \<open>uuid\<close>, \<open>serde_json\<close> and \<open>serde_json_path\<close>
  are concrete; an identifier is written as that many letters.
\<close>

definition demo_task :: "string \<Rightarrow> int parsed_task" where
  "demo_task n = \<lparr> pt_name = n, pt_args = [], pt_nix_expression_path = Some ''task.nix'', pt_outputs = [], pt_inputs = [],
     pt_secrets = [], pt_max_attempts = None, pt_routing_vars = [], pt_emits = [], pt_timeout = Some ''5s'' \<rparr>"

definition demo_signal :: parsed_signal_ref where
  "demo_signal = \<lparr> psr_name = ''done'' \<rparr>"

definition demo_tasks :: "int parsed_task list" where
  "demo_tasks =
     [(demo_task ''plan'')\<lparr> pt_routing_vars := [\<lparr> prv_name = ''go'', prv_kind = None, prv_var_type = None \<rparr>] \<rparr>,
      demo_task ''apply'',
      (demo_task ''report'')\<lparr> pt_inputs := [Structured ''payload'' (PSignal (JObject [(''signal'', JObject [(''name'', JString ''done'')])]))] \<rparr>]"

definition demo_edges :: "int parsed_edge list" where
  "demo_edges =
     [\<lparr> pe_sources = [''plan''], pe_targets = [''apply''], pe_kind = None,
        pe_gate = Some (PredicateGate \<lparr> ppg_routing_var = ''go'', ppg_op = ''Eq'', ppg_value = JBool True, ppg_timeout = None \<rparr>) \<rparr>,
      \<lparr> pe_sources = [''apply''], pe_targets = [''report''], pe_kind = None,
        pe_gate = Some (SignalGate \<lparr> psg_signal = demo_signal, psg_predicate = None, psg_captures = [], psg_timeout = None \<rparr>) \<rparr>]"

definition demo_workflow :: "int parsed_workflow" where
  "demo_workflow = \<lparr> pw_slug = ''demo'', pw_name = ''Demo'', pw_args = [], pw_outputs = [],
     pw_tasks = [\<lparr> pgr_name = ''main'', pgr_tasks = demo_tasks, pgr_args = [], pgr_outputs = [], pgr_edges = demo_edges, pgr_max_iterations = None \<rparr>],
     pw_captures = [], pw_tags = [], pw_trigger_on = None, pw_timeout = None \<rparr>"

definition demo_build :: "int build_externals" where
  "demo_build = \<lparr> be_from_str = (\<lambda>_. Inr demo_workflow), be_jsonpath = (\<lambda>_. None), be_as_i64 = Some,
     be_uuid_text = (\<lambda>u. replicate (unat u) (CHR ''u'')), be_parse_uuid = (\<lambda>s. Some (of_nat (length s))),
     be_new_v5 = (\<lambda>_ _. 3) \<rparr>"

definition demo_fresh :: "nat \<Rightarrow> uuid" where
  "demo_fresh k = of_nat (Suc k)"

definition demo_definition :: "workflow_definition checked option" where
  "demo_definition = parse_workflow_from_json_for_tenant demo_build demo_fresh ''{}'' 2 ''main''"

lemma demo_uuid_texts: "uuid_texts demo_build"
  by (simp add: uuid_texts_def demo_build_def)

lemma demo_supply:
  assumes "n \<le> 100"
  shows "v4_supply demo_fresh n"
  unfolding v4_supply_def demo_fresh_def
proof (rule inj_onI)
  fix x y assume "x \<in> {..<n}" "y \<in> {..<n}" and e: "(of_nat (Suc x) :: uuid) = of_nat (Suc y)"
  then have "Suc x < 2 ^ 128" "Suc y < 2 ^ 128" using assms by simp_all
  then show "x = y" using e by (simp add: word_of_nat_eq_iff take_bit_nat_eq_self del: of_nat_Suc)
qed

text \<open>The workflow is accepted, with a gate on a routing variable and a signal input.\<close>

definition gated :: "task_graph \<Rightarrow> bool" where
  "gated g \<longleftrightarrow> list_ex (\<lambda>e. list_ex (\<lambda>gt. case gt of Some (PredicateHolds _) \<Rightarrow> True | _ \<Rightarrow> False) (ge_gates e)) (tg_edges g)"

definition demo_ok :: "workflow_definition \<Rightarrow> bool" where
  "demo_ok d \<longleftrightarrow> minted d \<le> 50 \<and> distinct (map td_name (wd_tasks d))
     \<and> list_ex (\<lambda>t. td_input_sources t \<noteq> None) (wd_tasks d) \<and> (case wd_task_graph d of Some g \<Rightarrow> gated g | None \<Rightarrow> False)"

lemma demo_accepted: "case demo_definition of Some (Inr d) \<Rightarrow> demo_ok d | _ \<Rightarrow> False"
  by code_simp

lemma demo_definition_accepted:
  obtains d g where "parse_workflow_from_json_for_tenant demo_build demo_fresh ''{}'' 2 ''main'' = Some (Inr d)" "wd_task_graph d = Some g"
    "v4_supply demo_fresh (minted d)" "distinct (map td_name (wd_tasks d))" "gated g" "minted d \<le> 50"
proof -
  obtain d where d: "demo_definition = Some (Inr d)" "demo_ok d" using demo_accepted by (auto split: option.splits sum.splits)
  then obtain g where "wd_task_graph d = Some g" "gated g" by (auto simp: demo_ok_def split: option.splits)
  then show ?thesis using that d demo_supply [of "minted d"] by (simp add: demo_definition_def demo_ok_def)
qed

section \<open>Witnesses\<close>

theorem accepted_definition_well_formed_witness:
  "\<exists>d g. parse_workflow_from_json_for_tenant demo_build demo_fresh ''{}'' 2 ''main'' = Some (Inr d) \<and> wd_task_graph d = Some g
     \<and> gated g \<and> well_formed_graph (wd_tasks d) g"
proof (rule demo_definition_accepted)
  fix d g assume a: "parse_workflow_from_json_for_tenant demo_build demo_fresh ''{}'' 2 ''main'' = Some (Inr d)" "wd_task_graph d = Some g"
    "v4_supply demo_fresh (minted d)" "gated g"
  then show ?thesis using accepted_definition_well_formed [OF demo_uuid_texts a(1,3)] by auto
qed

theorem accepted_gates_decided_witness:
  "\<exists>d g. parse_workflow_from_json_for_tenant demo_build demo_fresh ''{}'' 2 ''main'' = Some (Inr d) \<and> gated g
     \<and> (\<forall>t \<in> set (wd_tasks d). signals_bound g t)
     \<and> (\<forall>e \<in> set (tg_edges g). \<forall>ph. Some (PredicateHolds ph) \<in> set (ge_gates e) \<longrightarrow>
        (\<exists>t \<in> set (wd_tasks d). ph_routing_var ph \<in> rd_name ` set (td_routing_vars t)
           \<and> (\<forall>src \<in> set (ge_sources e). decided_at g (ph_routing_var ph) (td_id t) src)))"
proof (rule demo_definition_accepted)
  fix d g assume a: "parse_workflow_from_json_for_tenant demo_build demo_fresh ''{}'' 2 ''main'' = Some (Inr d)" "wd_task_graph d = Some g"
    "v4_supply demo_fresh (minted d)" "distinct (map td_name (wd_tasks d))" and g: "gated g"
  show ?thesis using accepted_gates_decided [OF demo_uuid_texts a(1,3,2)] a(1,4) g by blast
qed

text \<open>A second group that declares another task \<open>plan\<close> is accepted too. The gated edge of the first group then
  leaves that other task, which declares no routing variable.\<close>

definition demo_twice :: "int build_externals" where
  "demo_twice = demo_build\<lparr> be_from_str := \<lambda>_. Inr (demo_workflow\<lparr> pw_tasks := pw_tasks demo_workflow @
     [\<lparr> pgr_name = ''more'', pgr_tasks = [demo_task ''plan''], pgr_args = [], pgr_outputs = [], pgr_edges = [], pgr_max_iterations = None \<rparr>] \<rparr>) \<rparr>"

lemma builder_accepts_duplicate_names:
  "case parse_workflow_from_json_for_tenant demo_twice demo_fresh ''{}'' 2 ''main'' of
     Some (Inr d) \<Rightarrow> \<not> distinct (map td_name (wd_tasks d))
       \<and> (case wd_task_graph d of None \<Rightarrow> False | Some g \<Rightarrow> gated g
            \<and> list_all (\<lambda>e. list_ex (\<lambda>gt. case gt of Some (PredicateHolds _) \<Rightarrow> True | _ \<Rightarrow> False) (ge_gates e) \<longrightarrow>
                 list_all (\<lambda>t. td_id t \<in> set (ge_sources e) \<longrightarrow> td_routing_vars t = []) (wd_tasks d)) (tg_edges g))
   | _ \<Rightarrow> False"
  by code_simp

theorem builder_never_panics_witness:
  "\<exists>r. parse_workflow_from_json_for_tenant demo_build demo_fresh ''{}'' 2 ''main'' = Some r"
  by (rule builder_never_panics [OF demo_uuid_texts])

lemma demo_other_tenant:
  "case parse_workflow_from_json_for_tenant demo_build demo_fresh ''{}'' 5 ''main'' of Some (Inr d) \<Rightarrow> True | _ \<Rightarrow> False"
  by code_simp

lemma demo_dotless: "dotless_uuids demo_build"
  by (simp add: dotless_uuids_def demo_build_def)

theorem workflow_identity_injective_witness:
  "\<exists>d d'. parse_workflow_from_json_for_tenant demo_build demo_fresh ''{}'' 2 ''main'' = Some (Inr d)
     \<and> parse_workflow_from_json_for_tenant demo_build demo_fresh ''{}'' 5 ''main'' = Some (Inr d')
     \<and> identity_seed demo_build 2 (wd_namespace d) (wd_slug d) \<noteq> identity_seed demo_build 5 (wd_namespace d') (wd_slug d')"
proof (rule demo_definition_accepted)
  fix d assume a: "parse_workflow_from_json_for_tenant demo_build demo_fresh ''{}'' 2 ''main'' = Some (Inr d)"
  obtain d' where b: "parse_workflow_from_json_for_tenant demo_build demo_fresh ''{}'' 5 ''main'' = Some (Inr d')"
    using demo_other_tenant by (auto split: option.splits sum.splits)
  show ?thesis using workflow_identity_injective [OF demo_uuid_texts demo_dotless a b] a b by auto
qed

end
