(* ===== verification/Content_Properties.thy ===== *)
theory Content_Properties
  imports Content_Hash Builder_Renaming Builder_Demo
begin

text \<open>
  Registering the same source again gives the same content hash: the random identifiers of a parse do not
  reach it. This is what lets the register resolver answer a repeated registration without a new version.
\<close>

section \<open>What the hash does not see\<close>

lemma normalize_slot_erase: "normalize_slot (map_option (map_option erase_gate) s) = normalize_slot s"
  by (cases s rule: normalize_slot.cases) auto

lemma project_task_core: "project_task E (task_core t) = project_task E t"
  by (simp add: project_task_def task_core_def normalize_input_sources_def normalize_slot_erase comp_def option.case_eq_if option.map_sel)

lemma label_of_rename:
  assumes r: "bij \<rho>" and "map task_core us = map task_core ts" and "map td_id us = map (\<rho> \<circ> td_id) ts"
  shows "label_of (node_labels us (rename_graph \<rho> g)) (\<rho> i) = label_of (node_labels ts g) i"
proof -
  have names: "map td_name us = map td_name ts" using arg_cong [OF assms(2), of "map td_name"] by (simp add: task_core_def comp_def)
  have z: "map (\<lambda>t. (td_id t, td_name t)) vs = zip (map td_id vs) (map td_name vs)" for vs by (induction vs) simp_all
  have "map (\<lambda>t. (td_id t, td_name t)) us = map (\<lambda>(j, m). (\<rho> j, m)) (map (\<lambda>t. (td_id t, td_name t)) ts)"
    unfolding z names assms(3) by (simp add: zip_map1 [symmetric] case_prod_unfold zip_map1 flip: map_map)
  then have "node_labels us (rename_graph \<rho> g) = map (\<lambda>(j, m). (\<rho> j, m)) (node_labels ts g)" by (simp add: node_labels_def rev_map)
  moreover have "map_of (map (\<lambda>(j, m). (\<rho> j, m)) L) (\<rho> i) = map_of L i" for L :: "(string \<times> string) list"
    using r by (induction L) (auto simp: bij_def inj_eq)
  ultimately show ?thesis by (simp add: label_of_def)
qed

lemma same_content_rest:
  assumes "same_content \<rho> d d'"
  shows "wd_trigger d' = wd_trigger d" "wd_captures d' = wd_captures d" "wd_timeout_secs d' = wd_timeout_secs d" "wd_id d' = wd_id d"
    "wd_name d' = wd_name d" "wd_tags d' = wd_tags d"
proof -
  let ?r = "\<lambda>d. d\<lparr> wd_tasks := [], wd_task_graph := None \<rparr>"
  have e: "?r d' = ?r d" using assms unfolding same_content_def by blast
  show "wd_trigger d' = wd_trigger d" using arg_cong [OF e, of wd_trigger] by simp
  show "wd_captures d' = wd_captures d" using arg_cong [OF e, of wd_captures] by simp
  show "wd_timeout_secs d' = wd_timeout_secs d" using arg_cong [OF e, of wd_timeout_secs] by simp
  show "wd_id d' = wd_id d" using arg_cong [OF e, of wd_id] by simp
  show "wd_name d' = wd_name d" using arg_cong [OF e, of wd_name] by simp
  show "wd_tags d' = wd_tags d" using arg_cong [OF e, of wd_tags] by simp
qed

lemma project_content_same:
  assumes r: "bij \<rho>" and s: "same_content \<rho> d d'" and g: "wd_task_graph d = Some g"
  shows "project_content E d' = project_content E d"
proof -
  have t: "map task_core (wd_tasks d') = map task_core (wd_tasks d)" "map td_id (wd_tasks d') = map (\<rho> \<circ> td_id) (wd_tasks d)"
    and g': "wd_task_graph d' = Some (rename_graph \<rho> g)" using s g by (simp_all add: same_content_def)
  note rest = same_content_rest [OF s]
  have "map (project_task E) (wd_tasks d') = map (project_task E) (wd_tasks d)"
    using arg_cong [OF t(1), of "map (project_task E)"] by (simp add: project_task_core comp_def)
  moreover have "project_edge E (node_labels (wd_tasks d') (rename_graph \<rho> g)) (rename_edge \<rho> e) = project_edge E (node_labels (wd_tasks d) g) e" for e
    by (simp add: project_edge_def label_of_rename [OF r t] comp_def)
  ultimately show ?thesis using g g' rest by (simp add: project_content_def Let_def comp_def)
qed

section \<open>The order of tags\<close>

text \<open>The tags are a \<open>HashMap\<close>, whose entries come in another order each time. The cosmetic hash does not
  depend on it: \<open>serde_json\<close> makes an object of them, and the canonical text sorts its keys.\<close>

definition tags_object :: "'n content_externals \<Rightarrow> bool" where
  "tags_object E \<longleftrightarrow> (\<forall>ts. ce_tags E ts = Some (JObject (map (\<lambda>(k, v). (k, JString v)) ts)))"

lemma cosmetic_hash_tag_order:
  fixes E :: "'n content_externals"
  assumes "tags_object E" and "wd_name d' = wd_name d" and "mset (wd_tags d') = mset (wd_tags d)" and "distinct (map fst (wd_tags d))"
  shows "cosmetic_hash E d' = cosmetic_hash E d"
proof -
  have "sort_key fst (wd_tags d') = sort_key fst (wd_tags d)" using assms(3,4) by (metis sort_key_unique)
  moreover have "(\<lambda>(k, v). (k, canonical_json v)) \<circ> (\<lambda>(k, v). (k, JString v)) = (\<lambda>(k :: string, v). (k, JString v :: 'n json))" by auto
  ultimately have "write_canonical J (JObject (map (\<lambda>(k, v). (k, JString v)) (wd_tags d')))
      = write_canonical J (JObject (map (\<lambda>(k, v). (k, JString v)) (wd_tags d)))" for J :: "'n json_texts"
    by (simp add: write_plain sort_key_entries)
  then show ?thesis using assms(1,2) by (simp add: cosmetic_hash_def tags_object_def or_null_def json_hash_def)
qed

section \<open>Properties\<close>

text \<open>C10. Building the same source again, with any other fresh identifiers, succeeds again and gives a
  definition with the same identity, the same content hash and the same cosmetic hash.\<close>

theorem resubmission_same_hash:
  assumes "uuid_texts X" and "parse_workflow_from_json_for_tenant X fresh json tenant ns0 = Some (Inr d)"
    and "v4_supply fresh (minted d)" and "v4_supply fresh' (minted d)"
  shows "\<exists>d'. parse_workflow_from_json_for_tenant X fresh' json tenant ns0 = Some (Inr d')
    \<and> wd_id d' = wd_id d \<and> content_hash E d' = content_hash E d \<and> cosmetic_hash E d' = cosmetic_hash E d"
proof -
  obtain \<sigma> \<rho> where R: "renames X fresh fresh' (minted d) \<sigma> \<rho>" by (rule renames_exist [OF assms(1,3,4)])
  obtain d' where d': "parse_workflow_from_json_for_tenant X fresh' json tenant ns0 = Some (Inr d')" "same_content \<rho> d d'"
    using parse_rename [OF assms(1) R assms(2)] by blast
  obtain g where "wd_task_graph d = Some g" using accepted_parts [OF assms(1-3)] by metis
  then have "content_hash E d' = content_hash E d" by (simp add: content_hash_def project_content_same [OF renamesD(1) [OF R] d'(2)])
  moreover have "wd_id d' = wd_id d" "cosmetic_hash E d' = cosmetic_hash E d" using same_content_rest [OF d'(2)] by (simp_all add: cosmetic_hash_def)
  ultimately show ?thesis using d'(1) by blast
qed

section \<open>Witness\<close>

definition demo_content :: "nat content_externals" where
  "demo_content = \<lparr> ce_texts = plain_texts, ce_number = nat, ce_display = write_canonical plain_texts, ce_gate = (\<lambda>_. None),
     ce_trigger = (\<lambda>_. None), ce_captures = (\<lambda>_. None), ce_routing_vars = (\<lambda>vs. Some (json_strings (map rd_name vs))),
     ce_emits = (\<lambda>_. None), ce_tags = (\<lambda>_. None) \<rparr>"

definition demo_later :: "nat \<Rightarrow> uuid" where
  "demo_later k = demo_fresh (50 + k)"

lemma demo_later_supply:
  assumes "n \<le> 50"
  shows "v4_supply demo_later n"
  unfolding v4_supply_def
proof (rule inj_onI)
  fix x y assume a: "x \<in> {..<n}" "y \<in> {..<n}" "demo_later x = demo_later y"
  then have "50 + x = 50 + y" using demo_supply [of 100] assms unfolding v4_supply_def demo_later_def by (auto dest!: inj_onD)
  then show "x = y" by simp
qed

theorem resubmission_same_hash_witness:
  "\<exists>d d'. parse_workflow_from_json_for_tenant demo_build demo_fresh ''{}'' 2 ''main'' = Some (Inr d)
     \<and> parse_workflow_from_json_for_tenant demo_build demo_later ''{}'' 2 ''main'' = Some (Inr d')
     \<and> content_hash demo_content d' = content_hash demo_content d"
proof (rule demo_definition_accepted)
  fix d assume a: "parse_workflow_from_json_for_tenant demo_build demo_fresh ''{}'' 2 ''main'' = Some (Inr d)"
    "v4_supply demo_fresh (minted d)" and n: "minted d \<le> 50"
  show ?thesis using resubmission_same_hash [OF demo_uuid_texts a demo_later_supply [OF n], of demo_content] a(1) by blast
qed

end
