(* ===== verification/Spec2Isabelle.thy ===== *)
theory Spec2Isabelle
  imports Pickup_Contracts Scope_Witnesses Content_Properties
begin

text \<open>
  A verification of the data plane of Tickr, a workflow engine (repository \<^verbatim>\<open>tickr-cli\<close>).

  \<^bold>\<open>The program.\<close> An author writes a workflow in Nickel. The \<^emph>\<open>conductor\<close> evaluates it, builds a workflow
  definition from the resulting JSON, checks it and registers it. Tasks of running instances are staged as
  \<^emph>\<open>dispatches\<close>, picked up by executors, and their lifecycle events are relayed to the control plane. Tasks
  exchange values through \<^emph>\<open>tickr-ctx\<close>, a store with one scope per run, whose final content is committed as
  a snapshot. In Tickr Lite all durable state is in one SQLite database behind \<open>WriterRepositoryBundle\<close>.
  The development covers three of these parts, each from the entry points its callers use down to the rows or
  messages it produces: the pickup store, the scope store with its client, and the path from parsed JSON to
  a sealed definition.

  \<^bold>\<open>Common vocabulary.\<close> \<open>Tickr_Prelude\<close> has the machine types, Rust's checked arithmetic, results, SQL tables
  as lists of rows with the statements that the repositories issue, and the locales \<open>op_system\<close> and
  \<open>op_monotone\<close>: operations that keep an invariant, and operations that move a state upwards in an order.
  Both are interpreted on each store, and the properties of runs are facts of the interpretations.
  \<open>Json_Encoding\<close> is \<^verbatim>\<open>migrations/src/encoding.rs\<close>.

  \<^bold>\<open>The pickup store\<close> (\<^verbatim>\<open>src/src/migrations/src/task_pickup_repository.rs\<close>, its SQLite bodies and the
  migrations \<^verbatim>\<open>0006\<close> to \<^verbatim>\<open>0008\<close>).
  \<^item> \<open>Pickup_Model\<close>: the six tables with their CHECK, UNIQUE and foreign-key constraints, the input and
    result types and their validation. \<open>Pickup_Ops\<close>: one definition per SQL body and per public method; a
    transaction that fails leaves the store unchanged.
  \<^item> \<open>Pickup_Invariant\<close>, \<open>Pickup_Steps\<close>, \<open>Pickup_Stored\<close>: the constraints and the relations between the
    tables hold after every operation; outcomes, claims and fences only grow; stored bytes decode.
  \<^item> \<open>Pickup_Properties\<close>, \<open>Pickup_Deadlines\<close>, \<open>Pickup_Contracts\<close>: along every sequence of operations of any number of callers
    a terminal outcome is final and has one winner, a claim is exclusive, and a fence stops pickup; staging,
    elections and settlements behave as documented on every branch and for any arguments; a lost claim is
    recovered with the deadline last set; the two outboxes make progress; two
    calls are shown to refuse legitimate requests.

  \<^bold>\<open>The scope store\<close> (\<^verbatim>\<open>src/src/migrations/src/scope_repository.rs\<close> and migration \<^verbatim>\<open>0009\<close>).
  \<^item> \<open>Sha256\<close>: the in-source SHA-256 equals the function of FIPS 180-4 (written out as a reference).
    \<open>Scope_Snapshot\<close>: encoder and decoder of snapshots are inverse to each other.
  \<^item> \<open>Scope_Model\<close>, \<open>Scope_Ops\<close>: tables, digests, limits and every method. \<open>Scope_Invariant\<close>,
    \<open>Scope_Steps\<close>: invariant and monotonicity. \<open>Scope_Properties\<close>, \<open>Scope_Contracts\<close>: snapshots are final
    and contain what a read returns, writes apply once per claim, the store refines a finite map per scope,
    a run has one scope, reads are within the limits.
  \<^item> \<open>Event_Captures\<close>: \<^verbatim>\<open>src/src/conductor/src/scope_working_set.rs\<close>, a client of the trait \<open>ScopeStore\<close>. The
    trait is the locale \<open>scope_store\<close>; the client's lemmas are proved in it, and the scope repository
    interprets it. \<open>Scope_Witnesses\<close> applies the theorems to one concrete store.

  \<^bold>\<open>Workflow definitions\<close> (\<^verbatim>\<open>src/src/conductor/src/definition_graph.rs\<close> and \<^verbatim>\<open>src/src/conductor/src/parser\<close>).
  \<^item> \<open>Workflow_Messages\<close>: the messages of \<^verbatim>\<open>src/proto/workflow-definition.proto\<close>. \<open>Parsed_Workflow\<close>:
    \<^verbatim>\<open>parser/types.rs\<close>. \<open>Parser_Duration\<close>: \<^verbatim>\<open>parser/duration.rs\<close>, equivalent to a grammar.
  \<^item> \<open>Definition_Graph\<close>, \<open>Definition_Dominance\<close>: breadth-first search, the two dominance checks and the
    resolution of signal inputs, each equivalent to a statement on walks.
  \<^item> \<open>Definition_Seal\<close>: Tarjan's algorithm on an explicit stack, the structural seal and the terminability
    check. \<open>Tarjan_Invariant\<close> and \<open>Tarjan_Correct\<close> show that the search ends on every graph with the cyclic
    strongly connected components; \<open>Seal_Properties\<close> what the seal and the check promise.
  \<^item> \<open>Workflow_Builder\<close>: \<^verbatim>\<open>parser/builder.rs\<close> from validation to the trigger. \<open>Builder_Graph\<close> and
    \<open>Builder_Properties\<close>: an accepted definition has a well-formed, sealed and terminable graph, its signal
    inputs and routing gates are decided, and no input makes the builder panic. \<open>Workflow_Identity\<close>: the
    text that a workflow's identifier hashes determines tenant, namespace and slug. \<open>Builder_Demo\<close> runs the
    builder on a workflow with gates.
  \<^item> \<open>Canonical_Json\<close> and \<open>Content_Hash\<close>: \<^verbatim>\<open>src/src/conductor/src/canonical_json.rs\<close> and \<^verbatim>\<open>content_hash.rs\<close>, from which
    versions are assigned. The canonical text identifies a value up to the order of entries.
    \<open>Definition_Renaming\<close> and \<open>Builder_Renaming\<close>: every algorithm on definitions, and with them the whole
    builder, commutes with a permutation of the random identifiers; \<open>Content_Properties\<close> concludes that
    registering the same source again gives the same content hash.

  \<^bold>\<open>Conventions.\<close> An operation of a store takes the store and returns a result with the new store; an error
  is a value of a sum type, a panic or a missing iteration is \<open>None\<close>. Third-party code (\<open>serde_json\<close>,
  \<open>serde_json_path\<close>, \<open>chrono\<close>, \<open>uuid\<close>, \<open>sha2\<close>) is a field of a record of functions that the definitions take
  as an argument; what is relied on is a named predicate on it (such as \<open>serde_bytes_roundtrip\<close>,
  \<open>uuid_texts\<close>), and every theorem with such a hypothesis has a witness with concrete functions. The clock
  and fresh identifiers are arguments. Strings are their UTF-8 bytes. 64-bit overflow is written out.

  \<^bold>\<open>Bounds and fuel.\<close> The searches of \<open>definition_graph.rs\<close> are loops over a queue or a stack and have
  termination proofs: the breadth-first search by the nodes not visited yet, Tarjan's loop by the nodes
  not indexed yet and the work left in the frames. The walk back along the parents is a
  \<open>partial_function\<close> into \<open>option\<close>, shown to return (\<open>validate_dominates_correct\<close>). No definition has fuel.

  \<^bold>\<open>Not modelled.\<close> The PostgreSQL bodies, which repeat the SQLite ones for another engine; the other
  repositories of the bundle; the Redis and NATS backends, whose state is changed by scripts inside those
  servers; the relay, HTTP and command-line layers, the executor and the supervisors, which are
  asynchronous input and output around the modelled parts; the evaluation of Nickel; generated
  protobuf code. Lost connections and crashes between transactions are not modelled: a committed
  transaction is one step.
\<close>

end
